(* ===== verification/Prelude.thy ===== *)
theory Prelude
  imports Main "HOL-Library.Word" "HOL-Library.AList" "HOL-Library.State_Monad" "HOL-Library.Multiset"
begin

text \<open>
  Shared ground of the development: the names of the machine integers, Rust's saturating
  subtraction and narrowing casts, the association-list reading of \<open>HashMap\<close>, decimal
  printing and parsing of integers (\<open>format!("{}", n)\<close>, \<open>str::parse::<u64>\<close>), a JSON
  value type for request and response bodies, and the lemma collections the component
  theories draw on.
\<close>

named_theorems word_nat \<open>facts that move word arithmetic to natural numbers\<close>
named_theorems hmap \<open>facts on association lists used as hash maps\<close>

type_synonym u8 = "8 word"
type_synonym u16 = "16 word"
type_synonym u32 = "32 word"
type_synonym u64 = "64 word"
type_synonym uuid = "128 word"

text \<open>\<open>anyhow::Error\<close>: the chain of context messages, outermost first.\<close>

type_synonym anyhow = "string list"

definition context_msg :: "string \<Rightarrow> anyhow \<Rightarrow> anyhow" where
  "context_msg msg e = msg # e"

section \<open>Machine integers\<close>

definition saturating_sub :: "'a::len word \<Rightarrow> 'a word \<Rightarrow> 'a word" where
  "saturating_sub a b = (if a < b then 0 else a - b)"

lemma unat_saturating_sub [word_nat]:
  "unat (saturating_sub a b) = unat a - unat b"
  by (auto simp: saturating_sub_def word_less_nat_alt word_le_nat_alt unat_sub not_less)

lemma unat_lt_u8: "unat (w :: u8) < 256"
  using unsigned_less [of w, where ?'a = nat] by simp

lemma unat_lt_u16: "unat (w :: u16) < 65536"
  using unsigned_less [of w, where ?'a = nat] by simp

lemma unat_lt_u32: "unat (w :: u32) < 4294967296"
  using unsigned_less [of w, where ?'a = nat] by simp

lemma unat_lt_u64: "unat (w :: u64) < 18446744073709551616"
  using unsigned_less [of w, where ?'a = nat] by simp

lemma unat_ucast_u8_u64 [word_nat]: "unat (ucast (w :: u8) :: u64) = unat w"
  using unat_lt_u8 [of w] by (simp add: unsigned_ucast_eq take_bit_nat_eq_self)

lemma unat_ucast_u32_u64 [word_nat]: "unat (ucast (w :: u32) :: u64) = unat w"
  using unat_lt_u32 [of w] by (simp add: unsigned_ucast_eq take_bit_nat_eq_self)

lemma unat_ucast_u16_u32 [word_nat]: "unat (ucast (w :: u16) :: u32) = unat w"
  using unat_lt_u16 [of w] by (simp add: unsigned_ucast_eq take_bit_nat_eq_self)

lemma unat_add_exact:
  "unat a + unat b < 2 ^ LENGTH('a) \<Longrightarrow> unat (a + b) = unat a + unat (b :: 'a::len word)"
  by (simp add: unat_word_ariths)

lemma unat_mult_exact:
  "unat a * unat b < 2 ^ LENGTH('a) \<Longrightarrow> unat (a * b) = unat a * unat (b :: 'a::len word)"
  by (simp add: unat_word_ariths)

text \<open>\<open>is_multiple_of\<close> of the unsigned integers: only zero is a multiple of zero.\<close>

definition is_multiple_of :: "'a::len word \<Rightarrow> 'a word \<Rightarrow> bool" where
  "is_multiple_of a b = (if b = 0 then a = 0 else a mod b = 0)"

text \<open>
  \<open>iter().sum()\<close> on a machine integer: the release build wraps, the debug build panics
  at the first overflow (\<open>None\<close>). Where the exact sum fits, both give it.
\<close>

definition sum_wrapping :: "'a::len word list \<Rightarrow> 'a word" where
  "sum_wrapping ws = foldl (+) 0 ws"

fun sum_checked_from :: "'a::len word \<Rightarrow> 'a word list \<Rightarrow> 'a word option" where
  "sum_checked_from acc [] = Some acc"
| "sum_checked_from acc (w # ws) =
     (if unat acc + unat w < 2 ^ LENGTH('a) then sum_checked_from (acc + w) ws else None)"

definition sum_checked :: "'a::len word list \<Rightarrow> 'a word option" where
  "sum_checked ws = sum_checked_from 0 ws"

lemma unat_foldl_plus:
  "unat acc + sum_list (map unat ws) < 2 ^ LENGTH('a) \<Longrightarrow>
   unat (foldl (+) (acc :: 'a::len word) ws) = unat acc + sum_list (map unat ws)"
proof (induction ws arbitrary: acc)
  case (Cons w ws)
  then have "unat (acc + w) = unat acc + unat w"
    by (simp add: unat_word_ariths)
  with Cons show ?case by simp
qed simp

lemma unat_sum_wrapping:
  "sum_list (map unat ws) < 2 ^ LENGTH('a) \<Longrightarrow>
   unat (sum_wrapping (ws :: 'a::len word list)) = sum_list (map unat ws)"
  by (simp add: sum_wrapping_def unat_foldl_plus)

lemma sum_checked_from_eq:
  "sum_checked_from (acc :: 'a::len word) ws =
     (if unat acc + sum_list (map unat ws) < 2 ^ LENGTH('a)
      then Some (foldl (+) acc ws) else None)"
proof (induction ws arbitrary: acc)
  case (Cons w ws)
  show ?case
  proof (cases "unat acc + unat w < 2 ^ LENGTH('a)")
    case True
    then have "unat (acc + w) = unat acc + unat w"
      by (simp add: unat_word_ariths)
    with True Cons show ?thesis by (simp add: add.assoc)
  qed auto
qed (use unsigned_less in auto)

lemma sum_checked_eq:
  "sum_checked (ws :: 'a::len word list) =
     (if sum_list (map unat ws) < 2 ^ LENGTH('a) then Some (sum_wrapping ws) else None)"
  by (simp add: sum_checked_def sum_checked_from_eq sum_wrapping_def)

section \<open>Hash maps as association lists\<close>

text \<open>
  A \<open>HashMap\<close> is an association list with distinct keys; the order of the list is one of
  the orders in which the map may be iterated. \<open>insert\<close> overwrites, \<open>remove\<close> hands back
  the value it took out.
\<close>

definition hm_get :: "('k \<times> 'v) list \<Rightarrow> 'k \<Rightarrow> 'v option" where
  "hm_get m k = map_of m k"

definition hm_insert :: "'k \<Rightarrow> 'v \<Rightarrow> ('k \<times> 'v) list \<Rightarrow> ('k \<times> 'v) list" where
  "hm_insert k v m = AList.update k v m"

definition hm_remove :: "'k \<Rightarrow> ('k \<times> 'v) list \<Rightarrow> ('k \<times> 'v) list" where
  "hm_remove k m = AList.delete k m"

definition hm_values :: "('k \<times> 'v) list \<Rightarrow> 'v list" where
  "hm_values m = map snd m"

definition hm_ok :: "('k \<times> 'v) list \<Rightarrow> bool" where
  "hm_ok m \<longleftrightarrow> distinct (map fst m)"

lemma hm_get_insert [hmap]: "hm_get (hm_insert k v m) = (hm_get m)(k \<mapsto> v)"
  by (rule ext) (simp add: hm_get_def hm_insert_def update_conv')

lemma hm_get_remove [hmap]: "hm_get (hm_remove k m) = (hm_get m)(k := None)"
  by (rule ext) (simp add: hm_get_def hm_remove_def delete_conv')

lemma hm_get_Nil [hmap, simp]: "hm_get [] k = None"
  by (simp add: hm_get_def)

lemma hm_ok_Nil [hmap, simp]: "hm_ok []"
  by (simp add: hm_ok_def)

lemma hm_ok_insert [hmap]: "hm_ok m \<Longrightarrow> hm_ok (hm_insert k v m)"
  by (simp add: hm_ok_def hm_insert_def distinct_update)

lemma hm_ok_remove [hmap]: "hm_ok m \<Longrightarrow> hm_ok (hm_remove k m)"
  by (simp add: hm_ok_def hm_remove_def distinct_delete)

lemma hm_get_in_set: "hm_ok m \<Longrightarrow> hm_get m k = Some v \<longleftrightarrow> (k, v) \<in> set m"
  by (simp add: hm_ok_def hm_get_def)

text \<open>What a total over the values does under an insertion of a new key and a removal.\<close>

definition hm_total :: "('v \<Rightarrow> nat) \<Rightarrow> ('k \<times> 'v) list \<Rightarrow> nat" where
  "hm_total f m = sum_list (map f (hm_values m))"

lemma hm_total_Nil [hmap, simp]: "hm_total f [] = 0"
  by (simp add: hm_total_def hm_values_def)

lemma hm_total_insert_new [hmap]:
  "hm_get m k = None \<Longrightarrow> hm_total f (hm_insert k v m) = hm_total f m + f v"
  by (induction m) (auto simp: hm_total_def hm_values_def hm_insert_def hm_get_def split: if_splits)

lemma hm_remove_absent: "hm_get m k = None \<Longrightarrow> hm_remove k m = m"
  by (induction m) (auto simp: hm_remove_def hm_get_def split: if_splits)

lemma hm_total_remove [hmap]:
  "hm_ok m \<Longrightarrow> hm_get m k = Some v \<Longrightarrow> hm_total f m = hm_total f (hm_remove k m) + f v"
proof (induction m)
  case (Cons p m)
  show ?case
  proof (cases "fst p = k")
    case True
    with Cons.prems have "hm_get m k = None" "snd p = v"
      by (auto simp: hm_ok_def hm_get_def map_of_eq_None_iff)
    with True show ?thesis
      using hm_remove_absent [of m k]
      by (auto simp: hm_total_def hm_values_def hm_remove_def)
  next
    case False
    with Cons show ?thesis
      by (auto simp: hm_total_def hm_values_def hm_remove_def hm_get_def hm_ok_def)
  qed
qed simp

lemma hm_total_reinsert [hmap]:
  "hm_ok m \<Longrightarrow> hm_get m k = Some v \<Longrightarrow> f v' = f v \<Longrightarrow>
   hm_total f (hm_insert k v' (hm_remove k m)) = hm_total f m"
  by (simp add: hm_total_remove [of m k v] hm_total_insert_new hm_get_remove)

text \<open>The totals do not depend on the order in which the map is iterated.\<close>

lemma hm_total_perm: "mset xs = mset ys \<Longrightarrow> hm_total f xs = hm_total f ys"
  unfolding hm_total_def hm_values_def map_map
  by (metis mset_map sum_mset_sum_list)

section \<open>Decimal numbers\<close>

definition digit_char :: "nat \<Rightarrow> char" where
  "digit_char d = char_of (48 + d)"

fun show_nat :: "nat \<Rightarrow> string" where
  "show_nat n = (if n < 10 then [digit_char n] else show_nat (n div 10) @ [digit_char (n mod 10)])"

declare show_nat.simps [simp del]

definition digit_val :: "char \<Rightarrow> nat option" where
  "digit_val c = (let k = of_char c in if 48 \<le> k \<and> k \<le> 57 then Some (k - 48) else None)"

definition is_ascii_digit :: "char \<Rightarrow> bool" where
  "is_ascii_digit c = (digit_val c \<noteq> None)"

fun parse_digits :: "nat \<Rightarrow> string \<Rightarrow> nat option" where
  "parse_digits acc [] = Some acc"
| "parse_digits acc (c # cs) =
     (case digit_val c of None \<Rightarrow> None | Some d \<Rightarrow> parse_digits (10 * acc + d) cs)"

text \<open>
  \<open>str::parse::<u64>\<close>: one optional \<open>+\<close>, at least one digit, nothing else, and the value
  must fit.
\<close>

definition parse_u64 :: "string \<Rightarrow> u64 option" where
  "parse_u64 s =
     (let ds = (case s of [] \<Rightarrow> [] | c # cs \<Rightarrow> if c = CHR ''+'' then cs else s)
      in if ds = [] then None
         else case parse_digits 0 ds of
                None \<Rightarrow> None
              | Some n \<Rightarrow> if n < 2 ^ 64 then Some (of_nat n) else None)"

lemma of_char_digit_char: "d < 10 \<Longrightarrow> of_char (digit_char d) = 48 + d"
  by (simp add: digit_char_def of_char_of)

lemma digit_val_digit_char [simp]: "d < 10 \<Longrightarrow> digit_val (digit_char d) = Some d"
  by (simp add: digit_val_def of_char_digit_char)

lemma is_ascii_digit_digit_char [simp]: "d < 10 \<Longrightarrow> is_ascii_digit (digit_char d)"
  by (simp add: is_ascii_digit_def)

lemma show_nat_not_Nil [simp]: "show_nat n \<noteq> []"
  by (subst show_nat.simps) simp

lemma show_nat_digits: "c \<in> set (show_nat n) \<Longrightarrow> is_ascii_digit c"
proof (induction n rule: show_nat.induct)
  case (1 n)
  then show ?case
    by (cases "n < 10") (auto simp: show_nat.simps [of n])
qed

lemma parse_digits_append:
  "parse_digits acc (xs @ ys) =
     (case parse_digits acc xs of None \<Rightarrow> None | Some n \<Rightarrow> parse_digits n ys)"
  by (induction xs arbitrary: acc) (auto split: option.splits)

lemma parse_digits_show_nat: "parse_digits 0 (show_nat n) = Some n"
proof (induction n rule: show_nat.induct)
  case (1 n)
  then show ?case
    by (cases "n < 10") (auto simp: show_nat.simps [of n] parse_digits_append)
qed

lemma show_nat_inj [simp]: "show_nat m = show_nat n \<longleftrightarrow> m = n"
  using parse_digits_show_nat by (metis option.inject)

lemma show_nat_no_plus: "show_nat n = c # cs \<Longrightarrow> c \<noteq> CHR ''+''"
  using show_nat_digits [of c n] by (auto simp: is_ascii_digit_def digit_val_def)

lemma parse_u64_show_nat: "n < 2 ^ 64 \<Longrightarrow> parse_u64 (show_nat n) = Some (of_nat n)"
  using parse_digits_show_nat [of n] show_nat_no_plus [of n]
  by (auto simp: parse_u64_def split: list.splits)

lemma length_show_nat_le: "n < 10 ^ k \<Longrightarrow> 0 < k \<Longrightarrow> length (show_nat n) \<le> k"
proof (induction k arbitrary: n)
  case (Suc k)
  show ?case
  proof (cases "n < 10")
    case True
    then show ?thesis by (simp add: show_nat.simps [of n])
  next
    case False
    with Suc.prems have "n div 10 < 10 ^ k" "0 < k"
      by (auto simp: div_less_iff_less_mult mult.commute intro: gr0I)
    with Suc.IH have "length (show_nat (n div 10)) \<le> k" by blast
    with False show ?thesis by (simp add: show_nat.simps [of n])
  qed
qed simp

section \<open>JSON values\<close>

text \<open>The bodies the program sends: the values \<open>serde\<close> produces from its structs.\<close>

datatype json =
    JNull
  | JBool bool
  | JNum nat
  | JStr string
  | JArr "json list"
  | JObj "(string \<times> json) list"

text \<open>\<open>skip_serializing_if = "Option::is_none"\<close>: an absent field leaves no trace.\<close>

definition opt_field :: "string \<Rightarrow> ('a \<Rightarrow> json) \<Rightarrow> 'a option \<Rightarrow> (string \<times> json) list" where
  "opt_field name f x = (case x of None \<Rightarrow> [] | Some v \<Rightarrow> [(name, f v)])"

end
