(* ===== verification/Rust_Str.thy ===== *)
theory Rust_Str
  imports Prelude
begin

text \<open>
  The part of Rust's \<open>str\<close> and \<open>Path\<close> that the program calls, on ASCII text: \<open>trim\<close> and
  its variants, \<open>starts_with\<close>, \<open>ends_with\<close>, \<open>find\<close>, \<open>contains\<close>, \<open>split\<close>,
  \<open>split_whitespace\<close>, \<open>lines\<close>, \<open>join\<close>, \<open>Path::join\<close> and \<open>Path::extension\<close>. Text
  outside ASCII (Unicode white space) is outside the model.
\<close>

named_theorems strs \<open>facts on the string functions\<close>

definition newline :: char where "newline = CHR 0x0A"
definition carriage_return :: char where "carriage_return = CHR 0x0D"

definition is_ws :: "char \<Rightarrow> bool" where
  "is_ws c = (let k = of_char c :: nat in (9 \<le> k \<and> k \<le> 13) \<or> k = 32)"

section \<open>Trimming\<close>

definition trim_start :: "string \<Rightarrow> string" where
  "trim_start s = dropWhile is_ws s"

definition trim_end :: "string \<Rightarrow> string" where
  "trim_end s = rev (dropWhile is_ws (rev s))"

definition trim :: "string \<Rightarrow> string" where
  "trim s = trim_end (trim_start s)"

definition trim_start_matches :: "char \<Rightarrow> string \<Rightarrow> string" where
  "trim_start_matches c s = dropWhile (\<lambda>x. x = c) s"

definition trim_end_matches :: "char \<Rightarrow> string \<Rightarrow> string" where
  "trim_end_matches c s = rev (dropWhile (\<lambda>x. x = c) (rev s))"

lemma dropWhile_none: "\<forall>c \<in> set s. \<not> P c \<Longrightarrow> dropWhile P s = s"
  by (cases s) auto

lemma dropWhile_absent [simp]: "c \<notin> set s \<Longrightarrow> dropWhile (\<lambda>x. x = c) s = s"
  by (rule dropWhile_none) auto

lemma trim_no_ws [strs]: "\<forall>c \<in> set s. \<not> is_ws c \<Longrightarrow> trim s = s"
  by (simp add: trim_def trim_start_def trim_end_def dropWhile_none)

lemma trim_end_matches_snoc [strs]:
  "c \<notin> set s \<Longrightarrow> trim_end_matches c (s @ [c]) = s"
  by (simp add: trim_end_matches_def)

lemma trim_end_matches_none [strs]: "c \<notin> set s \<Longrightarrow> trim_end_matches c s = s"
  by (simp add: trim_end_matches_def)

lemma digit_not_ws: "is_ascii_digit c \<Longrightarrow> \<not> is_ws c"
  by (auto simp: is_ascii_digit_def digit_val_def is_ws_def Let_def split: if_splits)

lemma show_nat_no_ws [strs]: "c \<in> set (show_nat n) \<Longrightarrow> \<not> is_ws c"
  using show_nat_digits digit_not_ws by blast

section \<open>Searching\<close>

fun starts_with :: "string \<Rightarrow> string \<Rightarrow> bool" where
  "starts_with s [] = True"
| "starts_with [] (p # ps) = False"
| "starts_with (c # s) (p # ps) = (c = p \<and> starts_with s ps)"

definition ends_with :: "string \<Rightarrow> string \<Rightarrow> bool" where
  "ends_with s p = starts_with (rev s) (rev p)"

fun find_sub :: "string \<Rightarrow> string \<Rightarrow> nat option" where
  "find_sub pat [] = (if pat = [] then Some 0 else None)"
| "find_sub pat (c # s) =
     (if starts_with (c # s) pat then Some 0 else map_option Suc (find_sub pat s))"

definition contains :: "string \<Rightarrow> string \<Rightarrow> bool" where
  "contains s pat = (find_sub pat s \<noteq> None)"

text \<open>\<open>strip_prefix\<close>.\<close>

definition strip_prefix :: "string \<Rightarrow> string \<Rightarrow> string option" where
  "strip_prefix s p = (if starts_with s p then Some (drop (length p) s) else None)"

lemma starts_with_iff: "starts_with s p \<longleftrightarrow> (\<exists>t. s = p @ t)"
  by (induction s p rule: starts_with.induct) auto

lemma starts_with_append [simp, strs]: "starts_with (p @ t) p"
  by (auto simp: starts_with_iff)

lemma ends_with_iff: "ends_with s p \<longleftrightarrow> (\<exists>t. s = t @ p)"
  unfolding ends_with_def starts_with_iff
  by (metis rev_append rev_rev_ident)

lemma strip_prefix_Some: "strip_prefix s p = Some t \<longleftrightarrow> s = p @ t"
  by (auto simp: strip_prefix_def starts_with_iff)

lemma strip_prefix_append [simp]: "strip_prefix (p @ t) p = Some t"
  by (simp add: strip_prefix_Some)

text \<open>\<open>find\<close> gives the first occurrence.\<close>

lemma find_sub_Some:
  "find_sub pat s = Some i \<Longrightarrow>
   starts_with (drop i s) pat \<and> (\<forall>j < i. \<not> starts_with (drop j s) pat)"
proof (induction s arbitrary: i)
  case (Cons c s)
  show ?case
  proof (cases "starts_with (c # s) pat")
    case False
    with Cons.prems obtain i' where i': "find_sub pat s = Some i'" "i = Suc i'" by auto
    from Cons.IH [OF i'(1)] False i'(2) show ?thesis
      by (auto simp: less_Suc_eq_0_disj)
  qed (use Cons.prems in auto)
qed (auto split: if_splits)

lemma find_sub_append:
  "(\<forall>j < length xs. \<not> starts_with (drop j xs @ pat @ ys) pat) \<Longrightarrow>
   find_sub pat (xs @ pat @ ys) = Some (length xs)"
proof (induction xs)
  case Nil
  have "starts_with (pat @ ys) pat" by simp
  then show ?case by (cases "pat @ ys") auto
next
  case (Cons x xs)
  from Cons.prems have "\<not> starts_with (x # xs @ pat @ ys) pat" by force
  moreover have "find_sub pat (xs @ pat @ ys) = Some (length xs)"
    using Cons.prems by (intro Cons.IH) force
  ultimately show ?case by simp
qed

section \<open>Splitting\<close>

text \<open>\<open>str::lines\<close>: split after each newline, then drop the newline and one carriage return.\<close>

definition strip_cr :: "string \<Rightarrow> string" where
  "strip_cr s = (if s \<noteq> [] \<and> last s = carriage_return then butlast s else s)"

fun lines_from :: "string \<Rightarrow> string \<Rightarrow> string list" where
  "lines_from cur [] = (if cur = [] then [] else [rev cur])"
| "lines_from cur (c # s) =
     (if c = newline then strip_cr (rev cur) # lines_from [] s else lines_from (c # cur) s)"

definition str_lines :: "string \<Rightarrow> string list" where
  "str_lines s = lines_from [] s"

fun words_from :: "string \<Rightarrow> string \<Rightarrow> string list" where
  "words_from cur [] = (if cur = [] then [] else [rev cur])"
| "words_from cur (c # s) =
     (if is_ws c then (if cur = [] then words_from [] s else rev cur # words_from [] s)
      else words_from (c # cur) s)"

definition split_whitespace :: "string \<Rightarrow> string list" where
  "split_whitespace s = words_from [] s"

fun split_char :: "char \<Rightarrow> string \<Rightarrow> string \<Rightarrow> string list" where
  "split_char d cur [] = [rev cur]"
| "split_char d cur (c # s) =
     (if c = d then rev cur # split_char d [] s else split_char d (c # cur) s)"

definition split_on :: "char \<Rightarrow> string \<Rightarrow> string list" where
  "split_on d s = split_char d [] s"

fun join_with :: "string \<Rightarrow> string list \<Rightarrow> string" where
  "join_with sep [] = []"
| "join_with sep [x] = x"
| "join_with sep (x # y # xs) = x @ sep @ join_with sep (y # xs)"

lemma lines_from_append:
  "newline \<notin> set l \<Longrightarrow>
   lines_from cur (l @ newline # s) = strip_cr (rev cur @ l) # lines_from [] s"
  by (induction l arbitrary: cur) auto

lemma str_lines_cons [strs]:
  "newline \<notin> set l \<Longrightarrow> str_lines (l @ newline # s) = strip_cr l # str_lines s"
  by (simp add: str_lines_def lines_from_append)

lemma str_lines_Nil [simp]: "str_lines [] = []"
  by (simp add: str_lines_def)

lemma lines_from_single:
  "newline \<notin> set l \<Longrightarrow> lines_from cur l = (if cur = [] \<and> l = [] then [] else [rev cur @ l])"
  by (induction l arbitrary: cur) auto

lemma str_lines_single [strs]: "newline \<notin> set l \<Longrightarrow> l \<noteq> [] \<Longrightarrow> str_lines l = [l]"
  by (simp add: str_lines_def lines_from_single)

lemma lines_from_split:
  "lines_from cur (b @ newline # s) = lines_from cur (b @ [newline]) @ lines_from [] s"
  by (induction b arbitrary: cur) auto

lemma str_lines_split [strs]:
  "str_lines (b @ newline # s) = str_lines (b @ [newline]) @ str_lines s"
  unfolding str_lines_def by (rule lines_from_split)

lemma words_from_word:
  "\<forall>c \<in> set w. \<not> is_ws c \<Longrightarrow> words_from cur (w @ s) = words_from (rev w @ cur) s"
  by (induction w arbitrary: cur) auto

lemma split_whitespace_cons [strs]:
  assumes "\<forall>c \<in> set w. \<not> is_ws c" "w \<noteq> []" "is_ws d"
  shows "split_whitespace (w @ d # s) = w # split_whitespace s"
  using assms by (simp add: split_whitespace_def words_from_word)

lemma split_whitespace_single [strs]:
  assumes "\<forall>c \<in> set w. \<not> is_ws c" "w \<noteq> []"
  shows "split_whitespace w = [w]"
  using words_from_word [of w "[]" "[]"] assms by (simp add: split_whitespace_def)

lemma split_whitespace_skip [strs]: "is_ws d \<Longrightarrow> split_whitespace (d # s) = split_whitespace s"
  by (simp add: split_whitespace_def)

lemma words_from_words:
  "w \<in> set (words_from cur s) \<Longrightarrow> \<forall>c \<in> set cur. \<not> is_ws c \<Longrightarrow>
   w \<noteq> [] \<and> (\<forall>c \<in> set w. \<not> is_ws c)"
proof (induction s arbitrary: cur)
  case (Cons c s)
  show ?case
  proof (cases "is_ws c")
    case True
    with Cons.prems Cons.IH [of "[]"] show ?thesis by (auto split: if_splits)
  next
    case False
    with Cons.prems Cons.IH [of "c # cur"] show ?thesis by auto
  qed
qed (auto split: if_splits)

lemma split_whitespace_words:
  "w \<in> set (split_whitespace s) \<Longrightarrow> w \<noteq> [] \<and> (\<forall>c \<in> set w. \<not> is_ws c)"
  using words_from_words [of w "[]" s] by (simp add: split_whitespace_def)

section \<open>Paths\<close>

text \<open>\<open>Path::join\<close>: an absolute argument replaces the base.\<close>

definition is_absolute :: "string \<Rightarrow> bool" where
  "is_absolute p = (case p of [] \<Rightarrow> False | c # _ \<Rightarrow> c = CHR ''/'')"

definition path_join :: "string \<Rightarrow> string \<Rightarrow> string" where
  "path_join a b =
     (if is_absolute b \<or> a = [] then b
      else if last a = CHR ''/'' then a @ b
      else a @ ''/'' @ b)"

text \<open>
  \<open>Path::extension\<close> of a file name: what follows the last dot, if something precedes it.
\<close>

definition file_extension :: "string \<Rightarrow> string option" where
  "file_extension name =
     (let ext = rev (takeWhile (\<lambda>c. c \<noteq> CHR ''.'') (rev name));
          rest = dropWhile (\<lambda>c. c \<noteq> CHR ''.'') (rev name)
      in if name = ''..'' \<or> rest = [] \<or> tl rest = [] then None else Some ext)"

lemma file_extension_append [strs]:
  "CHR ''.'' \<notin> set ext \<Longrightarrow> stem \<noteq> [] \<Longrightarrow> ext \<noteq> [] \<Longrightarrow>
   file_extension (stem @ CHR ''.'' # ext) = Some ext"
proof -
  assume a: "CHR ''.'' \<notin> set ext" "stem \<noteq> []" "ext \<noteq> []"
  then have "stem @ CHR ''.'' # ext \<noteq> ''..''"
    by (cases stem; cases "tl stem"; auto)
  moreover have "takeWhile (\<lambda>c. c \<noteq> CHR ''.'') (rev (stem @ CHR ''.'' # ext)) = rev ext"
    using a(1) takeWhile_append2 [of "rev ext" "\<lambda>c. c \<noteq> CHR ''.''" "CHR ''.'' # rev stem"] by auto
  moreover have "dropWhile (\<lambda>c. c \<noteq> CHR ''.'') (rev (stem @ CHR ''.'' # ext)) = CHR ''.'' # rev stem"
    using a(1) dropWhile_append2 [of "rev ext" "\<lambda>c. c \<noteq> CHR ''.''" "CHR ''.'' # rev stem"] by auto
  ultimately show ?thesis
    using a(2) by (simp add: file_extension_def)
qed

end
