(* ===== verification/Vm_Config.thy ===== *)
theory Vm_Config
  imports Rust_Str
begin

text \<open>
  \<open>src/vm/config.rs\<close> and \<open>src/capacity.rs\<close>: the checks on a requested VM size, the
  cgroup limits built from it, and the host's capacity. The numbers of the system
  (\<open>sysinfo\<close>, \<open>available_parallelism\<close>) are arguments.
\<close>

section \<open>Configuration\<close>

definition DEFAULT_VCPUS :: u8 where "DEFAULT_VCPUS = 1"
definition DEFAULT_MEMORY_MB :: u32 where "DEFAULT_MEMORY_MB = 128"
definition MIN_MEMORY_MB :: u32 where "MIN_MEMORY_MB = 128"
definition MAX_VCPUS :: u8 where "MAX_VCPUS = 32"

datatype config_error = InvalidVcpus string | InvalidMemory string

fun config_error_to_string :: "config_error \<Rightarrow> string" where
  "config_error_to_string (InvalidVcpus msg) = msg"
| "config_error_to_string (InvalidMemory msg) = msg"

definition unwrap_or :: "'a option \<Rightarrow> 'a \<Rightarrow> 'a" where
  "unwrap_or x d = (case x of None \<Rightarrow> d | Some v \<Rightarrow> v)"

lemma unwrap_or_simps [simp]: "unwrap_or None d = d" "unwrap_or (Some v) d = v"
  by (simp_all add: unwrap_or_def)

definition validate_vm_config :: "u8 option \<Rightarrow> u32 option \<Rightarrow> config_error + (u8 \<times> u32)" where
  "validate_vm_config req_vcpus req_memory =
     (let vcpus = unwrap_or req_vcpus DEFAULT_VCPUS;
          memory_mb = unwrap_or req_memory DEFAULT_MEMORY_MB
      in if vcpus = 0 \<or> vcpus > MAX_VCPUS \<or> (vcpus > 1 \<and> \<not> is_multiple_of vcpus 2)
         then Inl (InvalidVcpus ''vcpus must be 1 or an even number between 2 and 32'')
         else if memory_mb < MIN_MEMORY_MB
         then Inl (InvalidMemory (''memory_mb must be at least '' @ show_nat (unat MIN_MEMORY_MB)))
         else Inr (vcpus, memory_mb))"

text \<open>The rule the error messages state, on numbers.\<close>

definition allowed_vcpus :: "nat \<Rightarrow> bool" where
  "allowed_vcpus n \<longleftrightarrow> n = 1 \<or> (even n \<and> 2 \<le> n \<and> n \<le> 32)"

lemma vcpus_guard_iff:
  "\<not> (v = 0 \<or> v > MAX_VCPUS \<or> (v > 1 \<and> \<not> is_multiple_of v 2)) \<longleftrightarrow> allowed_vcpus (unat v)" for v :: u8
proof -
  have z: "v = 0 \<longleftrightarrow> unat v = 0" by (simp add: unat_eq_0)
  have m: "v > MAX_VCPUS \<longleftrightarrow> unat v > 32"
    by (simp add: MAX_VCPUS_def word_less_nat_alt)
  have o: "v > 1 \<longleftrightarrow> unat v > 1" by (simp add: word_less_nat_alt)
  have "unat (v mod 2) = unat v mod 2" by (simp add: unat_mod)
  then have e: "is_multiple_of v 2 \<longleftrightarrow> even (unat v)"
    by (simp only: is_multiple_of_def unat_eq_0 [symmetric] even_iff_mod_2_eq_zero) simp
  show ?thesis unfolding z m o e allowed_vcpus_def
    by (cases "unat v = 1") (auto simp: not_less)
qed

lemma memory_guard_iff: "m < MIN_MEMORY_MB \<longleftrightarrow> unat m < 128" for m :: u32
  by (simp add: MIN_MEMORY_MB_def word_less_nat_alt)

lemma validated:
  "validate_vm_config rv rm = Inr (v, m) \<longleftrightarrow>
     v = unwrap_or rv 1 \<and> m = unwrap_or rm 128 \<and> allowed_vcpus (unat v) \<and> 128 \<le> unat m"
  using vcpus_guard_iff [of "unwrap_or rv 1"] memory_guard_iff [of "unwrap_or rm 128"]
  by (auto simp: validate_vm_config_def DEFAULT_VCPUS_def DEFAULT_MEMORY_MB_def Let_def)

text \<open>C40: The validation accepts exactly the sizes the error messages name, with the
  defaults of one vCPU and 128 MB filled in for what the request leaves out: a result is
  returned if and only if the vCPU count is 1 or an even number from 2 to 32 and the
  memory is at least 128 MB, and the values returned are the requested ones.\<close>

theorem validate_vm_config_accepts_iff:
  "validate_vm_config rv rm = Inr (v, m) \<longleftrightarrow>
     v = unwrap_or rv 1 \<and> m = unwrap_or rm 128 \<and> allowed_vcpus (unat v) \<and> 128 \<le> unat m"
  by (rule validated)

text \<open>An error about the vCPUs is reported before one about the memory.\<close>

lemma validate_vm_config_error_cases:
  "(\<exists>msg. validate_vm_config rv rm = Inl (InvalidVcpus msg)) \<longleftrightarrow>
     \<not> allowed_vcpus (unat (unwrap_or rv 1))"
  "(\<exists>msg. validate_vm_config rv rm = Inl (InvalidMemory msg)) \<longleftrightarrow>
     allowed_vcpus (unat (unwrap_or rv 1)) \<and> unat (unwrap_or rm 128) < 128"
  using vcpus_guard_iff [of "unwrap_or rv 1"] memory_guard_iff [of "unwrap_or rm 128"]
  by (auto simp: validate_vm_config_def DEFAULT_VCPUS_def DEFAULT_MEMORY_MB_def Let_def)

lemma validate_vm_config_bounds:
  "validate_vm_config rv rm = Inr (v, m) \<Longrightarrow> 1 \<le> unat v \<and> unat v \<le> 32 \<and> 128 \<le> unat m"
  unfolding validated allowed_vcpus_def by auto

section \<open>Cgroup limits\<close>

definition build_cgroup_config :: "nat \<Rightarrow> u8 \<Rightarrow> u32 \<Rightarrow> (string \<times> string) list" where
  "build_cgroup_config cgroup_version vcpus memory_mb =
     (let memory_limit_bytes = ((ucast memory_mb :: u64) + 50) * 1024 * 1024;
          cpu_quota = (ucast vcpus :: u64) * 100000
      in if cgroup_version = 2
         then [(''cpu.max'', show_nat (unat cpu_quota) @ '' 100000''),
               (''memory.max'', show_nat (unat memory_limit_bytes))]
         else [(''cpu.cfs_quota_us'', show_nat (unat cpu_quota)),
               (''cpu.cfs_period_us'', ''100000''),
               (''memory.limit_in_bytes'', show_nat (unat memory_limit_bytes))])"

lemma cpu_quota_exact: "unat ((ucast v :: u64) * 100000) = unat (v :: u8) * 100000"
  using unat_lt_u8 [of v] by (simp add: unat_word_ariths word_nat)

lemma memory_limit_exact:
  "unat (((ucast m :: u64) + 50) * 1024 * 1024) = (unat (m :: u32) + 50) * 1048576"
proof -
  let ?x = "(ucast m :: u64) + 50"
  have a: "unat ?x = unat m + 50"
    using unat_lt_u32 [of m] by (simp add: unat_add_exact word_nat)
  have b: "unat (?x * 1024) = (unat m + 50) * 1024"
    using unat_lt_u32 [of m] unat_mult_exact [of ?x 1024] a by simp
  have "unat (?x * 1024 * 1024) = (unat m + 50) * 1024 * 1024"
    using unat_lt_u32 [of m] unat_mult_exact [of "?x * 1024" 1024] b by (simp only:) simp
  then show ?thesis by simp
qed

text \<open>The cgroup limits never overflow 64 bits: whatever the request, the memory limit
  written is the memory plus 50 MB, in bytes, and the CPU quota is 100000 microseconds per
  vCPU, under the file names of the detected cgroup version.\<close>

theorem build_cgroup_config_exact:
  "build_cgroup_config ver v m =
     (if ver = 2
      then [(''cpu.max'', show_nat (unat v * 100000) @ '' 100000''),
            (''memory.max'', show_nat ((unat m + 50) * 1048576))]
      else [(''cpu.cfs_quota_us'', show_nat (unat v * 100000)),
            (''cpu.cfs_period_us'', ''100000''),
            (''memory.limit_in_bytes'', show_nat ((unat m + 50) * 1048576))])"
  by (simp only: build_cgroup_config_def Let_def cpu_quota_exact memory_limit_exact)

section \<open>Host capacity\<close>

definition HOST_RESERVED_MEMORY_MB :: u64 where "HOST_RESERVED_MEMORY_MB = 256"

record capacity =
  cap_memory_mb :: u64
  cap_vcpus :: u8

definition allocatable_memory_mb :: "capacity \<Rightarrow> u64" where
  "allocatable_memory_mb c = saturating_sub (cap_memory_mb c) HOST_RESERVED_MEMORY_MB"

definition total_memory_mb :: "u64 \<Rightarrow> u64" where
  "total_memory_mb total_memory_bytes = total_memory_bytes div 1024 div 1024"

text \<open>\<open>available_parallelism()\<close> is \<open>None\<close> where it fails; \<open>as u8\<close> keeps the low byte.\<close>

definition total_cpus :: "u64 option \<Rightarrow> u8" where
  "total_cpus parallelism = (case parallelism of None \<Rightarrow> 1 | Some n \<Rightarrow> ucast n)"

definition available_capacity :: "u64 \<Rightarrow> u64 option \<Rightarrow> capacity" where
  "available_capacity total_memory_bytes parallelism =
     \<lparr>cap_memory_mb = total_memory_mb total_memory_bytes, cap_vcpus = total_cpus parallelism\<rparr>"

lemma unat_allocatable: "unat (allocatable_memory_mb c) = unat (cap_memory_mb c) - 256"
  by (simp add: allocatable_memory_mb_def HOST_RESERVED_MEMORY_MB_def word_nat)

text \<open>The detected capacity: the memory is the system's bytes in whole MB, of which all
  but 256 MB may be allocated (none on a smaller host), and the vCPU count is the number of
  logical CPUs modulo 256. A host with 256 logical CPUs is taken to have none.\<close>

theorem available_capacity_values:
  "unat (cap_memory_mb (available_capacity bytes (Some n))) = unat bytes div 1048576
   \<and> unat (allocatable_memory_mb (available_capacity bytes (Some n))) = unat bytes div 1048576 - 256
   \<and> unat (cap_vcpus (available_capacity bytes (Some n))) = unat n mod 256
   \<and> cap_vcpus (available_capacity bytes (Some 256)) = 0
   \<and> cap_vcpus (available_capacity bytes None) = 1"
proof -
  have "unat (total_memory_mb bytes) = unat bytes div 1048576"
    by (simp add: total_memory_mb_def unat_div div_mult2_eq [symmetric])
  moreover have "unat (ucast n :: u8) = unat n mod 256"
    by (simp add: unsigned_ucast_eq take_bit_eq_mod)
  ultimately show ?thesis
    by (simp add: available_capacity_def unat_allocatable total_cpus_def)
qed

end
