(* ===== verification/Subnet_Pool.thy ===== *)
theory Subnet_Pool
  imports Rust_Str
begin

text \<open>
  \<open>src/vm/network.rs\<close>: the pool of \<open>/30\<close> subnets of \<open>172.16.0.0/16\<close>, the addresses and
  the tap name computed from a subnet's index, and the kernel boot argument built from
  them. The interface \<open>slot_allocator\<close> states what the VM handlers rely on.
\<close>

section \<open>Addresses\<close>

datatype ipv4 = Ipv4 u8 u8 u8 u8

fun ipv4_to_string :: "ipv4 \<Rightarrow> string" where
  "ipv4_to_string (Ipv4 a b c d) =
     show_nat (unat a) @ ''.'' @ show_nat (unat b) @ ''.'' @
     show_nat (unat c) @ ''.'' @ show_nat (unat d)"

text \<open>The address as a number, its order, and the network of a \<open>/30\<close> prefix.\<close>

fun ipv4_value :: "ipv4 \<Rightarrow> nat" where
  "ipv4_value (Ipv4 a b c d) = ((unat a * 256 + unat b) * 256 + unat c) * 256 + unat d"

definition net30 :: "ipv4 \<Rightarrow> nat" where
  "net30 ip = ipv4_value ip div 4"

lemma base256:
  fixes x y b d :: nat
  assumes eq: "x * 256 + b = y * 256 + d" and "b < 256" "d < 256"
  shows "x = y \<and> b = d"
proof -
  have "(x * 256 + b) div 256 = x" "(y * 256 + d) div 256 = y" using assms(2,3) by simp_all
  with eq have "x = y" by metis
  with eq show ?thesis by simp
qed

lemma ipv4_value_inj: "ipv4_value x = ipv4_value y \<longleftrightarrow> x = y"
proof
  assume eq: "ipv4_value x = ipv4_value y"
  obtain a b c d where x: "x = Ipv4 a b c d" by (cases x)
  obtain a' b' c' d' where y: "y = Ipv4 a' b' c' d'" by (cases y)
  note l = unat_lt_u8
  from base256 [OF eq [unfolded x y ipv4_value.simps] l l]
  have d: "unat d = unat d'" and
    abc: "(unat a * 256 + unat b) * 256 + unat c = (unat a' * 256 + unat b') * 256 + unat c'"
    by simp_all
  from base256 [OF abc l l]
  have c: "unat c = unat c'" and ab: "unat a * 256 + unat b = unat a' * 256 + unat b'"
    by simp_all
  from base256 [OF ab l l] c d show "x = y"
    unfolding x y by (simp add: word_unat_eq_iff)
qed simp

instantiation ipv4 :: linorder
begin

definition less_eq_ipv4 :: "ipv4 \<Rightarrow> ipv4 \<Rightarrow> bool" where
  "less_eq_ipv4 x y = (ipv4_value x \<le> ipv4_value y)"

definition less_ipv4 :: "ipv4 \<Rightarrow> ipv4 \<Rightarrow> bool" where
  "less_ipv4 x y = (ipv4_value x < ipv4_value y)"

instance
  by standard (auto simp: less_eq_ipv4_def less_ipv4_def ipv4_value_inj dest: antisym)

end

section \<open>The pool\<close>

definition MAX_SUBNETS :: nat where "MAX_SUBNETS = 16384"

record subnet_pool =
  slots :: "bool list"

record subnet_allocation =
  sub_index :: u16
  tap_ip :: ipv4
  guest_ip :: ipv4
  sub_tap_name :: string

definition subnet_tap_ip :: "u16 \<Rightarrow> ipv4" where
  "subnet_tap_ip index =
     (let offset = 4 * (ucast index :: u32) + 1
      in Ipv4 172 16 (ucast (offset div 256)) (ucast (offset mod 256)))"

definition subnet_guest_ip :: "u16 \<Rightarrow> ipv4" where
  "subnet_guest_ip index =
     (let offset = 4 * (ucast index :: u32) + 2
      in Ipv4 172 16 (ucast (offset div 256)) (ucast (offset mod 256)))"

definition tap_name :: "u16 \<Rightarrow> string" where
  "tap_name index = ''fc'' @ show_nat (unat index)"

definition build_network_boot_args :: "ipv4 \<Rightarrow> ipv4 \<Rightarrow> string" where
  "build_network_boot_args guest tap =
     ''ip='' @ ipv4_to_string guest @ ''::'' @ ipv4_to_string tap @ '':255.255.255.252::eth0:off''"

definition pool_new :: subnet_pool where
  "pool_new = \<lparr>slots = replicate MAX_SUBNETS False\<rparr>"

text \<open>\<open>iter().position(|&used| !used)\<close>.\<close>

fun first_free :: "bool list \<Rightarrow> nat option" where
  "first_free [] = None"
| "first_free (u # us) = (if \<not> u then Some 0 else map_option Suc (first_free us))"

definition pool_allocate :: "subnet_pool \<Rightarrow> (subnet_allocation \<times> subnet_pool) option" where
  "pool_allocate p =
     (case first_free (slots p) of
        None \<Rightarrow> None
      | Some i \<Rightarrow>
          let index = of_nat i :: u16
          in Some (\<lparr>sub_index = index, tap_ip = subnet_tap_ip index,
                    guest_ip = subnet_guest_ip index, sub_tap_name = tap_name index\<rparr>,
                   p\<lparr>slots := (slots p)[i := True]\<rparr>))"

text \<open>Releasing an index out of range panics: \<open>None\<close>.\<close>

definition pool_release :: "u16 \<Rightarrow> subnet_pool \<Rightarrow> subnet_pool option" where
  "pool_release index p =
     (if unat index < length (slots p)
      then Some (p\<lparr>slots := (slots p)[unat index := False]\<rparr>) else None)"

definition pool_ok :: "subnet_pool \<Rightarrow> bool" where
  "pool_ok p \<longleftrightarrow> length (slots p) = MAX_SUBNETS"

definition pool_used :: "subnet_pool \<Rightarrow> u16 set" where
  "pool_used p = {i. unat i < length (slots p) \<and> slots p ! unat i}"

definition pool_range :: "u16 set" where
  "pool_range = {i. unat i < MAX_SUBNETS}"

lemma first_free_Some:
  "first_free us = Some i \<Longrightarrow> i < length us \<and> \<not> us ! i \<and> (\<forall>j < i. us ! j)"
proof (induction us arbitrary: i)
  case (Cons u us)
  then show ?case by (cases u) (auto simp: less_Suc_eq_0_disj nth_Cons')
qed simp

lemma first_free_None: "first_free us = None \<longleftrightarrow> (\<forall>j < length us. us ! j)"
  by (induction us) (auto simp: less_Suc_eq_0_disj nth_Cons')

lemma unat_of_nat_u16: "i < MAX_SUBNETS \<Longrightarrow> unat (of_nat i :: u16) = i"
  by (simp add: MAX_SUBNETS_def unat_of_nat)

lemma pool_ok_new: "pool_ok pool_new"
  by (simp add: pool_ok_def pool_new_def)

lemma pool_used_new: "pool_used pool_new = {}"
  by (auto simp: pool_used_def pool_new_def)

lemma pool_used_range: "pool_ok p \<Longrightarrow> pool_used p \<subseteq> pool_range"
  by (auto simp: pool_used_def pool_range_def pool_ok_def)

lemma pool_allocate_Some:
  assumes ok: "pool_ok p" and al: "pool_allocate p = Some (a, p')"
  shows "sub_index a \<notin> pool_used p" "sub_index a \<in> pool_range" "pool_ok p'"
    "pool_used p' = insert (sub_index a) (pool_used p)"
    "\<forall>j. unat j < unat (sub_index a) \<longrightarrow> j \<in> pool_used p"
    "tap_ip a = subnet_tap_ip (sub_index a)" "guest_ip a = subnet_guest_ip (sub_index a)"
    "sub_tap_name a = tap_name (sub_index a)"
proof -
  from al obtain i where i: "first_free (slots p) = Some i"
    and a: "sub_index a = of_nat i" "tap_ip a = subnet_tap_ip (of_nat i)"
      "guest_ip a = subnet_guest_ip (of_nat i)" "sub_tap_name a = tap_name (of_nat i)"
    and p': "p' = p\<lparr>slots := (slots p)[i := True]\<rparr>"
    by (auto simp: pool_allocate_def Let_def split: option.splits)
  from first_free_Some [OF i] ok have i': "i < MAX_SUBNETS" "\<not> slots p ! i" "\<forall>j < i. slots p ! j"
    by (auto simp: pool_ok_def)
  have u: "unat (sub_index a) = i" using i'(1) a(1) by (simp add: unat_of_nat_u16)
  have eq: "unat k = i \<longleftrightarrow> k = sub_index a" for k :: u16
    using u by (auto simp: word_unat_eq_iff)
  show "sub_index a \<notin> pool_used p" using u i'(2) by (auto simp: pool_used_def)
  show "sub_index a \<in> pool_range" using u i'(1) by (simp add: pool_range_def)
  show "pool_ok p'" using ok p' by (simp add: pool_ok_def)
  show "pool_used p' = insert (sub_index a) (pool_used p)"
  proof (rule set_eqI)
    fix k
    show "k \<in> pool_used p' \<longleftrightarrow> k \<in> insert (sub_index a) (pool_used p)"
    proof (cases "k = sub_index a")
      case True
      with u ok i'(1) show ?thesis by (simp add: pool_used_def p' pool_ok_def)
    next
      case False
      with eq [of k] show ?thesis by (auto simp: pool_used_def p')
    qed
  qed
  show "\<forall>j. unat j < unat (sub_index a) \<longrightarrow> j \<in> pool_used p"
    using u i' ok by (auto simp: pool_used_def pool_ok_def)
  show "tap_ip a = subnet_tap_ip (sub_index a)" "guest_ip a = subnet_guest_ip (sub_index a)"
    "sub_tap_name a = tap_name (sub_index a)" using a by simp_all
qed

lemma pool_allocate_None: "pool_ok p \<Longrightarrow> pool_allocate p = None \<longleftrightarrow> pool_used p = pool_range"
proof -
  assume ok: "pool_ok p"
  have "pool_allocate p = None \<longleftrightarrow> (\<forall>j < MAX_SUBNETS. slots p ! j)"
    using ok first_free_None [of "slots p"]
    by (cases "first_free (slots p)") (auto simp: pool_allocate_def pool_ok_def Let_def)
  also have "\<dots> \<longleftrightarrow> pool_used p = pool_range"
    using ok unat_of_nat_u16
    by (auto simp: pool_used_def pool_range_def pool_ok_def set_eq_iff) metis
  finally show ?thesis .
qed

lemma pool_release_in_range:
  assumes "pool_ok p" "i \<in> pool_range"
  shows "\<exists>p'. pool_release i p = Some p' \<and> pool_ok p' \<and> pool_used p' = pool_used p - {i}"
  using assms
  by (auto simp: pool_release_def pool_ok_def pool_range_def pool_used_def nth_list_update
      word_unat_eq_iff split: if_splits)

section \<open>The allocator interface\<close>

text \<open>
  What a client of the pool may rely on: an allocation hands out a slot nobody holds,
  fails only when every slot is held, and a release gives exactly its slot back.
\<close>

locale slot_allocator =
  fixes alloc :: "'p \<Rightarrow> ('a \<times> 'p) option"
    and release :: "'i \<Rightarrow> 'p \<Rightarrow> 'p option"
    and index_of :: "'a \<Rightarrow> 'i"
    and used :: "'p \<Rightarrow> 'i set"
    and ok :: "'p \<Rightarrow> bool"
    and range :: "'i set"
  assumes alloc_fresh: "ok p \<Longrightarrow> alloc p = Some (a, p') \<Longrightarrow>
      index_of a \<in> range - used p \<and> used p' = insert (index_of a) (used p) \<and> ok p'"
    and alloc_full: "ok p \<Longrightarrow> alloc p = None \<longleftrightarrow> used p = range"
    and release_ok: "ok p \<Longrightarrow> i \<in> range \<Longrightarrow>
      \<exists>p'. release i p = Some p' \<and> used p' = used p - {i} \<and> ok p'"
    and used_range: "ok p \<Longrightarrow> used p \<subseteq> range"
begin

lemma alloc_release:
  assumes "ok p" "alloc p = Some (a, p1)"
  shows "\<exists>p2. release (index_of a) p1 = Some p2 \<and> used p2 = used p \<and> ok p2"
  using alloc_fresh [OF assms] release_ok [of p1 "index_of a"] by auto

lemma release_alloc:
  assumes "ok p" "i \<in> range"
  shows "\<exists>p1 a p2. release i p = Some p1 \<and> alloc p1 = Some (a, p2) \<and> index_of a \<notin> used p - {i}"
proof -
  from release_ok [OF assms] obtain p1 where
    p1: "release i p = Some p1" "used p1 = used p - {i}" "ok p1" by blast
  with assms(2) alloc_full [of p1] have "alloc p1 \<noteq> None" by auto
  then obtain a p2 where "alloc p1 = Some (a, p2)" by auto
  with alloc_fresh [OF p1(3)] p1 show ?thesis by auto
qed

lemma consecutive_allocs_distinct:
  assumes "ok p" "alloc p = Some (a, p1)" "alloc p1 = Some (b, p2)"
  shows "index_of a \<noteq> index_of b"
proof -
  from alloc_fresh [OF assms(1,2)] have "ok p1" "index_of a \<in> used p1" by auto
  with alloc_fresh [OF \<open>ok p1\<close> assms(3)] show ?thesis by auto
qed

lemma release_keeps_others:
  "ok p \<Longrightarrow> i \<in> range \<Longrightarrow> release i p = Some p' \<Longrightarrow> j \<noteq> i \<Longrightarrow> j \<in> used p' \<longleftrightarrow> j \<in> used p"
  using release_ok [of p i] by auto

lemma release_frees: "ok p \<Longrightarrow> i \<in> range \<Longrightarrow> release i p = Some p' \<Longrightarrow> i \<notin> used p'"
  using release_ok [of p i] by auto

end

interpretation subnets: slot_allocator pool_allocate pool_release sub_index pool_used pool_ok pool_range
proof unfold_locales
  fix p p' :: subnet_pool and a :: subnet_allocation
  assume "pool_ok p" "pool_allocate p = Some (a, p')"
  from pool_allocate_Some(1-4) [OF this]
  show "sub_index a \<in> pool_range - pool_used p \<and>
        pool_used p' = insert (sub_index a) (pool_used p) \<and> pool_ok p'" by blast
next
  fix p :: subnet_pool and i :: u16
  assume "pool_ok p" "i \<in> pool_range"
  then show "\<exists>p'. pool_release i p = Some p' \<and> pool_used p' = pool_used p - {i} \<and> pool_ok p'"
    using pool_release_in_range by blast
qed (simp_all add: pool_allocate_None pool_used_range)

text \<open>C31: Allocation hands out the lowest free index: it was free, lies below 16384, is the
  only slot that changes, every lower index was in use, and the addresses and the tap name
  returned are those of that index.\<close>

theorem pool_allocate_lowest_free:
  assumes "pool_ok p" and "pool_allocate p = Some (a, p')"
  shows "sub_index a \<notin> pool_used p \<and> unat (sub_index a) < 16384
    \<and> pool_used p' = insert (sub_index a) (pool_used p) \<and> pool_ok p'
    \<and> (\<forall>j. unat j < unat (sub_index a) \<longrightarrow> j \<in> pool_used p)
    \<and> tap_ip a = subnet_tap_ip (sub_index a) \<and> guest_ip a = subnet_guest_ip (sub_index a)
    \<and> sub_tap_name a = tap_name (sub_index a)"
  using pool_allocate_Some [OF assms] by (simp add: pool_range_def MAX_SUBNETS_def)

lemma first_free_replicate: "first_free (replicate n False) = (if n = 0 then None else Some 0)"
  by (cases n) simp_all

lemma allocate_from_new:
  "pool_allocate pool_new =
     Some (\<lparr>sub_index = 0, tap_ip = subnet_tap_ip 0, guest_ip = subnet_guest_ip 0,
            sub_tap_name = tap_name 0\<rparr>, pool_new\<lparr>slots := (slots pool_new)[0 := True]\<rparr>)"
  by (simp add: pool_allocate_def pool_new_def first_free_replicate MAX_SUBNETS_def Let_def)

theorem pool_allocate_lowest_free_witness:
  "sub_index (fst (the (pool_allocate pool_new))) = 0
   \<and> pool_used (snd (the (pool_allocate pool_new))) = {0}"
  using pool_allocate_lowest_free [OF pool_ok_new allocate_from_new]
  by (simp add: allocate_from_new pool_used_new)

text \<open>The pool runs dry only when all 16384 subnets are in use, and releasing any one of
  them makes the next allocation succeed with exactly that subnet.\<close>

theorem pool_exhaustion_and_reuse:
  assumes "pool_ok p" and "i \<in> pool_range"
  shows "(pool_allocate p = None \<longleftrightarrow> pool_used p = pool_range)
    \<and> (pool_allocate p = None \<longrightarrow>
        (\<exists>p1 a p2. pool_release i p = Some p1 \<and> pool_allocate p1 = Some (a, p2) \<and> sub_index a = i))"
proof -
  obtain p1 a p2 where r: "pool_release i p = Some p1" "pool_allocate p1 = Some (a, p2)"
    "sub_index a \<notin> pool_used p - {i}"
    using subnets.release_alloc [OF assms] by blast
  have "pool_ok p1" using subnets.release_ok [OF assms] r(1) by auto
  then have "sub_index a \<in> pool_range" using subnets.alloc_fresh [OF _ r(2)] by auto
  with r show ?thesis using subnets.alloc_full [OF assms(1)] by auto
qed

definition pool_full :: subnet_pool where
  "pool_full = \<lparr>slots = replicate MAX_SUBNETS True\<rparr>"

theorem pool_exhaustion_and_reuse_witness:
  "pool_allocate pool_full = None
   \<and> (\<exists>p1 a p2. pool_release 100 pool_full = Some p1 \<and> pool_allocate p1 = Some (a, p2)
        \<and> sub_index a = 100)"
proof -
  have ok: "pool_ok pool_full" by (simp add: pool_ok_def pool_full_def)
  have i: "(100 :: u16) \<in> pool_range" by (simp add: pool_range_def MAX_SUBNETS_def)
  have "pool_used pool_full = pool_range"
    by (auto simp: pool_used_def pool_range_def pool_full_def)
  with pool_exhaustion_and_reuse [OF ok i] show ?thesis by blast
qed

section \<open>What the addresses are\<close>

lemma octets_value:
  assumes "unat (off :: u32) < 65536"
  shows "unat (ucast (off div 256) :: u8) * 256 + unat (ucast (off mod 256) :: u8) = unat off"
proof -
  have "unat (off div 256) = unat off div 256" "unat (off mod 256) = unat off mod 256"
    by (simp_all add: unat_div unat_mod)
  moreover have "unat off div 256 < 256" using assms by simp
  ultimately have "unat (ucast (off div 256) :: u8) = unat off div 256"
    "unat (ucast (off mod 256) :: u8) = unat off mod 256"
    by (simp_all add: unsigned_ucast_eq take_bit_nat_eq_self)
  then show ?thesis by (simp only:) simp
qed

lemma unat_offset:
  assumes "k < 4"
  shows "unat (4 * (ucast (i :: u16) :: u32) + of_nat k) = 4 * unat i + k"
proof -
  have k: "unat (of_nat k :: u32) = k" using assms by (simp add: unat_of_nat)
  have "unat (4 * (ucast i :: u32)) = 4 * unat i"
    using unat_mult_exact [of "4 :: u32" "ucast i"] unat_lt_u16 [of i] by (simp add: word_nat)
  with k assms unat_lt_u16 [of i] show ?thesis
    using unat_add_exact [of "4 * (ucast i :: u32)" "of_nat k"] by simp
qed

lemma subnet_ip_value:
  assumes "i \<in> pool_range"
  shows "ipv4_value (subnet_tap_ip i) = 2886729728 + 4 * unat i + 1"
    "ipv4_value (subnet_guest_ip i) = 2886729728 + 4 * unat i + 2"
proof -
  have lt: "unat i < 16384" using assms by (simp add: pool_range_def MAX_SUBNETS_def)
  let ?t = "4 * (ucast i :: u32) + 1" and ?g = "4 * (ucast i :: u32) + 2"
  have t: "unat ?t = 4 * unat i + 1" and g: "unat ?g = 4 * unat i + 2"
    using unat_offset [of 1 i] unat_offset [of 2 i] by simp_all
  have v: "ipv4_value (Ipv4 172 16 c d) = 2886729728 + (unat c * 256 + unat d)" for c d
    by simp
  show "ipv4_value (subnet_tap_ip i) = 2886729728 + 4 * unat i + 1"
    unfolding subnet_tap_ip_def Let_def v using octets_value [of ?t] t lt by linarith
  show "ipv4_value (subnet_guest_ip i) = 2886729728 + 4 * unat i + 2"
    unfolding subnet_guest_ip_def Let_def v using octets_value [of ?g] g lt by linarith
qed

text \<open>C38: The addresses of subnet \<open>N\<close> are the second and third address of the \<open>N\<close>-th
  \<open>/30\<close> of \<open>172.16.0.0/16\<close>, for every index the pool can hand out: no octet is cut off, the
  tap and the guest share one \<open>/30\<close>, different indices have different \<open>/30\<close>s, and every
  address stays in the \<open>/16\<close>.\<close>

theorem subnet_addresses:
  assumes "i \<in> pool_range" and "j \<in> pool_range"
  shows "ipv4_value (subnet_tap_ip i) = ipv4_value (Ipv4 172 16 0 0) + 4 * unat i + 1
    \<and> ipv4_value (subnet_guest_ip i) = ipv4_value (Ipv4 172 16 0 0) + 4 * unat i + 2
    \<and> net30 (subnet_tap_ip i) = net30 (subnet_guest_ip i)
    \<and> (net30 (subnet_guest_ip i) = net30 (subnet_guest_ip j) \<longleftrightarrow> i = j)
    \<and> (subnet_guest_ip i < subnet_guest_ip j \<longleftrightarrow> i < j)
    \<and> Ipv4 172 16 0 0 < subnet_tap_ip i \<and> subnet_guest_ip i < Ipv4 172 16 255 255"
proof -
  have lt: "unat i < 16384" using assms(1) by (simp add: pool_range_def MAX_SUBNETS_def)
  have ij: "unat i = unat j \<longleftrightarrow> i = j" by (simp add: word_unat_eq_iff)
  have base: "ipv4_value (Ipv4 172 16 0 0) = 2886729728" by simp
  have d1: "(2886729728 + 4 * n + 1) div 4 = 721682432 + n"
    and d2: "(2886729728 + 4 * n + 2) div 4 = 721682432 + n" for n :: nat by simp_all
  show ?thesis
    unfolding net30_def less_ipv4_def base subnet_ip_value [OF assms(1)] subnet_ip_value [OF assms(2)] d1 d2
    using lt ij by (simp add: word_less_nat_alt)
qed

theorem subnet_addresses_witness:
  "subnet_guest_ip 999 = Ipv4 172 16 15 158 \<and> net30 (subnet_tap_ip 999) = net30 (subnet_guest_ip 999)
   \<and> net30 (subnet_guest_ip 999) \<noteq> net30 (subnet_guest_ip 16383)"
proof -
  have r: "(999 :: u16) \<in> pool_range" "(16383 :: u16) \<in> pool_range"
    by (simp_all add: pool_range_def MAX_SUBNETS_def)
  have "subnet_guest_ip 999 = Ipv4 172 16 15 158" by (simp add: subnet_guest_ip_def)
  with subnet_addresses [OF r] show ?thesis by simp
qed

text \<open>Tap names are unique per index and fit the 15 characters Linux allows.\<close>

theorem tap_name_unique_and_short:
  "(tap_name i = tap_name j \<longleftrightarrow> i = j) \<and> length (tap_name i) \<le> 15"
proof -
  have "length (show_nat (unat i)) \<le> 5"
    using unat_lt_u16 [of i] by (intro length_show_nat_le) auto
  then show ?thesis by (simp add: tap_name_def word_unat_eq_iff)
qed

section \<open>The boot argument\<close>

lemma show_nat_no_char: "\<not> is_ascii_digit c \<Longrightarrow> c \<notin> set (show_nat n)"
  using show_nat_digits by blast

lemma ipv4_no_colon: "CHR '':'' \<notin> set (ipv4_to_string ip)"
  by (cases ip) (simp add: show_nat_no_char is_ascii_digit_def digit_val_def)

lemma split_char_step:
  "d \<notin> set w \<Longrightarrow> split_char d cur (w @ d # s) = (rev cur @ w) # split_char d [] s"
  by (induction w arbitrary: cur) auto

lemma split_on_step: "d \<notin> set w \<Longrightarrow> split_on d (w @ d # s) = w # split_on d s"
  by (simp add: split_on_def split_char_step)

text \<open>The kernel's \<open>ip=\<close> argument has the seven colon-separated fields the kernel reads:
  client address, no server, gateway, netmask, no host name, device, no autoconfiguration;
  the client is the guest's address and the gateway the tap's.\<close>

theorem build_network_boot_args_fields:
  "split_on CHR '':'' (build_network_boot_args g t) =
     [''ip='' @ ipv4_to_string g, [], ipv4_to_string t, ''255.255.255.252'', [], ''eth0'', ''off'']"
proof -
  have eq: "build_network_boot_args g t =
      (''ip='' @ ipv4_to_string g) @ CHR '':'' # [] @ CHR '':'' # ipv4_to_string t @ CHR '':'' #
      ''255.255.255.252'' @ CHR '':'' # [] @ CHR '':'' # ''eth0'' @ CHR '':'' # ''off''"
    by (simp add: build_network_boot_args_def)
  have last: "split_on CHR '':'' ''off'' = [''off'']" by (simp add: split_on_def)
  show ?thesis
    unfolding eq by (subst split_on_step, simp add: ipv4_no_colon)+ (simp add: last)
qed

end
