(* ===== verification/Host.thy ===== *)
theory Host
  imports Rust_Str
begin

text \<open>
  Everything the program calls that is not under \<open>src/\<close>: child processes, the file
  system, environment variables, the Firecracker SDK, the gateway's HTTP client, UUID
  formatting. None of it is given a definition. Each kind of call is a field of the record
  \<open>env\<close>, a function from the history of all earlier calls to the reply, so the answer
  may depend on anything that happened before; every theorem holds for every such
  environment. One field is the build profile: whether integer overflow is checked. A call appends one \<open>event\<close>, with its arguments and its reply, to the
  history: the state of the \<open>io\<close> monad.
\<close>

section \<open>Calls and replies\<close>

text \<open>\<open>std::io::Error\<close>: the program only asks whether its kind is \<open>NotFound\<close>.\<close>

datatype io_error = IoError (is_not_found: bool) (io_message: string)

text \<open>\<open>std::process::Output\<close>, with \<open>status.success()\<close> for the status.\<close>

record proc_output =
  status_success :: bool
  stdout :: string
  stderr :: string

text \<open>The SDK's handle on a VMM and the requests the program sends through it. Request
  fields that the program always leaves at \<open>None\<close> are left out.\<close>

datatype instance_handle = Instance nat

datatype instance_state = StateNotStarted | StateRunning | StatePaused

record instance_info =
  info_id :: string
  info_state :: instance_state
  vmm_version :: string

record machine_configuration =
  mem_size_mib :: int
  vcpu_count :: int

record boot_source =
  boot_args :: "string option"
  initrd_path :: "string option"
  kernel_image_path :: string

record network_interface =
  iface_id :: string
  host_dev_name :: string

record drive =
  drive_id :: string
  is_root_device :: bool
  is_read_only :: bool
  path_on_host :: string

record vsock =
  guest_cid :: u32
  uds_path :: string
  vsock_id :: "string option"

record firecracker_option =
  fc_bin :: string
  fc_log_path :: "string option"
  fc_level :: string

record jailer_option =
  jo_jailer_bin :: string
  jo_exec_file :: string
  jo_id :: string
  jo_gid :: nat
  jo_uid :: nat
  jo_firecracker :: "firecracker_option option"
  jo_new_pid_ns :: "bool option"
  jo_cgroup_version :: "nat option"
  jo_cgroup :: "(string \<times> string) list"
  jo_stderr :: string
  jo_remove_workspace :: bool

datatype sdk_call =
    StartVmm
  | PutMachineConfiguration machine_configuration
  | PutGuestBootSource boot_source
  | PutGuestNetworkInterface network_interface
  | PutGuestDrive drive
  | PutGuestVsock vsock
  | StartInstance
  | StopInstance

datatype http_method = GET | POST | DELETE

record http_request =
  req_method :: http_method
  req_url :: string
  req_body :: "json option"

datatype event =
    EvExec string "string list" "io_error + proc_output"
  | EvRemoveFile string "io_error + unit"
  | EvRemoveDirAll string "io_error + unit"
  | EvCreateDirAll string "io_error + unit"
  | EvWriteFile string string "io_error + unit"
  | EvSetMode string nat "io_error + unit"
  | EvReadDir string "io_error + (io_error + string) list"
  | EvQuery string string
  | EvSleep nat
  | EvSpawnBlocking bool
  | EvBuild jailer_option "string + instance_handle"
  | EvSdk instance_handle sdk_call "string + unit"
  | EvDescribe instance_handle "string + instance_info"
  | EvDropInstance instance_handle
  | EvHttp http_request "string + nat"
  | EvUdsConnect string "io_error + nat"
  | EvUdsWrite nat string "io_error + unit"
  | EvUdsRead nat nat "io_error + string"
  | EvSshSend nat string bool
  | EvSshClose nat

type_synonym history = "event list"

record env =
  env_exec :: "history \<Rightarrow> string \<Rightarrow> string list \<Rightarrow> io_error + proc_output"
  env_remove_file :: "history \<Rightarrow> string \<Rightarrow> io_error + unit"
  env_remove_dir_all :: "history \<Rightarrow> string \<Rightarrow> io_error + unit"
  env_create_dir_all :: "history \<Rightarrow> string \<Rightarrow> io_error + unit"
  env_write :: "history \<Rightarrow> string \<Rightarrow> string \<Rightarrow> io_error + unit"
  env_set_mode :: "history \<Rightarrow> string \<Rightarrow> nat \<Rightarrow> io_error + unit"
  env_read_dir :: "history \<Rightarrow> string \<Rightarrow> io_error + (io_error + string) list"
  env_is_dir :: "history \<Rightarrow> string \<Rightarrow> bool"
  env_exists :: "history \<Rightarrow> string \<Rightarrow> bool"
  env_metadata_dev :: "history \<Rightarrow> string \<Rightarrow> io_error + u64"
  env_read_to_string :: "history \<Rightarrow> string \<Rightarrow> io_error + string"
  env_read_lines :: "history \<Rightarrow> string \<Rightarrow> io_error + (io_error + string) list"
  env_canonicalize :: "history \<Rightarrow> string \<Rightarrow> io_error + string"
  env_var :: "history \<Rightarrow> string \<Rightarrow> string option"
  env_which :: "history \<Rightarrow> string \<Rightarrow> string + string"
  env_hostname :: "history \<Rightarrow> io_error + string option"
  env_spawn_blocking :: "history \<Rightarrow> bool"
  env_build :: "history \<Rightarrow> jailer_option \<Rightarrow> string + instance_handle"
  env_sdk :: "history \<Rightarrow> instance_handle \<Rightarrow> sdk_call \<Rightarrow> string + unit"
  env_describe :: "history \<Rightarrow> instance_handle \<Rightarrow> string + instance_info"
  env_http_client :: "history \<Rightarrow> string + unit"
  env_http :: "history \<Rightarrow> http_request \<Rightarrow> string + nat"
  env_uds_connect :: "history \<Rightarrow> string \<Rightarrow> io_error + nat"
  env_uds_write :: "history \<Rightarrow> nat \<Rightarrow> string \<Rightarrow> io_error + unit"
  env_uds_read :: "history \<Rightarrow> nat \<Rightarrow> nat \<Rightarrow> io_error + string"
  env_ssh_send :: "history \<Rightarrow> nat \<Rightarrow> string \<Rightarrow> bool"
  env_utf8_valid :: "string \<Rightarrow> bool"
  env_uuid_to_string :: "uuid \<Rightarrow> string"
  env_uuid_parse :: "string \<Rightarrow> uuid option"
  env_overflow_checks :: bool

section \<open>The io monad\<close>

text \<open>An operation returns, or panics; a handler's panic is answered by the \<open>CatchPanicLayer\<close>.\<close>

datatype 'a outcome = Panicked | Finished 'a

type_synonym 'a io = "(history, 'a) state"

abbreviation ret :: "'a \<Rightarrow> ('s, 'a) state" where
  "ret \<equiv> State_Monad.return"

definition perform :: "(history \<Rightarrow> 'r) \<Rightarrow> ('r \<Rightarrow> event) \<Rightarrow> 'r io" where
  "perform reply ev = State (\<lambda>h. (reply h, h @ [ev (reply h)]))"

definition command_output :: "env \<Rightarrow> string \<Rightarrow> string list \<Rightarrow> (io_error + proc_output) io" where
  "command_output E program args = perform (\<lambda>h. env_exec E h program args) (EvExec program args)"

definition fs_remove_file :: "env \<Rightarrow> string \<Rightarrow> (io_error + unit) io" where
  "fs_remove_file E path = perform (\<lambda>h. env_remove_file E h path) (EvRemoveFile path)"

definition fs_remove_dir_all :: "env \<Rightarrow> string \<Rightarrow> (io_error + unit) io" where
  "fs_remove_dir_all E path = perform (\<lambda>h. env_remove_dir_all E h path) (EvRemoveDirAll path)"

definition fs_create_dir_all :: "env \<Rightarrow> string \<Rightarrow> (io_error + unit) io" where
  "fs_create_dir_all E path = perform (\<lambda>h. env_create_dir_all E h path) (EvCreateDirAll path)"

definition fs_write :: "env \<Rightarrow> string \<Rightarrow> string \<Rightarrow> (io_error + unit) io" where
  "fs_write E path content = perform (\<lambda>h. env_write E h path content) (EvWriteFile path content)"

definition fs_set_mode :: "env \<Rightarrow> string \<Rightarrow> nat \<Rightarrow> (io_error + unit) io" where
  "fs_set_mode E path mode = perform (\<lambda>h. env_set_mode E h path mode) (EvSetMode path mode)"

definition fs_read_dir :: "env \<Rightarrow> string \<Rightarrow> (io_error + (io_error + string) list) io" where
  "fs_read_dir E path = perform (\<lambda>h. env_read_dir E h path) (EvReadDir path)"

definition path_is_dir :: "env \<Rightarrow> string \<Rightarrow> bool io" where
  "path_is_dir E path = perform (\<lambda>h. env_is_dir E h path) (\<lambda>_. EvQuery ''is_dir'' path)"

definition path_exists :: "env \<Rightarrow> string \<Rightarrow> bool io" where
  "path_exists E path = perform (\<lambda>h. env_exists E h path) (\<lambda>_. EvQuery ''exists'' path)"

definition env_lookup :: "env \<Rightarrow> string \<Rightarrow> string option io" where
  "env_lookup E name = perform (\<lambda>h. env_var E h name) (\<lambda>_. EvQuery ''env'' name)"

definition thread_sleep :: "nat \<Rightarrow> unit io" where
  "thread_sleep secs = perform (\<lambda>_. ()) (\<lambda>_. EvSleep secs)"

definition sdk_request :: "env \<Rightarrow> instance_handle \<Rightarrow> sdk_call \<Rightarrow> (string + unit) io" where
  "sdk_request E i c = perform (\<lambda>h. env_sdk E h i c) (EvSdk i c)"

definition sdk_build :: "env \<Rightarrow> jailer_option \<Rightarrow> (string + instance_handle) io" where
  "sdk_build E jo = perform (\<lambda>h. env_build E h jo) (EvBuild jo)"

definition sdk_describe :: "env \<Rightarrow> instance_handle \<Rightarrow> (string + instance_info) io" where
  "sdk_describe E i = perform (\<lambda>h. env_describe E h i) (EvDescribe i)"

text \<open>Dropping an \<open>Instance\<close> runs the SDK's destructor, which has no result.\<close>

definition drop_instance :: "instance_handle \<Rightarrow> unit io" where
  "drop_instance i = perform (\<lambda>_. ()) (\<lambda>_. EvDropInstance i)"

definition http_send :: "env \<Rightarrow> http_request \<Rightarrow> (string + nat) io" where
  "http_send E r = perform (\<lambda>h. env_http E h r) (EvHttp r)"

text \<open>A Unix domain socket; \<open>read\<close> returns what one call delivers into a buffer of the given size.\<close>

definition uds_connect :: "env \<Rightarrow> string \<Rightarrow> (io_error + nat) io" where
  "uds_connect E path = perform (\<lambda>h. env_uds_connect E h path) (EvUdsConnect path)"

definition uds_write_all :: "env \<Rightarrow> nat \<Rightarrow> string \<Rightarrow> (io_error + unit) io" where
  "uds_write_all E c bytes = perform (\<lambda>h. env_uds_write E h c bytes) (EvUdsWrite c bytes)"

definition uds_read :: "env \<Rightarrow> nat \<Rightarrow> nat \<Rightarrow> (io_error + string) io" where
  "uds_read E c limit = perform (\<lambda>h. env_uds_read E h c limit) (EvUdsRead c limit)"

text \<open>Data for the SSH client on a channel, and closing the channel (its result is dropped).\<close>

definition ssh_send :: "env \<Rightarrow> nat \<Rightarrow> string \<Rightarrow> bool io" where
  "ssh_send E ch bytes = perform (\<lambda>h. env_ssh_send E h ch bytes) (EvSshSend ch bytes)"

definition ssh_close :: "nat \<Rightarrow> unit io" where
  "ssh_close ch = perform (\<lambda>_. ()) (\<lambda>_. EvSshClose ch)"

text \<open>
  \<open>spawn_blocking(f).await\<close>: the join fails (\<open>None\<close>) only when the runtime drops the
  queued task, because the closures the program spawns return their errors instead of
  panicking; the dropped task does nothing.
\<close>

definition spawn_blocking :: "env \<Rightarrow> 'a io \<Rightarrow> 'a option io" where
  "spawn_blocking E task = do {
     joined \<leftarrow> perform (env_spawn_blocking E) EvSpawnBlocking;
     if joined then do { r \<leftarrow> task; ret (Some r) } else ret None
   }"

lemma run_state_perform [simp]:
  "run_state (perform reply ev) h = (reply h, h @ [ev (reply h)])"
  by (simp add: perform_def)

lemmas call_defs =
  command_output_def fs_remove_file_def fs_remove_dir_all_def fs_create_dir_all_def
  fs_write_def fs_set_mode_def fs_read_dir_def path_is_dir_def path_exists_def env_lookup_def
  thread_sleep_def sdk_request_def sdk_build_def sdk_describe_def drop_instance_def
  http_send_def

section \<open>Footprints: which events an operation may append\<close>

named_theorems footprint \<open>introduction rules for footprints\<close>

definition appends :: "(event \<Rightarrow> bool) \<Rightarrow> 'a io \<Rightarrow> bool" where
  "appends P m \<longleftrightarrow> (\<forall>h. \<exists>es. snd (run_state m h) = h @ es \<and> (\<forall>e \<in> set es. P e))"

lemma appendsD: "appends P m \<Longrightarrow> run_state m h = (a, h') \<Longrightarrow> \<exists>es. h' = h @ es \<and> (\<forall>e \<in> set es. P e)"
  unfolding appends_def by (metis snd_conv)

lemma appends_return [footprint]: "appends P (ret a)"
  by (simp add: appends_def)

lemma appends_perform [footprint]: "(\<And>r. P (ev r)) \<Longrightarrow> appends P (perform reply ev)"
  by (simp add: appends_def)

lemma appends_bind [footprint]:
  fixes m :: "'a io" and f :: "'a \<Rightarrow> 'b io"
  assumes m: "appends P m" and f: "\<And>a. appends P (f a)"
  shows "appends P (State_Monad.bind m f)"
  unfolding appends_def
proof
  fix h
  obtain a h1 where m1: "run_state m h = (a, h1)" by fastforce
  obtain b h2 where f1: "run_state (f a) h1 = (b, h2)" by fastforce
  from appendsD [OF m m1] appendsD [OF f f1] obtain es fs where
    "h2 = h @ es @ fs" "\<forall>e \<in> set es. P e" "\<forall>e \<in> set fs. P e" by auto
  then have "h2 = h @ (es @ fs)" "\<forall>e \<in> set (es @ fs). P e" by auto
  with m1 f1 show "\<exists>es. snd (run_state (State_Monad.bind m f) h) = h @ es \<and> (\<forall>e \<in> set es. P e)"
    by (intro exI [of _ "es @ fs"]) simp
qed

lemma appends_if [footprint]:
  "appends P m \<Longrightarrow> appends P n \<Longrightarrow> appends P (if b then m else n)"
  by simp

lemma appends_sum [footprint]:
  "(\<And>x. appends P (f x)) \<Longrightarrow> (\<And>y. appends P (g y)) \<Longrightarrow>
   appends P (case r of Inl x \<Rightarrow> f x | Inr y \<Rightarrow> g y)"
  by (simp split: sum.split)

lemma appends_option [footprint]:
  "appends P m \<Longrightarrow> (\<And>y. appends P (g y)) \<Longrightarrow>
   appends P (case r of None \<Rightarrow> m | Some y \<Rightarrow> g y)"
  by (simp split: option.split)

lemma appends_let [footprint]: "(\<And>x. appends P (f x)) \<Longrightarrow> appends P (let x = v in f x)"
  by simp

lemma appends_prod [footprint]:
  "(\<And>x y. appends P (f x y)) \<Longrightarrow> appends P (case p of (x, y) \<Rightarrow> f x y)"
  by (simp split: prod.split)

text \<open>The calls themselves.\<close>

lemma appends_calls [footprint]:
  "(\<And>r. P (EvExec p as r)) \<Longrightarrow> appends P (command_output E p as)"
  "(\<And>r. P (EvRemoveFile q r)) \<Longrightarrow> appends P (fs_remove_file E q)"
  "(\<And>r. P (EvRemoveDirAll q r)) \<Longrightarrow> appends P (fs_remove_dir_all E q)"
  "(\<And>r. P (EvCreateDirAll q r)) \<Longrightarrow> appends P (fs_create_dir_all E q)"
  "(\<And>r. P (EvWriteFile q c r)) \<Longrightarrow> appends P (fs_write E q c)"
  "(\<And>r. P (EvSetMode q m r)) \<Longrightarrow> appends P (fs_set_mode E q m)"
  "(\<And>r. P (EvReadDir q r)) \<Longrightarrow> appends P (fs_read_dir E q)"
  "P (EvQuery ''is_dir'' q) \<Longrightarrow> appends P (path_is_dir E q)"
  "P (EvQuery ''exists'' q) \<Longrightarrow> appends P (path_exists E q)"
  "P (EvQuery ''env'' q) \<Longrightarrow> appends P (env_lookup E q)"
  "P (EvSleep secs) \<Longrightarrow> appends P (thread_sleep secs)"
  by (auto simp: call_defs intro: appends_perform)

lemma appends_mono: "appends P m \<Longrightarrow> (\<And>e. P e \<Longrightarrow> Q e) \<Longrightarrow> appends Q m"
  unfolding appends_def by metis

lemma appends_spawn_blocking [footprint]:
  "appends P m \<Longrightarrow> (\<And>b. P (EvSpawnBlocking b)) \<Longrightarrow> appends P (spawn_blocking E m)"
  unfolding spawn_blocking_def by (intro footprint)

text \<open>
  A ledger reads the history from left to right and keeps some view of the host. An
  operation whose footprint the ledger ignores does not change it.
\<close>

definition ledger :: "('s \<Rightarrow> event \<Rightarrow> 's) \<Rightarrow> 's \<Rightarrow> history \<Rightarrow> 's" where
  "ledger step s h = foldl step s h"

lemma ledger_Nil [simp]: "ledger step s [] = s"
  by (simp add: ledger_def)

lemma ledger_append [simp]: "ledger step s (h @ h') = ledger step (ledger step s h) h'"
  by (simp add: ledger_def)

lemma ledger_Cons [simp]: "ledger step s (e # h) = ledger step (step s e) h"
  by (simp add: ledger_def)

lemma ledger_ignored: "(\<And>s e. P e \<Longrightarrow> step s e = s) \<Longrightarrow> (\<forall>e \<in> set es. P e) \<Longrightarrow> ledger step s es = s"
  by (induction es) auto

text \<open>
  The contract every operation on the host keeps: it only appends to the history, and only
  events of its footprint. The client's view follows for all of them at once.
\<close>

locale host_op =
  fixes run :: "env \<Rightarrow> 'x \<Rightarrow> 'a io"
    and foot :: "event \<Rightarrow> bool"
  assumes footprint: "appends foot (run E x)"
begin

lemma extends: "\<exists>es. snd (run_state (run E x) h) = h @ es \<and> (\<forall>e \<in> set es. foot e)"
  using footprint unfolding appends_def by blast

lemma history_grows: "length h \<le> length (snd (run_state (run E x) h))"
  using extends [of E x h] by auto

lemma history_kept: "take (length h) (snd (run_state (run E x) h)) = h"
  using extends [of E x h] by auto

lemma ledger_frame:
  assumes "\<And>s e. foot e \<Longrightarrow> step s e = s"
  shows "ledger step s (snd (run_state (run E x) h)) = ledger step s h"
  using extends [of E x h] ledger_ignored [where P = foot, OF assms] by fastforce

lemma filter_frame:
  assumes "\<And>e. foot e \<Longrightarrow> \<not> Q e"
  shows "filter Q (snd (run_state (run E x) h)) = filter Q h"
proof -
  obtain es where "snd (run_state (run E x) h) = h @ es" "\<forall>e \<in> set es. foot e"
    using extends by blast
  moreover from this(2) have "filter Q es = []"
    using assms by (auto simp: filter_empty_conv)
  ultimately show ?thesis by simp
qed

end

section \<open>Running a command\<close>

text \<open>\<open>run_cmd\<close> and \<open>run_cmd_output\<close> of \<open>firecracker/network.rs\<close>.\<close>

definition quoted :: "string \<Rightarrow> string" where
  "quoted s = CHR 0x27 # s @ [CHR 0x27]"

definition run_cmd :: "env \<Rightarrow> string \<Rightarrow> string list \<Rightarrow> (anyhow + unit) io" where
  "run_cmd E program args = do {
     r \<leftarrow> command_output E program args;
     case r of
       Inl e \<Rightarrow> ret (Inl (context_msg (''Failed to execute '' @ quoted program) [io_message e]))
     | Inr out \<Rightarrow>
         if \<not> status_success out
         then ret (Inl [program @ '' '' @ join_with '' '' args @ '' failed: '' @ trim (stderr out)])
         else ret (Inr ())
   }"

definition run_cmd_output :: "env \<Rightarrow> string \<Rightarrow> string list \<Rightarrow> (anyhow + string) io" where
  "run_cmd_output E program args = do {
     r \<leftarrow> command_output E program args;
     case r of
       Inl e \<Rightarrow> ret (Inl (context_msg (''Failed to execute '' @ quoted program) [io_message e]))
     | Inr out \<Rightarrow>
         if \<not> status_success out
         then ret (Inl [program @ '' '' @ join_with '' '' args @ '' failed: '' @ trim (stderr out)])
         else ret (Inr (stdout out))
   }"

text \<open>A reply that counts as success: the process ran and exited with status zero.\<close>

definition succeeded :: "io_error + proc_output \<Rightarrow> bool" where
  "succeeded r = (case r of Inl _ \<Rightarrow> False | Inr out \<Rightarrow> status_success out)"

lemma succeeded_simps [simp]:
  "\<not> succeeded (Inl e)" "succeeded (Inr out) = status_success out"
  by (simp_all add: succeeded_def)

lemma run_cmd_result:
  "run_state (run_cmd E p as) h =
     (fst (run_state (run_cmd E p as) h), h @ [EvExec p as (env_exec E h p as)])"
  by (simp add: run_cmd_def command_output_def split: sum.split)

lemma run_cmd_ok_iff:
  "(\<exists>u. fst (run_state (run_cmd E p as) h) = Inr u) \<longleftrightarrow> succeeded (env_exec E h p as)"
  by (simp add: run_cmd_def command_output_def split: sum.split)

lemma run_cmd_output_result:
  "run_state (run_cmd_output E p as) h =
     (fst (run_state (run_cmd_output E p as) h), h @ [EvExec p as (env_exec E h p as)])"
  by (simp add: run_cmd_output_def command_output_def split: sum.split)

lemma appends_run_cmd [footprint]:
  "(\<And>r. P (EvExec p as r)) \<Longrightarrow> appends P (run_cmd E p as)"
  unfolding run_cmd_def command_output_def by (intro footprint)

lemma appends_run_cmd_output [footprint]:
  "(\<And>r. P (EvExec p as r)) \<Longrightarrow> appends P (run_cmd_output E p as)"
  unfolding run_cmd_output_def command_output_def by (intro footprint)

interpretation run_cmd_op: host_op "\<lambda>E (p, as). run_cmd E p as" "\<lambda>e. \<exists>p as r. e = EvExec p as r"
  by unfold_locales (auto split: prod.split intro!: footprint)

section \<open>A concrete environment\<close>

text \<open>
  An instance of the parameters, for the concrete runs the library evaluates: every command
  succeeds (\<open>nft\<close> echoes a handle, everything else is silent), every file operation
  succeeds on an empty disk, the SDK and the gateway accept every request. UUIDs print as
  decimal numbers.
\<close>

definition calm_exec :: "string \<Rightarrow> io_error + proc_output" where
  "calm_exec program =
     Inr \<lparr>status_success = True,
          stdout = (if program = ''nft'' then ''# handle 7'' else []), stderr = []\<rparr>"

definition calm_env :: env where
  "calm_env = \<lparr>
     env_exec = (\<lambda>h p as. calm_exec p),
     env_remove_file = (\<lambda>h p. Inr ()),
     env_remove_dir_all = (\<lambda>h p. Inr ()),
     env_create_dir_all = (\<lambda>h p. Inr ()),
     env_write = (\<lambda>h p c. Inr ()),
     env_set_mode = (\<lambda>h p m. Inr ()),
     env_read_dir = (\<lambda>h p. Inr []),
     env_is_dir = (\<lambda>h p. False),
     env_exists = (\<lambda>h p. False),
     env_metadata_dev = (\<lambda>h p. Inr 0),
     env_read_to_string = (\<lambda>h p. Inr []),
     env_read_lines = (\<lambda>h p. Inr []),
     env_canonicalize = (\<lambda>h p. Inr p),
     env_var = (\<lambda>h n. None),
     env_which = (\<lambda>h n. Inr (''/usr/bin/'' @ n)),
     env_hostname = (\<lambda>h. Inr (Some ''host'')),
     env_spawn_blocking = (\<lambda>h. True),
     env_build = (\<lambda>h jo. Inr (Instance (length h))),
     env_sdk = (\<lambda>h i c. Inr ()),
     env_describe = (\<lambda>h i. Inr \<lparr>info_id = [], info_state = StateRunning, vmm_version = ''1.14.1''\<rparr>),
     env_http_client = (\<lambda>h. Inr ()),
     env_http = (\<lambda>h r. Inr 200),
     env_uds_connect = (\<lambda>h p. Inr (length h)),
     env_uds_write = (\<lambda>h c s. Inr ()),
     env_uds_read = (\<lambda>h c n. Inr ''OK 1024''),
     env_ssh_send = (\<lambda>h c s. True),
     env_utf8_valid = (\<lambda>s. True),
     env_uuid_to_string = (\<lambda>u. show_nat (unat u)),
     env_uuid_parse = (\<lambda>s. map_option of_nat (parse_digits 0 s)),
     env_overflow_checks = False\<rparr>"

lemma calm_env_simps [simp]:
  "env_exec calm_env h p as = calm_exec p" "env_remove_file calm_env h q = Inr ()"
  "env_spawn_blocking calm_env h = True" "env_sdk calm_env h i c = Inr ()"
  "env_build calm_env h jo = Inr (Instance (length h))" "env_http calm_env h rq = Inr 200"
  "env_describe calm_env h i = Inr \<lparr>info_id = [], info_state = StateRunning, vmm_version = ''1.14.1''\<rparr>"
  "env_uuid_to_string calm_env u = show_nat (unat u)"
  "env_uuid_parse calm_env s = map_option of_nat (parse_digits 0 s)"
  "env_read_dir calm_env h q = Inr []" "env_var calm_env h n = None"
  "env_overflow_checks calm_env = False"
  "env_uds_connect calm_env h q = Inr (length h)" "env_uds_write calm_env h k q = Inr ()"
  "env_uds_read calm_env h k lim = Inr ''OK 1024''" "env_utf8_valid calm_env q"
  "env_exists calm_env h q = False" "env_is_dir calm_env h q = False"
  by (simp_all add: calm_env_def)

lemma succeeded_calm_exec [simp]: "succeeded (calm_exec p)"
  by (simp add: calm_exec_def)

lemma run_cmd_calm [simp]:
  "run_state (run_cmd calm_env p as) h = (Inr (), h @ [EvExec p as (calm_exec p)])"
  by (simp add: run_cmd_def command_output_def calm_exec_def)

lemma run_cmd_output_calm [simp]:
  "run_state (run_cmd_output calm_env p as) h =
     (Inr (if p = ''nft'' then ''# handle 7'' else []), h @ [EvExec p as (calm_exec p)])"
  by (simp add: run_cmd_output_def command_output_def calm_exec_def)

end
