(* ===== verification/Fc_Network.thy ===== *)
theory Fc_Network
  imports Host Subnet_Pool
begin

text \<open>
  \<open>src/firecracker/network.rs\<close> (the Linux versions): tap devices through \<open>ip\<close>, NAT and
  forwarding rules through \<open>nft\<close>, the parser of the rule handles \<open>nft\<close> echoes, and the
  detection of the host's outward interface. Two ledgers read the history of commands: the
  tap devices that exist and the balance of rules added and deleted.
\<close>

section \<open>Operations\<close>

record nat_handles =
  postrouting :: u64
  filter_handle :: u64

definition ip_tuntap_add :: "string \<Rightarrow> string list" where
  "ip_tuntap_add name = [''tuntap'', ''add'', name, ''mode'', ''tap'']"

definition ip_link_del :: "string \<Rightarrow> string list" where
  "ip_link_del name = [''link'', ''del'', name]"

definition ip_addr_add :: "string \<Rightarrow> ipv4 \<Rightarrow> string list" where
  "ip_addr_add name ip = [''addr'', ''add'', ipv4_to_string ip @ ''/30'', ''dev'', name]"

definition ip_link_up :: "string \<Rightarrow> string list" where
  "ip_link_up name = [''link'', ''set'', name, ''up'']"

definition create_tap :: "env \<Rightarrow> string \<Rightarrow> ipv4 \<Rightarrow> (anyhow + unit) io" where
  "create_tap E name ip = do {
     r \<leftarrow> run_cmd E ''ip'' (ip_tuntap_add name);
     case r of
       Inl e \<Rightarrow> ret (Inl (context_msg (''Failed to create tap device '' @ quoted name) e))
     | Inr _ \<Rightarrow> do {
         r \<leftarrow> run_cmd E ''ip'' (ip_addr_add name ip);
         case r of
           Inl e \<Rightarrow> do {
             _ \<leftarrow> run_cmd E ''ip'' (ip_link_del name);
             ret (Inl (context_msg (''Failed to assign IP to tap '' @ quoted name) e))
           }
         | Inr _ \<Rightarrow> do {
             r \<leftarrow> run_cmd E ''ip'' (ip_link_up name);
             case r of
               Inl e \<Rightarrow> do {
                 _ \<leftarrow> run_cmd E ''ip'' (ip_link_del name);
                 ret (Inl (context_msg (''Failed to bring up tap '' @ quoted name) e))
               }
             | Inr _ \<Rightarrow> ret (Inr ())
           }
       }
   }"

definition delete_tap :: "env \<Rightarrow> string \<Rightarrow> unit io" where
  "delete_tap E name = do {
     _ \<leftarrow> run_cmd E ''ip'' (ip_link_del name);
     ret ()
   }"

text \<open>The loop over the echoed lines: the last handle wins, an unreadable one is an error.\<close>

fun parse_handle_lines :: "u64 option \<Rightarrow> string list \<Rightarrow> anyhow + u64 option" where
  "parse_handle_lines last_handle [] = Inr last_handle"
| "parse_handle_lines last_handle (line # rest) =
     (case find_sub ''# handle '' line of
        None \<Rightarrow> parse_handle_lines last_handle rest
      | Some pos \<Rightarrow>
          (let handle_str = trim (drop (pos + 9) line)
           in case parse_u64 handle_str of
                None \<Rightarrow> Inl [''Failed to parse nft handle from: '' @ handle_str]
              | Some n \<Rightarrow> parse_handle_lines (Some n) rest))"

definition parse_nft_handle :: "string \<Rightarrow> anyhow + u64" where
  "parse_nft_handle out =
     (case parse_handle_lines None (str_lines out) of
        Inl e \<Rightarrow> Inl e
      | Inr None \<Rightarrow> Inl [''No handle found in nft output: '' @ trim out]
      | Inr (Some n) \<Rightarrow> Inr n)"

definition nft_post_rule :: "ipv4 \<Rightarrow> string \<Rightarrow> string" where
  "nft_post_rule ip iface =
     ''add rule firecracker postrouting ip saddr '' @ ipv4_to_string ip @ '' oifname '' @ iface @
     '' counter masquerade''"

definition nft_filter_rule :: "string \<Rightarrow> string \<Rightarrow> string" where
  "nft_filter_rule tap iface =
     ''add rule firecracker filter iifname '' @ tap @ '' oifname '' @ iface @ '' accept''"

definition nft_delete :: "string \<Rightarrow> u64 \<Rightarrow> string list" where
  "nft_delete chain handle =
     [''delete'', ''rule'', ''firecracker'', chain, ''handle'', show_nat (unat handle)]"

definition add_nat_rules :: "env \<Rightarrow> ipv4 \<Rightarrow> string \<Rightarrow> string \<Rightarrow> (anyhow + nat_handles) io" where
  "add_nat_rules E ip tap iface = do {
     r \<leftarrow> run_cmd_output E ''nft'' [''-ae'', nft_post_rule ip iface];
     case r of
       Inl e \<Rightarrow> ret (Inl (context_msg ''Failed to add postrouting NAT rule'' e))
     | Inr post_output \<Rightarrow>
         (case parse_nft_handle post_output of
            Inl e \<Rightarrow> ret (Inl (context_msg ''Failed to parse postrouting rule handle'' e))
          | Inr post \<Rightarrow> do {
              r \<leftarrow> run_cmd_output E ''nft'' [''-ae'', nft_filter_rule tap iface];
              case r of
                Inl e \<Rightarrow> do {
                  _ \<leftarrow> run_cmd E ''nft'' (nft_delete ''postrouting'' post);
                  ret (Inl (context_msg ''Failed to add filter forwarding rule'' e))
                }
              | Inr filter_output \<Rightarrow>
                  (case parse_nft_handle filter_output of
                     Inl e \<Rightarrow> ret (Inl (context_msg ''Failed to parse filter rule handle'' e))
                   | Inr fh \<Rightarrow> ret (Inr \<lparr>postrouting = post, filter_handle = fh\<rparr>))
            })
   }"

definition remove_nat_rules :: "env \<Rightarrow> nat_handles \<Rightarrow> unit io" where
  "remove_nat_rules E handles = do {
     _ \<leftarrow> run_cmd E ''nft'' (nft_delete ''postrouting'' (postrouting handles));
     _ \<leftarrow> run_cmd E ''nft'' (nft_delete ''filter'' (filter_handle handles));
     ret ()
   }"

text \<open>\<open>skip_while(|w| w != "dev").nth(1)\<close>.\<close>

definition word_after_dev :: "string list \<Rightarrow> string option" where
  "word_after_dev ws =
     (case dropWhile (\<lambda>w. w \<noteq> ''dev'') ws of
        [] \<Rightarrow> None
      | _ # rest \<Rightarrow> (case rest of [] \<Rightarrow> None | w # _ \<Rightarrow> Some w))"

definition detect_host_interface :: "env \<Rightarrow> (anyhow + string) io" where
  "detect_host_interface E = do {
     r \<leftarrow> run_cmd_output E ''ip'' [''route'', ''show'', ''default''];
     case r of
       Inl e \<Rightarrow> ret (Inl (context_msg ''Failed to query default route'' e))
     | Inr out \<Rightarrow>
         (case word_after_dev (split_whitespace out) of
            Some name \<Rightarrow> ret (Inr name)
          | None \<Rightarrow> ret (Inl [''Could not determine host network interface from default route'']))
   }"

section \<open>Footprints\<close>

definition is_exec :: "string \<Rightarrow> event \<Rightarrow> bool" where
  "is_exec program e = (case e of EvExec p _ _ \<Rightarrow> p = program | _ \<Rightarrow> False)"

lemma is_exec_EvExec [simp]: "is_exec program (EvExec p as r) \<longleftrightarrow> p = program"
  by (simp add: is_exec_def)

lemma appends_create_tap [footprint]: "appends (is_exec ''ip'') (create_tap E name ip)"
  unfolding create_tap_def by (intro footprint) simp_all

lemma appends_delete_tap [footprint]: "appends (is_exec ''ip'') (delete_tap E name)"
  unfolding delete_tap_def by (intro footprint) simp_all

lemma appends_add_nat_rules [footprint]: "appends (is_exec ''nft'') (add_nat_rules E ip tap iface)"
  unfolding add_nat_rules_def by (intro footprint) simp_all

lemma appends_remove_nat_rules [footprint]: "appends (is_exec ''nft'') (remove_nat_rules E hs)"
  unfolding remove_nat_rules_def by (intro footprint) simp_all

interpretation create_tap_op: host_op "\<lambda>E (name, ip). create_tap E name ip" "is_exec ''ip''"
  by unfold_locales (auto split: prod.split intro: footprint)

interpretation delete_tap_op: host_op delete_tap "is_exec ''ip''"
  by unfold_locales (rule footprint)

interpretation add_nat_op: host_op "\<lambda>E (ip, tap, iface). add_nat_rules E ip tap iface" "is_exec ''nft''"
  by unfold_locales (auto split: prod.split intro: footprint)

interpretation remove_nat_op: host_op remove_nat_rules "is_exec ''nft''"
  by unfold_locales (rule footprint)

section \<open>The ledgers\<close>

text \<open>The tap devices that successful \<open>ip\<close> commands have created and not deleted.\<close>

definition tap_step :: "string set \<Rightarrow> event \<Rightarrow> string set" where
  "tap_step taps e =
     (case e of
        EvExec p as r \<Rightarrow>
          if p = ''ip'' \<and> succeeded r then
            (if length as = 5 \<and> as = ip_tuntap_add (as ! 2) then insert (as ! 2) taps
             else if length as = 3 \<and> as = ip_link_del (as ! 2) then taps - {as ! 2}
             else taps)
          else taps
      | _ \<Rightarrow> taps)"

definition live_taps :: "history \<Rightarrow> string set" where
  "live_taps h = ledger tap_step {} h"

text \<open>Rules added minus rules deleted since the table was last flushed, over the commands that
  succeeded.\<close>

definition rule_step :: "int \<Rightarrow> event \<Rightarrow> int" where
  "rule_step n e =
     (case e of
        EvExec p as r \<Rightarrow>
          if p = ''nft'' \<and> succeeded r then
            (if length as = 2 \<and> as ! 0 = ''-ae'' then n + 1
             else if length as = 6 \<and> as ! 0 = ''delete'' then n - 1
             else if as = [''flush'', ''table'', ''firecracker''] then 0
             else n)
          else n
      | _ \<Rightarrow> n)"

definition live_rules :: "history \<Rightarrow> int" where
  "live_rules h = ledger rule_step 0 h"

lemmas ledger_defs = live_taps_def live_rules_def

lemma live_taps_Nil [simp]: "live_taps [] = {}"
  by (simp add: live_taps_def)

lemma live_taps_snoc [simp]:
  "live_taps (h @ [EvExec ''ip'' (ip_tuntap_add n) r]) =
     (if succeeded r then insert n (live_taps h) else live_taps h)"
  "live_taps (h @ [EvExec ''ip'' (ip_link_del n) r]) =
     (if succeeded r then live_taps h - {n} else live_taps h)"
  "live_taps (h @ [EvExec ''ip'' (ip_addr_add n ip) r]) = live_taps h"
  "live_taps (h @ [EvExec ''ip'' (ip_link_up n) r]) = live_taps h"
  by (simp_all add: live_taps_def tap_step_def ip_tuntap_add_def ip_link_del_def ip_addr_add_def
      ip_link_up_def)

lemma live_rules_snoc [simp]:
  "live_rules (h @ [EvExec ''nft'' [''-ae'', rule] r]) =
     (if succeeded r then live_rules h + 1 else live_rules h)"
  "live_rules (h @ [EvExec ''nft'' (nft_delete chain k) r]) =
     (if succeeded r then live_rules h - 1 else live_rules h)"
  "live_rules (h @ [EvExec ''nft'' [''flush'', ''table'', ''firecracker''] r]) =
     (if succeeded r then 0 else live_rules h)"
  by (simp_all add: live_rules_def rule_step_def nft_delete_def)

lemma tap_step_ignores_nft: "is_exec ''nft'' e \<Longrightarrow> tap_step s e = s"
  by (auto simp: tap_step_def is_exec_def split: event.splits)

lemma rule_step_ignores_ip: "is_exec ''ip'' e \<Longrightarrow> rule_step s e = s"
  by (auto simp: rule_step_def is_exec_def split: event.splits)

lemma add_nat_rules_keeps_taps:
  "live_taps (snd (run_state (add_nat_rules E ip tap iface) h)) = live_taps h"
  using add_nat_op.ledger_frame [where step = tap_step and E = E and x = "(ip, tap, iface)", OF tap_step_ignores_nft]
  by (simp add: live_taps_def)

lemma remove_nat_rules_keeps_taps:
  "live_taps (snd (run_state (remove_nat_rules E hs) h)) = live_taps h"
  using remove_nat_op.ledger_frame [where step = tap_step, OF tap_step_ignores_nft]
  by (simp add: live_taps_def)

lemma delete_tap_keeps_rules:
  "live_rules (snd (run_state (delete_tap E n) h)) = live_rules h"
  using delete_tap_op.ledger_frame [where step = rule_step, OF rule_step_ignores_ip]
  by (simp add: live_rules_def)

lemma create_tap_keeps_rules:
  "live_rules (snd (run_state (create_tap E n ip) h)) = live_rules h"
  using create_tap_op.ledger_frame [where step = rule_step and E = E and x = "(n, ip)", OF rule_step_ignores_ip]
  by (simp add: live_rules_def)

section \<open>Tap devices\<close>

text \<open>What each command does to the ledgers, by its outcome.\<close>

definition failed_link_del :: "string \<Rightarrow> event \<Rightarrow> bool" where
  "failed_link_del n e = (case e of EvExec p as r \<Rightarrow>
     p = ''ip'' \<and> as = ip_link_del n \<and> \<not> succeeded r | _ \<Rightarrow> False)"

lemma run_cmd_event:
  "run_state (run_cmd E p as) h = (r, h') \<Longrightarrow>
   \<exists>rep. h' = h @ [EvExec p as rep] \<and> (succeeded rep \<longleftrightarrow> r = Inr ())"
  using run_cmd_result [of E p as h] run_cmd_ok_iff [of E p as h] by auto

lemma run_cmd_output_event:
  "run_state (run_cmd_output E p as) h = (r, h') \<Longrightarrow>
   \<exists>rep. h' = h @ [EvExec p as rep] \<and> rep = env_exec E h p as \<and>
     (case r of Inl _ \<Rightarrow> \<not> succeeded rep
      | Inr out \<Rightarrow> \<exists>pr. rep = Inr pr \<and> status_success pr \<and> stdout pr = out)"
  by (auto simp: run_cmd_output_def command_output_def split: sum.splits if_splits)

lemma run_tuntap_add:
  "run_state (run_cmd E ''ip'' (ip_tuntap_add n)) h = (Inr u, h') \<Longrightarrow> live_taps h' = insert n (live_taps h)"
  "run_state (run_cmd E ''ip'' (ip_tuntap_add n)) h = (Inl e, h') \<Longrightarrow> live_taps h' = live_taps h"
  by (auto dest!: run_cmd_event)

lemma run_addr_up:
  "run_state (run_cmd E ''ip'' (ip_addr_add n ip)) h = (r, h') \<Longrightarrow> live_taps h' = live_taps h"
  "run_state (run_cmd E ''ip'' (ip_link_up n)) h = (r, h') \<Longrightarrow> live_taps h' = live_taps h"
  by (auto dest!: run_cmd_event)

lemma run_link_del:
  "run_state (run_cmd E ''ip'' (ip_link_del n)) h = (r, h') \<Longrightarrow>
   live_taps h' = live_taps h - {n} \<or> live_taps h' = live_taps h \<and> failed_link_del n (last h')"
  by (auto dest!: run_cmd_event simp: failed_link_del_def)

lemma run_nft_add:
  "run_state (run_cmd_output E ''nft'' [''-ae'', rule]) h = (r, h') \<Longrightarrow>
   live_rules h' = (case r of Inl _ \<Rightarrow> live_rules h | Inr _ \<Rightarrow> live_rules h + 1)"
  by (auto dest!: run_cmd_output_event split: sum.splits)

lemma run_nft_delete:
  "run_state (run_cmd E ''nft'' (nft_delete chain k)) h = (r, h') \<Longrightarrow>
   live_rules h' = (case r of Inl _ \<Rightarrow> live_rules h | Inr _ \<Rightarrow> live_rules h - 1)"
  by (auto dest!: run_cmd_event split: sum.splits)

lemma live_taps_delete_tap:
  "run_state (delete_tap E n) h = (u, h') \<Longrightarrow>
   live_taps h' = live_taps h - {n} \<or> live_taps h' = live_taps h \<and> failed_link_del n (last h')"
  by (auto simp: delete_tap_def split: prod.splits dest: run_link_del)

lemma create_tap_effect:
  "(case run_state (create_tap E n ip) h of
      (Inr _, h') \<Rightarrow> live_taps h' = insert n (live_taps h) \<and> live_rules h' = live_rules h
    | (Inl _, h') \<Rightarrow> live_rules h' = live_rules h
        \<and> (live_taps h' = live_taps h \<or> live_taps h' = live_taps h - {n}
           \<or> live_taps h' = insert n (live_taps h) \<and> failed_link_del n (last h')))"
proof -
  have rules: "live_rules (snd (run_state (create_tap E n ip) h)) = live_rules h"
    by (rule create_tap_keeps_rules)
  obtain r1 h1 where c1: "run_state (run_cmd E ''ip'' (ip_tuntap_add n)) h = (r1, h1)" by fastforce
  obtain r2 h2 where c2: "run_state (run_cmd E ''ip'' (ip_addr_add n ip)) h1 = (r2, h2)" by fastforce
  obtain r3 h3 where c3: "run_state (run_cmd E ''ip'' (ip_link_up n)) h2 = (r3, h3)" by fastforce
  obtain d2 g2 where b2: "run_state (run_cmd E ''ip'' (ip_link_del n)) h2 = (d2, g2)" by fastforce
  obtain d3 g3 where b3: "run_state (run_cmd E ''ip'' (ip_link_del n)) h3 = (d3, g3)" by fastforce
  note c = c1 c2 c3 b2 b3 create_tap_def
  show ?thesis
  proof (cases r1)
    case Inl
    with c1 run_tuntap_add(2) [of E n h] rules show ?thesis by (simp add: c)
  next
    case r1: (Inr u)
    with c1 have l: "live_taps h1 = insert n (live_taps h)" "live_taps h2 = insert n (live_taps h)"
      "live_taps h3 = insert n (live_taps h)"
      using run_tuntap_add(1) run_addr_up(1) [OF c2] run_addr_up(2) [OF c3] by auto
    show ?thesis
    proof (cases r2)
      case Inl
      with r1 rules l run_link_del [OF b2] show ?thesis by (auto simp: c)
    next
      case r2: (Inr u)
      show ?thesis
        using r1 r2 rules l run_link_del [OF b3] by (cases r3) (auto simp: c)
    qed
  qed
qed

text \<open>C26: \<open>create_tap\<close> either succeeds, and the named device then exists, or fails and leaves no
  device it created behind, unless its own \<open>ip link del\<close> was refused. No other device and
  no nftables rule is touched either way.\<close>

theorem create_tap_outcome:
  "(case run_state (create_tap E n ip) h of
      (Inr _, h') \<Rightarrow> live_taps h' = insert n (live_taps h) \<and> live_rules h' = live_rules h
    | (Inl _, h') \<Rightarrow> live_rules h' = live_rules h
        \<and> (live_taps h' = live_taps h \<or> live_taps h' = live_taps h - {n}
           \<or> live_taps h' = insert n (live_taps h) \<and> failed_link_del n (last h')))"
  by (rule create_tap_effect)

section \<open>Reading the handle back\<close>

lemma show_nat_trim: "trim (show_nat n) = show_nat n"
  by (rule trim_no_ws) (use show_nat_no_ws in blast)

lemma find_sub_handle:
  assumes "CHR ''#'' \<notin> set rule"
  shows "find_sub ''# handle '' (rule @ ''# handle '' @ s) = Some (length rule)"
proof (rule find_sub_append, intro allI impI)
  fix j assume j: "j < length rule"
  then have "rule ! j \<noteq> CHR ''#''" using assms nth_mem by metis
  moreover have "drop j rule = rule ! j # drop (Suc j) rule" using j by (rule Cons_nth_drop_Suc [symmetric])
  ultimately show "\<not> starts_with (drop j rule @ ''# handle '' @ s) ''# handle ''" by simp
qed

lemma parse_handle_lines_append:
  "parse_handle_lines acc (xs @ ys) =
     (case parse_handle_lines acc xs of Inl e \<Rightarrow> Inl e | Inr r \<Rightarrow> parse_handle_lines r ys)"
  by (induction xs arbitrary: acc) (auto simp: Let_def split: option.splits)

lemma strip_cr_digit: "strip_cr (s @ show_nat n) = s @ show_nat n"
proof -
  have "last (show_nat n) \<in> set (show_nat n)" by simp
  then have "is_ascii_digit (last (show_nat n))" by (rule show_nat_digits)
  then have "last (show_nat n) \<noteq> carriage_return"
    by (auto simp: is_ascii_digit_def digit_val_def carriage_return_def of_char_of)
  then show ?thesis by (simp add: strip_cr_def)
qed

lemma handle_line_no_newline:
  "newline \<notin> set rule \<Longrightarrow> newline \<notin> set (rule @ ''# handle '' @ show_nat n)"
  using show_nat_no_char [of newline n] by (auto simp: newline_def is_ascii_digit_def digit_val_def)

lemma parse_handle_line:
  fixes n :: u64
  assumes "CHR ''#'' \<notin> set rule" "parse_handle_lines None xs = Inr last_handle"
  shows "parse_handle_lines None (xs @ [rule @ ''# handle '' @ show_nat (unat n)]) = Inr (Some n)"
  using find_sub_handle [OF assms(1), of "show_nat (unat n)"] assms(2) unat_lt_u64 [of n]
  by (simp add: parse_handle_lines_append show_nat_trim parse_u64_show_nat)

section \<open>NAT rules\<close>

text \<open>
  What the code relies on: a successful \<open>nft -ae add rule\<close> echoes the rule with its handle,
  and deleting a rule by its handle succeeds.
\<close>

definition nft_echoes_handles :: "env \<Rightarrow> bool" where
  "nft_echoes_handles E \<longleftrightarrow>
     (\<forall>h rule out. env_exec E h ''nft'' [''-ae'', rule] = Inr out \<and> status_success out \<longrightarrow>
        (\<exists>k. parse_nft_handle (stdout out) = Inr k))"

definition nft_deletes_rules :: "env \<Rightarrow> bool" where
  "nft_deletes_rules E \<longleftrightarrow> (\<forall>h chain k. succeeded (env_exec E h ''nft'' (nft_delete chain k)))"

lemma nft_add_effect:
  "nft_echoes_handles E \<Longrightarrow> run_state (run_cmd_output E ''nft'' [''-ae'', rule]) h = (r, h') \<Longrightarrow>
   (case r of Inl _ \<Rightarrow> live_rules h' = live_rules h
    | Inr out \<Rightarrow> live_rules h' = live_rules h + 1 \<and> (\<exists>k. parse_nft_handle out = Inr k))"
  using run_nft_add [of E rule h r h']
  by (auto dest!: run_cmd_output_event simp: nft_echoes_handles_def split: sum.splits)

lemma nft_delete_effect:
  "nft_deletes_rules E \<Longrightarrow> run_state (run_cmd E ''nft'' (nft_delete chain k)) h = (r, h') \<Longrightarrow>
   r = Inr () \<and> live_rules h' = live_rules h - 1"
  using run_cmd_ok_iff [of E "''nft''" "nft_delete chain k" h] run_nft_delete [of E chain k h r h']
  by (auto simp: nft_deletes_rules_def)

lemma add_nat_rules_balance:
  assumes echo: "nft_echoes_handles E" and del: "nft_deletes_rules E"
  shows "live_rules (snd (run_state (add_nat_rules E ip tap iface) h)) =
     (case fst (run_state (add_nat_rules E ip tap iface) h) of
        Inl _ \<Rightarrow> live_rules h | Inr _ \<Rightarrow> live_rules h + 2)"
  by (auto simp: add_nat_rules_def split: prod.splits sum.splits
      dest!: nft_add_effect [OF echo] nft_delete_effect [OF del])

lemma remove_nat_rules_balance:
  assumes del: "nft_deletes_rules E"
  shows "live_rules (snd (run_state (remove_nat_rules E hs) h)) = live_rules h - 2"
  by (auto simp: remove_nat_rules_def split: prod.splits dest!: nft_delete_effect [OF del])


lemma show_seven: "show_nat (unat (7 :: u64)) = ''7''"
proof -
  have "show_nat 7 = ''7''" by code_simp
  then show ?thesis by simp
qed

lemma parse_nft_handle_calm: "parse_nft_handle ''# handle 7'' = Inr 7"
proof -
  have "parse_handle_lines None ([] @ [[] @ ''# handle '' @ show_nat (unat (7 :: u64))]) = Inr (Some 7)"
    by (rule parse_handle_line [where last_handle = None]) simp_all
  then have p: "parse_handle_lines None [''# handle 7''] = Inr (Some 7)"
    unfolding show_seven by (simp only: append.simps)
  have "str_lines ''# handle 7'' = [''# handle 7'']"
    by (rule str_lines_single) (simp_all add: newline_def)
  then show ?thesis unfolding parse_nft_handle_def by (simp only: p) simp
qed


text \<open>C34: A readable handle is needed for the rollback: when both rules are added but the handle
  of the second is not readable (or that of the first), the operation fails and the rules it
  added stay in the table.\<close>

theorem unreadable_handle_leaks_rules:
  assumes "run_state (run_cmd_output E ''nft'' [''-ae'', nft_post_rule ip iface]) h = (Inr out1, h1)"
    and "run_state (run_cmd_output E ''nft'' [''-ae'', nft_filter_rule tap iface]) h1 = (Inr out2, h2)"
    and "parse_nft_handle out2 = Inl e2"
  shows "(\<exists>e. fst (run_state (add_nat_rules E ip tap iface) h) = Inl e)
    \<and> live_rules (snd (run_state (add_nat_rules E ip tap iface) h)) =
        (case parse_nft_handle out1 of Inl _ \<Rightarrow> live_rules h + 1 | Inr _ \<Rightarrow> live_rules h + 2)"
  using assms run_nft_add [OF assms(1)] run_nft_add [OF assms(2)]
  by (auto simp: add_nat_rules_def split: sum.splits)

text \<open>An \<open>nft\<close> that adds every rule and echoes nothing.\<close>

definition mute_nft_env :: env where
  "mute_nft_env = calm_env\<lparr>env_exec := (\<lambda>h p as.
     Inr \<lparr>status_success = True, stdout = [], stderr = []\<rparr>)\<rparr>"

lemma run_cmd_output_mute [simp]:
  "run_state (run_cmd_output mute_nft_env p as) h =
     (Inr [], h @ [EvExec p as (Inr \<lparr>status_success = True, stdout = [], stderr = []\<rparr>)])"
  by (simp add: run_cmd_output_def command_output_def mute_nft_env_def)

theorem unreadable_handle_leaks_rules_witness:
  "(\<exists>e. fst (run_state (add_nat_rules mute_nft_env (Ipv4 172 16 0 2) ''fc0'' ''eth0'') []) = Inl e)
   \<and> live_rules (snd (run_state (add_nat_rules mute_nft_env (Ipv4 172 16 0 2) ''fc0'' ''eth0'') [])) = 1"
proof -
  have p: "parse_nft_handle [] = Inl [''No handle found in nft output: '']"
    by (simp add: parse_nft_handle_def trim_def trim_start_def trim_end_def)
  show ?thesis
    using unreadable_handle_leaks_rules [where E = mute_nft_env and ip = "Ipv4 172 16 0 2"
        and tap = "''fc0''" and iface = "''eth0''" and h = "[]", OF run_cmd_output_mute
        run_cmd_output_mute p] p
    by (simp add: live_rules_def)
qed

text \<open>C39: The handle \<open>nft\<close> echoes is read back exactly: for any preceding lines without a handle
  marker and any rule text, the line \<open><rule># handle <n>\<close> yields \<open>n\<close>, for every 64-bit \<open>n\<close>;
  of several echoed handles the last one counts.\<close>

theorem parse_nft_handle_roundtrip:
  fixes n :: u64
  assumes "CHR ''#'' \<notin> set rule" and "newline \<notin> set rule"
    and "parse_handle_lines None (str_lines before) = Inr last_handle"
    and "before = [] \<or> (\<exists>b. before = b @ [newline])"
  shows "parse_nft_handle (before @ rule @ ''# handle '' @ show_nat (unat n) @ [newline]) = Inr n"
proof -
  let ?line = "rule @ ''# handle '' @ show_nat (unat n)"
  have nl: "newline \<notin> set ?line" using assms(2) by (rule handle_line_no_newline)
  have cr: "strip_cr ?line = ?line" using strip_cr_digit [of "rule @ ''# handle ''" "unat n"] by simp
  have one: "str_lines (?line @ [newline]) = [?line]"
    using str_lines_cons [OF nl, of "[]"] cr by simp
  have "str_lines (before @ ?line @ [newline]) = str_lines before @ [?line]"
  proof (cases "before = []")
    case True
    with one show ?thesis by simp
  next
    case False
    with assms(4) obtain b where "before = b @ [newline]" by blast
    with one str_lines_split [of b "?line @ [newline]"] show ?thesis by simp
  qed
  with parse_handle_line [OF assms(1,3), of n] show ?thesis
    by (simp add: parse_nft_handle_def)
qed

theorem parse_nft_handle_roundtrip_witness:
  "parse_nft_handle (nft_filter_rule ''fc0'' ''eth0'' @ ''# handle '' @ show_nat 42 @ [newline]) = Inr 42"
proof -
  have r: "CHR ''#'' \<notin> set (nft_filter_rule ''fc0'' ''eth0'')"
    "newline \<notin> set (nft_filter_rule ''fc0'' ''eth0'')"
    by (simp_all add: nft_filter_rule_def newline_def)
  from parse_nft_handle_roundtrip [where n = 42 and before = "[]", OF r] show ?thesis by simp
qed

section \<open>The outward interface\<close>

text \<open>The interface detected is the word after the first \<open>dev\<close> of the default route, and
  an output without such a word is an error.\<close>

theorem detect_host_interface_result:
  assumes "run_state (run_cmd_output E ''ip'' [''route'', ''show'', ''default'']) h = (Inr out, h')"
  shows "fst (run_state (detect_host_interface E) h) = Inr name \<longleftrightarrow>
    (\<exists>before after. split_whitespace out = before @ ''dev'' # name # after \<and> ''dev'' \<notin> set before)"
proof -
  let ?ws = "split_whitespace out"
  have "word_after_dev ?ws = Some name \<longleftrightarrow>
      (\<exists>before after. ?ws = before @ ''dev'' # name # after \<and> ''dev'' \<notin> set before)"
  proof
    assume "word_after_dev ?ws = Some name"
    then obtain d after where d: "dropWhile (\<lambda>w. w \<noteq> ''dev'') ?ws = d # name # after"
      by (auto simp: word_after_dev_def split: list.splits)
    then have "d = ''dev''"
      using hd_dropWhile [of "\<lambda>w. w \<noteq> ''dev''" ?ws] by simp
    moreover have "?ws = takeWhile (\<lambda>w. w \<noteq> ''dev'') ?ws @ dropWhile (\<lambda>w. w \<noteq> ''dev'') ?ws"
      by (rule takeWhile_dropWhile_id [symmetric])
    moreover have "''dev'' \<notin> set (takeWhile (\<lambda>w. w \<noteq> ''dev'') ?ws)"
      using set_takeWhileD [of "''dev''" "\<lambda>w. w \<noteq> ''dev''" ?ws] by blast
    ultimately show "\<exists>before after. ?ws = before @ ''dev'' # name # after \<and> ''dev'' \<notin> set before"
      unfolding d by blast
  next
    assume "\<exists>before after. ?ws = before @ ''dev'' # name # after \<and> ''dev'' \<notin> set before"
    then obtain before after where w: "?ws = before @ ''dev'' # name # after" "''dev'' \<notin> set before"
      by blast
    have "dropWhile (\<lambda>w. w \<noteq> ''dev'') ?ws = ''dev'' # name # after"
      unfolding w(1) using w(2)
      by (subst dropWhile_append2) auto
    then show "word_after_dev ?ws = Some name" by (simp add: word_after_dev_def)
  qed
  then show ?thesis
    using assms by (auto simp: detect_host_interface_def split: option.splits)
qed

theorem detect_host_interface_result_witness:
  "fst (run_state (detect_host_interface (calm_env\<lparr>env_exec := (\<lambda>h p as. Inr \<lparr>status_success = True,
     stdout = ''default via 10.0.0.1 dev eth0 proto dhcp'', stderr = []\<rparr>)\<rparr>)) []) = Inr ''eth0''"
proof -
  let ?out = "''default via 10.0.0.1 dev eth0 proto dhcp''"
  let ?rep = "\<lparr>status_success = True, stdout = ?out, stderr = []\<rparr>"
  let ?E = "calm_env\<lparr>env_exec := (\<lambda>h p as. Inr ?rep)\<rparr>"
  have run: "run_state (run_cmd_output ?E ''ip'' [''route'', ''show'', ''default'']) [] =
      (Inr ?out, [EvExec ''ip'' [''route'', ''show'', ''default''] (Inr ?rep)])"
    by (simp add: run_cmd_output_def command_output_def)
  have "split_whitespace ?out = [''default'', ''via'', ''10.0.0.1''] @ ''dev'' # ''eth0'' # [''proto'', ''dhcp'']"
    by code_simp
  moreover have "''dev'' \<notin> set [''default'', ''via'', ''10.0.0.1'']" by simp
  ultimately show ?thesis
    unfolding detect_host_interface_result [OF run] by blast
qed

end
