(* ===== verification/Rootfs.thy ===== *)
theory Rootfs
  imports Host
begin

text \<open>
  \<open>src/vm/rootfs.rs\<close>: the per-VM copy of the root file system image, made by \<open>cp\<close> and
  handed to the jailer's user by \<open>chown\<close>, and its removal. A ledger reads off the history
  which copies exist.
\<close>

datatype copy_strategy = Reflink | Sparse

definition JAILER_UID :: nat where "JAILER_UID = 1100"
definition JAILER_GID :: nat where "JAILER_GID = 1100"

fun copy_flag :: "copy_strategy \<Rightarrow> string" where
  "copy_flag Reflink = ''--reflink=always''"
| "copy_flag Sparse = ''--sparse=always''"

definition copy_rootfs ::
  "env \<Rightarrow> copy_strategy \<Rightarrow> string \<Rightarrow> string \<Rightarrow> nat \<Rightarrow> nat \<Rightarrow> (anyhow + unit) io" where
  "copy_rootfs E strategy source dest uid gid = do {
     r \<leftarrow> command_output E ''cp'' [copy_flag strategy, source, dest];
     case r of
       Inl e \<Rightarrow> ret (Inl (context_msg ''Failed to execute cp'' [io_message e]))
     | Inr out \<Rightarrow>
         if \<not> status_success out
         then ret (Inl [''Failed to copy rootfs: '' @ trim (stderr out)])
         else do {
           r \<leftarrow> command_output E ''chown'' [show_nat uid @ '':'' @ show_nat gid, dest];
           case r of
             Inl e \<Rightarrow> ret (Inl (context_msg ''Failed to execute chown'' [io_message e]))
           | Inr out \<Rightarrow>
               if \<not> status_success out
               then ret (Inl [''Failed to chown rootfs copy: '' @ trim (stderr out)])
               else ret (Inr ())
         }
   }"

definition cleanup_rootfs_copy :: "env \<Rightarrow> string \<Rightarrow> unit io" where
  "cleanup_rootfs_copy E path = do {
     _ \<leftarrow> fs_remove_file E path;
     ret ()
   }"

definition is_copy_event :: "event \<Rightarrow> bool" where
  "is_copy_event e = (case e of EvExec p _ _ \<Rightarrow> p = ''cp'' \<or> p = ''chown'' | _ \<Rightarrow> False)"

definition is_remove_file :: "event \<Rightarrow> bool" where
  "is_remove_file e = (case e of EvRemoveFile _ _ \<Rightarrow> True | _ \<Rightarrow> False)"

lemma appends_copy_rootfs [footprint]: "appends is_copy_event (copy_rootfs E st src dst u g)"
  unfolding copy_rootfs_def command_output_def by (intro footprint) (simp_all add: is_copy_event_def)

lemma appends_cleanup_rootfs [footprint]: "appends is_remove_file (cleanup_rootfs_copy E p)"
  unfolding cleanup_rootfs_copy_def fs_remove_file_def
  by (intro footprint) (simp_all add: is_remove_file_def)

interpretation copy_rootfs_op:
  host_op "\<lambda>E (st, src, dst, u, g). copy_rootfs E st src dst u g" is_copy_event
  by unfold_locales (auto split: prod.split intro: footprint)

interpretation cleanup_rootfs_op: host_op cleanup_rootfs_copy is_remove_file
  by unfold_locales (rule footprint)

text \<open>The copies on disk: made by a successful \<open>cp\<close>, gone after a successful removal.\<close>

definition copy_step :: "string set \<Rightarrow> event \<Rightarrow> string set" where
  "copy_step files e =
     (case e of
        EvExec p as r \<Rightarrow>
          if p = ''cp'' \<and> length as = 3 \<and> succeeded r then insert (as ! 2) files else files
      | EvRemoveFile p r \<Rightarrow> if r = Inr () then files - {p} else files
      | _ \<Rightarrow> files)"

definition live_copies :: "history \<Rightarrow> string set" where
  "live_copies h = ledger copy_step {} h"

definition failed_chown :: "string \<Rightarrow> event \<Rightarrow> bool" where
  "failed_chown dest e =
     (case e of EvExec p as r \<Rightarrow> p = ''chown'' \<and> length as = 2 \<and> as ! 1 = dest \<and> \<not> succeeded r
      | _ \<Rightarrow> False)"

lemma live_copies_Nil [simp]: "live_copies [] = {}"
  by (simp add: live_copies_def)

lemma live_copies_snoc [simp]:
  "live_copies (h @ [EvExec ''cp'' [f, s, d] r]) =
     (if succeeded r then insert d (live_copies h) else live_copies h)"
  "live_copies (h @ [EvExec ''cp'' [f, s, d] r, EvExec ''chown'' as r']) =
     (if succeeded r then insert d (live_copies h) else live_copies h)"
  "live_copies (h @ [EvRemoveFile p r2]) = (if r2 = Inr () then live_copies h - {p} else live_copies h)"
  by (simp_all add: live_copies_def copy_step_def)

lemma live_copies_cleanup:
  "live_copies (snd (run_state (cleanup_rootfs_copy E p) h)) =
     (if env_remove_file E h p = Inr () then live_copies h - {p} else live_copies h)"
  by (simp add: cleanup_rootfs_copy_def fs_remove_file_def)

text \<open>The copy of the image exists after a success. After a failure it does not exist,
  unless it was the \<open>chown\<close> that failed: then the copy is left on disk.\<close>

theorem copy_rootfs_outcome:
  "(case run_state (copy_rootfs E strategy src dest uid gid) h of
      (Inr _, h') \<Rightarrow> live_copies h' = insert dest (live_copies h)
    | (Inl _, h') \<Rightarrow> live_copies h' = live_copies h
        \<or> live_copies h' = insert dest (live_copies h) \<and> failed_chown dest (last h'))"
  by (auto simp: copy_rootfs_def command_output_def failed_chown_def split: sum.splits)

end
