(* ===== verification/Gateway.thy ===== *)
theory Gateway
  imports Host
begin

text \<open>
  \<open>src/gateway_client.rs\<close>: the optional client that reports the worker and its VMs to the
  gateway. The HTTP client itself (\<open>reqwest\<close>) is a parameter: a request is answered by a
  status code or a transport error.
\<close>

record gateway_client =
  gw_base_url :: string
  gw_worker_id :: string
  gw_worker_ip :: string

definition worker_registration_json :: "string \<Rightarrow> string \<Rightarrow> json" where
  "worker_registration_json worker_id ip_address =
     JObj [(''worker_id'', JStr worker_id), (''ip_address'', JStr ip_address)]"

definition vm_registration_json :: "string \<Rightarrow> string \<Rightarrow> u8 \<Rightarrow> u32 \<Rightarrow> json" where
  "vm_registration_json vm_id worker_id vcpus memory_mb =
     JObj [(''vm_id'', JStr vm_id), (''worker_id'', JStr worker_id),
           (''vcpus'', JNum (unat vcpus)), (''memory_mb'', JNum (unat memory_mb))]"

definition hostname_get :: "env \<Rightarrow> (anyhow + string) io" where
  "hostname_get E = do {
     r \<leftarrow> perform (env_hostname E) (\<lambda>_. EvQuery ''hostname'' []);
     ret (case r of
            Inl e \<Rightarrow> Inl (context_msg ''Failed to get hostname'' [io_message e])
          | Inr None \<Rightarrow> Inl [''Hostname contains invalid UTF-8'']
          | Inr (Some name) \<Rightarrow> Inr name)
   }"

text \<open>\<open>GatewayClient::new\<close>.\<close>

definition gateway_new :: "env \<Rightarrow> (anyhow + gateway_client option) io" where
  "gateway_new E = do {
     url \<leftarrow> env_lookup E ''GATEWAY_URL'';
     case url of
       None \<Rightarrow> ret (Inr None)
     | Some base_url \<Rightarrow> do {
         wid \<leftarrow> env_lookup E ''WORKER_ID'';
         worker_id \<leftarrow> (case wid of Some w \<Rightarrow> ret (Inr w) | None \<Rightarrow> hostname_get E);
         case worker_id of
           Inl e \<Rightarrow> ret (Inl (context_msg
             ''WORKER_ID not set and hostname detection failed - set WORKER_ID explicitly'' e))
         | Inr worker_id \<Rightarrow> do {
             ip \<leftarrow> env_lookup E ''WORKER_IP'';
             case ip of
               None \<Rightarrow> ret (Inl [''WORKER_IP must be set when GATEWAY_URL is configured''])
             | Some worker_ip \<Rightarrow> do {
                 c \<leftarrow> perform (env_http_client E) (\<lambda>_. EvQuery ''http_client'' []);
                 ret (case c of
                        Inl e \<Rightarrow> Inl [e]
                      | Inr _ \<Rightarrow> Inr (Some \<lparr>gw_base_url = base_url, gw_worker_id = worker_id,
                                         gw_worker_ip = worker_ip\<rparr>))
               }
           }
       }
   }"

text \<open>\<open>send().await.context(..)?.error_for_status().context(..)\<close>: 4xx and 5xx are errors.\<close>

definition is_error_status :: "nat \<Rightarrow> bool" where
  "is_error_status status = (400 \<le> status \<and> status < 600)"

definition send_checked :: "env \<Rightarrow> http_request \<Rightarrow> string \<Rightarrow> string \<Rightarrow> (anyhow + unit) io" where
  "send_checked E req send_ctx status_ctx = do {
     r \<leftarrow> http_send E req;
     ret (case r of
            Inl e \<Rightarrow> Inl (context_msg send_ctx [e])
          | Inr status \<Rightarrow>
              if is_error_status status then Inl [status_ctx] else Inr ())
   }"

definition gw_register :: "env \<Rightarrow> gateway_client \<Rightarrow> (anyhow + unit) io" where
  "gw_register E c =
     send_checked E
       \<lparr>req_method = POST, req_url = gw_base_url c @ ''/worker/register'',
        req_body = Some (worker_registration_json (gw_worker_id c) (gw_worker_ip c))\<rparr>
       ''Failed to register with gateway'' ''Gateway returned error on registration''"

definition gw_heartbeat :: "env \<Rightarrow> gateway_client \<Rightarrow> (anyhow + unit) io" where
  "gw_heartbeat E c =
     send_checked E
       \<lparr>req_method = POST,
        req_url = gw_base_url c @ ''/worker/'' @ gw_worker_id c @ ''/heartbeat'', req_body = None\<rparr>
       ''Failed to send heartbeat'' ''Gateway returned error on heartbeat''"

definition gw_register_vm :: "env \<Rightarrow> gateway_client \<Rightarrow> uuid \<Rightarrow> u8 \<Rightarrow> u32 \<Rightarrow> (anyhow + unit) io" where
  "gw_register_vm E c vm_id vcpus memory_mb =
     send_checked E
       \<lparr>req_method = POST, req_url = gw_base_url c @ ''/vm/register'',
        req_body = Some (vm_registration_json (env_uuid_to_string E vm_id) (gw_worker_id c)
                           vcpus memory_mb)\<rparr>
       ''Failed to register VM with gateway'' ''Gateway returned error on VM registration''"

definition gw_deregister_vm :: "env \<Rightarrow> gateway_client \<Rightarrow> uuid \<Rightarrow> (anyhow + unit) io" where
  "gw_deregister_vm E c vm_id =
     send_checked E
       \<lparr>req_method = DELETE, req_url = gw_base_url c @ ''/vm/'' @ env_uuid_to_string E vm_id,
        req_body = None\<rparr>
       ''Failed to deregister VM from gateway'' ''Gateway returned error on VM deregistration''"

text \<open>
  The heartbeat task loops for ever; this is its first \<open>n\<close> rounds. The interval's first
  tick is immediate, the later ones are 30 seconds apart, and an error only reaches the log.
\<close>

fun heartbeat_rounds :: "env \<Rightarrow> gateway_client \<Rightarrow> nat \<Rightarrow> unit io" where
  "heartbeat_rounds E c 0 = ret ()"
| "heartbeat_rounds E c (Suc n) = do {
     _ \<leftarrow> heartbeat_rounds E c n;
     _ \<leftarrow> (if n = 0 then ret () else thread_sleep 30);
     _ \<leftarrow> gw_heartbeat E c;
     ret ()
   }"

section \<open>Footprints and results\<close>

definition is_http :: "event \<Rightarrow> bool" where
  "is_http e = (case e of EvHttp _ _ \<Rightarrow> True | _ \<Rightarrow> False)"

lemma send_checked_run:
  "run_state (send_checked E req sc stc) h =
     (case env_http E h req of
        Inl e \<Rightarrow> (Inl [sc, e], h @ [EvHttp req (Inl e)])
      | Inr s \<Rightarrow> (if is_error_status s then Inl [stc] else Inr (), h @ [EvHttp req (Inr s)]))"
  by (auto simp: send_checked_def http_send_def context_msg_def split: sum.split)

lemma appends_send_checked [footprint]: "appends is_http (send_checked E req sc stc)"
  unfolding send_checked_def http_send_def by (intro footprint) (simp add: is_http_def)

lemma appends_gw [footprint]:
  "appends is_http (gw_register E c)" "appends is_http (gw_heartbeat E c)"
  "appends is_http (gw_register_vm E c u v m)" "appends is_http (gw_deregister_vm E c u)"
  unfolding gw_register_def gw_heartbeat_def gw_register_vm_def gw_deregister_vm_def
  by (rule footprint)+

interpretation gw_register_vm_op:
  host_op "\<lambda>E (c, u, v, m). gw_register_vm E c u v m" is_http
  by unfold_locales (auto split: prod.split intro: footprint)

interpretation gw_deregister_vm_op: host_op "\<lambda>E (c, u). gw_deregister_vm E c u" is_http
  by unfold_locales (auto split: prod.split intro: footprint)

text \<open>Gateway integration is decided by the environment: without \<open>GATEWAY_URL\<close> there is no
  client and no error, whatever else is set; with it, a client results exactly when a worker
  id (from \<open>WORKER_ID\<close>, else a readable host name) and \<open>WORKER_IP\<close> are available and the
  HTTP client can be built, and the client carries these three values.\<close>

theorem gateway_new_result:
  assumes "\<And>h n. env_var E h n = vars n"
    and "\<And>h. env_hostname E h = host" and "\<And>h. env_http_client E h = hc"
  shows "(fst (run_state (gateway_new E) h) = Inr None \<longleftrightarrow> vars ''GATEWAY_URL'' = None)
    \<and> (fst (run_state (gateway_new E) h) = Inr (Some c) \<longleftrightarrow>
      vars ''GATEWAY_URL'' = Some (gw_base_url c)
      \<and> (vars ''WORKER_ID'' = Some (gw_worker_id c)
         \<or> vars ''WORKER_ID'' = None \<and> host = Inr (Some (gw_worker_id c)))
      \<and> vars ''WORKER_IP'' = Some (gw_worker_ip c) \<and> hc = Inr ())"
  using assms
  by (auto simp: gateway_new_def env_lookup_def hostname_get_def split: option.splits sum.splits)

theorem gateway_new_result_witness:
  "fst (run_state (gateway_new (calm_env\<lparr>env_var := (\<lambda>h n. if n = ''GATEWAY_URL'' then Some ''http://gw''
       else if n = ''WORKER_IP'' then Some ''10.0.0.9'' else None)\<rparr>)) [])
   = Inr (Some \<lparr>gw_base_url = ''http://gw'', gw_worker_id = ''host'', gw_worker_ip = ''10.0.0.9''\<rparr>)"
proof -
  let ?vars = "\<lambda>n. if n = ''GATEWAY_URL'' then Some ''http://gw''
       else if n = ''WORKER_IP'' then Some ''10.0.0.9'' else None"
  let ?E = "calm_env\<lparr>env_var := (\<lambda>h. ?vars)\<rparr>"
  let ?c = "\<lparr>gw_base_url = ''http://gw'', gw_worker_id = ''host'', gw_worker_ip = ''10.0.0.9''\<rparr>"
  have "env_var ?E h n = ?vars n" "env_hostname ?E h = Inr (Some ''host'')" "env_http_client ?E h = Inr ()" for h n
    by (simp_all add: calm_env_def)
  from gateway_new_result [where vars = ?vars, OF this, of "[]" ?c] show ?thesis by simp
qed

text \<open>An error from the gateway never reaches past the call: a request is one HTTP exchange, it
  succeeds exactly on a status outside 400 to 599, and a registration carries the VM's id, the
  worker's id and the exact size.\<close>

theorem gw_register_vm_result:
  "run_state (gw_register_vm E c u v m) h =
     (let rq = \<lparr>req_method = POST, req_url = gw_base_url c @ ''/vm/register'',
                req_body = Some (JObj [(''vm_id'', JStr (env_uuid_to_string E u)),
                  (''worker_id'', JStr (gw_worker_id c)), (''vcpus'', JNum (unat v)),
                  (''memory_mb'', JNum (unat m))])\<rparr>;
          answer = env_http E h rq
      in (case answer of
            Inl e \<Rightarrow> Inl [''Failed to register VM with gateway'', e]
          | Inr status \<Rightarrow> if 400 \<le> status \<and> status < 600
              then Inl [''Gateway returned error on VM registration''] else Inr (),
          h @ [EvHttp rq answer]))"
  by (simp add: gw_register_vm_def send_checked_run vm_registration_json_def is_error_status_def Let_def
      split: sum.split)

end
