(* ===== verification/App_State.thy ===== *)
theory App_State
  imports Vm_Config Subnet_Pool Fc_Network Rootfs Gateway
begin

text \<open>
  \<open>src/app.rs\<close>, \<open>src/error.rs\<close> and the jailer configuration of \<open>src/firecracker/mod.rs\<close>:
  the state the request handlers share, the errors they answer with, and the monad they are
  written in. A handler's state is the \<open>world\<close>: the history of calls to the host and the
  shared \<open>app_state\<close>. Calls to the host leave the shared state alone, operations on the
  shared state leave the history alone; the lemmas of the last section say so.
\<close>

section \<open>The shared state\<close>

definition VM_IMAGES_DIR :: string where "VM_IMAGES_DIR = ''/srv/jailer/vm-images''"

record jailer_config =
  jc_cgroup_version :: nat
  jc_firecracker_path :: string
  jc_jailer_path :: string
  jc_kernel_path :: string
  jc_rootfs_path :: string
  jc_vm_images_dir :: string
  jc_copy_strategy :: copy_strategy
  jc_host_interface :: string

record vm_resources =
  vr_vcpus :: u8
  vr_memory_mb :: u32
  vr_rootfs_copy :: "string option"
  vr_tap_name :: "string option"
  vr_subnet_index :: "u16 option"
  vr_nat_handles :: "nat_handles option"
  vr_guest_ip :: "string option"
  vr_vsock_uds_path :: "string option"
  vr_ssh_keys :: "string list"

datatype vm_entry =
    Creating vm_resources
  | Running instance_handle vm_resources

fun entry_status :: "vm_entry \<Rightarrow> string" where
  "entry_status (Creating _) = ''creating''"
| "entry_status (Running _ _) = ''running''"

fun entry_resources :: "vm_entry \<Rightarrow> vm_resources" where
  "entry_resources (Creating r) = r"
| "entry_resources (Running _ r) = r"

type_synonym vm_map = "(uuid \<times> vm_entry) list"

record app_state =
  st_capacity :: capacity
  st_jailer :: jailer_config
  st_vms :: vm_map
  st_pool :: subnet_pool
  st_gateway :: "gateway_client option"

text \<open>The state half of \<open>create_app\<close>, and its table of routes.\<close>

definition create_app :: "capacity \<Rightarrow> jailer_config \<Rightarrow> gateway_client option \<Rightarrow> app_state" where
  "create_app cap jailer gateway =
     \<lparr>st_capacity = cap, st_jailer = jailer, st_vms = [], st_pool = pool_new,
      st_gateway = gateway\<rparr>"

datatype endpoint = Health | Ready | ListVms | CreateVm | GetVm | DeleteVm

definition routes :: "(string \<times> http_method \<times> endpoint) list" where
  "routes =
     [(''/internal/health'', GET, Health),
      (''/internal/ready'', GET, Ready),
      (''/vm'', GET, ListVms),
      (''/vm'', POST, CreateVm),
      (''/vm/{id}'', GET, GetVm),
      (''/vm/{id}'', DELETE, DeleteVm)]"

section \<open>Errors and responses\<close>

record api_error =
  err_status :: nat
  err_message :: string

definition api_internal :: "string \<Rightarrow> api_error" where
  "api_internal msg = \<lparr>err_status = 500, err_message = msg\<rparr>"

definition api_not_found :: "string \<Rightarrow> api_error" where
  "api_not_found msg = \<lparr>err_status = 404, err_message = msg\<rparr>"

definition api_conflict :: "string \<Rightarrow> api_error" where
  "api_conflict msg = \<lparr>err_status = 409, err_message = msg\<rparr>"

definition api_unprocessable :: "string \<Rightarrow> api_error" where
  "api_unprocessable msg = \<lparr>err_status = 422, err_message = msg\<rparr>"

text \<open>Both \<open>From\<close> conversions hide the error from the client.\<close>

definition api_from_anyhow :: "anyhow \<Rightarrow> api_error" where
  "api_from_anyhow e = api_internal ''Internal server error''"

definition api_from_sdk :: "string \<Rightarrow> api_error" where
  "api_from_sdk e = api_internal ''Internal server error''"

record http_response =
  resp_status :: nat
  resp_body :: json

definition into_response :: "api_error \<Rightarrow> http_response" where
  "into_response e =
     \<lparr>resp_status = err_status e, resp_body = JObj [(''error'', JStr (err_message e))]\<rparr>"

definition fallback :: http_response where
  "fallback = \<lparr>resp_status = 404, resp_body = JObj [(''error'', JStr ''Not found'')]\<rparr>"

section \<open>Handlers\<close>

record world =
  hist :: history
  app :: app_state

type_synonym 'a handler = "(world, 'a) state"

definition lift_io :: "'a io \<Rightarrow> 'a handler" where
  "lift_io m = State (\<lambda>w. let (a, h) = run_state m (hist w) in (a, w\<lparr>hist := h\<rparr>))"

definition get_app :: "app_state handler" where
  "get_app = State (\<lambda>w. (app w, w))"

definition put_vms :: "vm_map \<Rightarrow> unit handler" where
  "put_vms vms = State (\<lambda>w. ((), w\<lparr>app := (app w)\<lparr>st_vms := vms\<rparr>\<rparr>))"

definition vms_remove :: "uuid \<Rightarrow> vm_entry option handler" where
  "vms_remove u = do {
     s \<leftarrow> get_app;
     _ \<leftarrow> put_vms (hm_remove u (st_vms s));
     ret (hm_get (st_vms s) u)
   }"

definition vms_insert :: "uuid \<Rightarrow> vm_entry \<Rightarrow> unit handler" where
  "vms_insert u e = do {
     s \<leftarrow> get_app;
     put_vms (hm_insert u e (st_vms s))
   }"

text \<open>\<open>subnet_pool.lock().await\<close> and one call: the guard is dropped with the statement.\<close>

definition pool_lock_allocate :: "subnet_allocation option handler" where
  "pool_lock_allocate = State (\<lambda>w.
     case pool_allocate (st_pool (app w)) of
       None \<Rightarrow> (None, w)
     | Some (a, p) \<Rightarrow> (Some a, w\<lparr>app := (app w)\<lparr>st_pool := p\<rparr>\<rparr>))"

definition pool_lock_release :: "u16 \<Rightarrow> unit outcome handler" where
  "pool_lock_release i = State (\<lambda>w.
     case pool_release i (st_pool (app w)) of
       None \<Rightarrow> (Panicked, w)
     | Some p \<Rightarrow> (Finished (), w\<lparr>app := (app w)\<lparr>st_pool := p\<rparr>\<rparr>))"

section \<open>Runs of the primitives\<close>

named_theorems prims \<open>runs of the handler primitives\<close>

lemma run_lift_io [prims]:
  "run_state (lift_io m) w =
     (fst (run_state m (hist w)), w\<lparr>hist := snd (run_state m (hist w))\<rparr>)"
  by (simp add: lift_io_def split: prod.split)

lemma run_get_app [prims]: "run_state get_app w = (app w, w)"
  by (simp add: get_app_def)

lemma run_put_vms [prims]: "run_state (put_vms m) w = ((), w\<lparr>app := (app w)\<lparr>st_vms := m\<rparr>\<rparr>)"
  by (simp add: put_vms_def)

lemma run_vms_remove [prims]:
  "run_state (vms_remove u) w =
     (hm_get (st_vms (app w)) u, w\<lparr>app := (app w)\<lparr>st_vms := hm_remove u (st_vms (app w))\<rparr>\<rparr>)"
  by (simp add: vms_remove_def prims)

lemma run_vms_insert [prims]:
  "run_state (vms_insert u e) w =
     ((), w\<lparr>app := (app w)\<lparr>st_vms := hm_insert u e (st_vms (app w))\<rparr>\<rparr>)"
  by (simp add: vms_insert_def prims)

lemma run_pool_lock_allocate [prims]:
  "run_state pool_lock_allocate w =
     (case pool_allocate (st_pool (app w)) of
        None \<Rightarrow> (None, w)
      | Some (a, p) \<Rightarrow> (Some a, w\<lparr>app := (app w)\<lparr>st_pool := p\<rparr>\<rparr>))"
  by (simp add: pool_lock_allocate_def)

lemma run_pool_lock_release [prims]:
  "run_state (pool_lock_release i) w =
     (case pool_release i (st_pool (app w)) of
        None \<Rightarrow> (Panicked, w)
      | Some p \<Rightarrow> (Finished (), w\<lparr>app := (app w)\<lparr>st_pool := p\<rparr>\<rparr>))"
  by (simp add: pool_lock_release_def)

text \<open>A handler that only talks to the host: its result is the io operation's, and the shared
  state stays as it is.\<close>

definition app_kept :: "'a handler \<Rightarrow> bool" where
  "app_kept m \<longleftrightarrow> (\<forall>w. app (snd (run_state m w)) = app w)"

named_theorems kept \<open>introduction rules for handlers that keep the shared state\<close>

lemma app_keptD: "app_kept m \<Longrightarrow> run_state m w = (a, w') \<Longrightarrow> app w' = app w"
  unfolding app_kept_def by (metis snd_conv)

lemma app_kept_return [kept]: "app_kept (ret a)"
  by (simp add: app_kept_def)

lemma app_kept_lift_io [kept]: "app_kept (lift_io m)"
  by (simp add: app_kept_def prims)

lemma app_kept_get_app [kept]: "app_kept get_app"
  by (simp add: app_kept_def prims)

lemma app_kept_bind [kept]:
  "app_kept m \<Longrightarrow> (\<And>a. app_kept (f a)) \<Longrightarrow> app_kept (State_Monad.bind m f)"
  by (auto simp: app_kept_def split: prod.split) (metis snd_conv)

lemma app_kept_if [kept]: "app_kept m \<Longrightarrow> app_kept n \<Longrightarrow> app_kept (if b then m else n)"
  by simp

lemma app_kept_sum [kept]:
  "(\<And>x. app_kept (f x)) \<Longrightarrow> (\<And>y. app_kept (g y)) \<Longrightarrow>
   app_kept (case r of Inl x \<Rightarrow> f x | Inr y \<Rightarrow> g y)"
  by (simp split: sum.split)

lemma app_kept_option [kept]:
  "app_kept m \<Longrightarrow> (\<And>y. app_kept (g y)) \<Longrightarrow> app_kept (case r of None \<Rightarrow> m | Some y \<Rightarrow> g y)"
  by (simp split: option.split)

lemma app_kept_prod [kept]: "(\<And>x y. app_kept (f x y)) \<Longrightarrow> app_kept (case p of (x, y) \<Rightarrow> f x y)"
  by (simp split: prod.split)

lemma app_kept_let [kept]: "(\<And>x. app_kept (f x)) \<Longrightarrow> app_kept (let x = v in f x)"
  by simp

lemma app_kept_entry [kept]:
  "(\<And>r. app_kept (f r)) \<Longrightarrow> (\<And>i r. app_kept (g i r)) \<Longrightarrow>
   app_kept (case e of Creating r \<Rightarrow> f r | Running i r \<Rightarrow> g i r)"
  by (simp split: vm_entry.split)

end
