(* ===== verification/Handlers_Vm.thy ===== *)
theory Handlers_Vm
  imports App_State
begin

text \<open>
  \<open>src/handlers/vm.rs\<close>: the handlers of \<open>/vm\<close> and \<open>/vm/{id}\<close>. The create and delete
  handlers are cut where the code gives up or takes the lock on the VM map, into segments
  named \<open>create_*\<close> and \<open>delete_*\<close>; \<open>create\<close> and \<open>delete\<close> compose the segments the way
  the code does, for a request that runs alone, and the theory of the control plane
  interleaves the same segments. UUIDs are drawn by the caller.
\<close>

section \<open>Requests and responses\<close>

record create_vm_request =
  rq_vcpus :: "u8 option"
  rq_memory_mb :: "u32 option"
  rq_ssh_keys :: "string list"

record create_vm_response =
  cr_id :: uuid
  cr_vcpus :: u8
  cr_memory_mb :: u32
  cr_state :: instance_state
  cr_vmm_version :: string
  cr_guest_ip :: string

record vm_summary =
  vs_id :: uuid
  vs_vcpus :: u8
  vs_memory_mb :: u32
  vs_status :: string
  vs_state :: "instance_state option"
  vs_guest_ip :: "string option"

record list_vms_response =
  lr_vms :: "vm_summary list"
  lr_count :: nat

section \<open>Listing\<close>

definition list_entry :: "env \<Rightarrow> uuid \<Rightarrow> vm_entry \<Rightarrow> vm_summary handler" where
  "list_entry E u entry = do {
     instance_state \<leftarrow>
       (case entry of
          Running inst _ \<Rightarrow> do {
            r \<leftarrow> lift_io (sdk_describe E inst);
            (case r of
               Inr info \<Rightarrow> ret (Some (info_state info))
             | Inl _ \<Rightarrow> ret None)
          }
        | Creating _ \<Rightarrow> ret None);
     let r = entry_resources entry in
     ret \<lparr>vs_id = u, vs_vcpus = vr_vcpus r, vs_memory_mb = vr_memory_mb r,
          vs_status = entry_status entry, vs_state = instance_state,
          vs_guest_ip = vr_guest_ip r\<rparr>
   }"

fun list_entries :: "env \<Rightarrow> vm_map \<Rightarrow> vm_summary list handler" where
  "list_entries E [] = ret []"
| "list_entries E ((u, entry) # rest) = do {
     s \<leftarrow> list_entry E u entry;
     ss \<leftarrow> list_entries E rest;
     ret (s # ss)
   }"

definition list_vms :: "env \<Rightarrow> list_vms_response handler" where
  "list_vms E = do {
     s \<leftarrow> get_app;
     summaries \<leftarrow> list_entries E (st_vms s);
     ret \<lparr>lr_vms = summaries, lr_count = length summaries\<rparr>
   }"

section \<open>Creating\<close>

definition create_validate :: "create_vm_request option \<Rightarrow> api_error + (u8 \<times> u32)" where
  "create_validate req =
     (let (req_vcpus, req_memory) =
        (case req of Some r \<Rightarrow> (rq_vcpus r, rq_memory_mb r) | None \<Rightarrow> (None, None))
      in case validate_vm_config req_vcpus req_memory of
           Inl e \<Rightarrow> Inl (api_unprocessable (config_error_to_string e))
         | Inr c \<Rightarrow> Inr c)"

definition vm_rootfs_path :: "env \<Rightarrow> jailer_config \<Rightarrow> uuid \<Rightarrow> string" where
  "vm_rootfs_path E jc u = path_join (jc_vm_images_dir jc) (env_uuid_to_string E u @ ''.ext4'')"

definition create_copy_rootfs :: "env \<Rightarrow> uuid \<Rightarrow> (api_error + unit) handler" where
  "create_copy_rootfs E u = do {
     s \<leftarrow> get_app;
     r \<leftarrow> lift_io (spawn_blocking E
            (copy_rootfs E (jc_copy_strategy (st_jailer s)) (jc_rootfs_path (st_jailer s))
               (vm_rootfs_path E (st_jailer s) u) JAILER_UID JAILER_GID));
     case r of
       None \<Rightarrow> ret (Inl (api_from_anyhow [''Rootfs copy task panicked'']))
     | Some (Inl e) \<Rightarrow> ret (Inl (api_from_anyhow (context_msg ''Failed to prepare rootfs'' e)))
     | Some (Inr _) \<Rightarrow> ret (Inr ())
   }"

definition create_alloc :: "(api_error + subnet_allocation) handler" where
  "create_alloc = do {
     a \<leftarrow> pool_lock_allocate;
     case a of
       None \<Rightarrow> ret (Inl (api_conflict ''No available network subnets''))
     | Some subnet \<Rightarrow> ret (Inr subnet)
   }"

text \<open>The closure of the networking task, and the task itself.\<close>

definition setup_network :: "env \<Rightarrow> string \<Rightarrow> ipv4 \<Rightarrow> ipv4 \<Rightarrow> string \<Rightarrow> (anyhow + nat_handles) io" where
  "setup_network E tap tap_addr guest_addr host_iface = do {
     r \<leftarrow> create_tap E tap tap_addr;
     case r of
       Inl e \<Rightarrow> ret (Inl e)
     | Inr _ \<Rightarrow> do {
         r \<leftarrow> add_nat_rules E guest_addr tap host_iface;
         case r of
           Inr handles \<Rightarrow> ret (Inr handles)
         | Inl e \<Rightarrow> do {
             _ \<leftarrow> delete_tap E tap;
             ret (Inl e)
           }
       }
   }"

definition create_network :: "env \<Rightarrow> subnet_allocation \<Rightarrow> (anyhow + nat_handles) option handler" where
  "create_network E subnet = do {
     s \<leftarrow> get_app;
     lift_io (spawn_blocking E
       (setup_network E (sub_tap_name subnet) (tap_ip subnet) (guest_ip subnet)
          (jc_host_interface (st_jailer s))))
   }"

definition vsock_filename :: "env \<Rightarrow> uuid \<Rightarrow> string" where
  "vsock_filename E u = env_uuid_to_string E u @ ''.sock''"

definition vsock_placeholder_path :: "env \<Rightarrow> uuid \<Rightarrow> string" where
  "vsock_placeholder_path E u = path_join ''/srv/jailer/vsock'' (vsock_filename E u)"

definition vsock_runtime_path :: "env \<Rightarrow> uuid \<Rightarrow> string" where
  "vsock_runtime_path E u =
     ''/srv/jailer/firecracker/'' @ env_uuid_to_string E u @ ''/root/'' @ vsock_filename E u"

text \<open>\<open>vms.values().map(..).sum()\<close> under the build profile.\<close>

definition iter_sum :: "env \<Rightarrow> 'a::len word list \<Rightarrow> 'a word option" where
  "iter_sum E ws = (if env_overflow_checks E then sum_checked ws else Some (sum_wrapping ws))"

definition allocated_vcpus :: "env \<Rightarrow> vm_map \<Rightarrow> u8 option" where
  "allocated_vcpus E vms = iter_sum E (map (\<lambda>e. vr_vcpus (entry_resources e)) (hm_values vms))"

definition allocated_memory :: "env \<Rightarrow> vm_map \<Rightarrow> u64 option" where
  "allocated_memory E vms =
     iter_sum E (map (\<lambda>e. ucast (vr_memory_mb (entry_resources e)) :: u64) (hm_values vms))"

definition insufficient_vcpus :: "u8 \<Rightarrow> u8 \<Rightarrow> string" where
  "insufficient_vcpus req avail =
     ''Insufficient vCPUs: requested '' @ show_nat (unat req) @ '' but only '' @
     show_nat (unat avail) @ '' available''"

definition insufficient_memory :: "u32 \<Rightarrow> u64 \<Rightarrow> string" where
  "insufficient_memory req avail =
     ''Insufficient memory: requested '' @ show_nat (unat req) @ '' MB but only '' @
     show_nat (unat avail) @ '' MB available''"

definition capacity_check ::
  "capacity \<Rightarrow> u8 \<Rightarrow> u64 \<Rightarrow> u8 \<Rightarrow> u32 \<Rightarrow> api_error option" where
  "capacity_check cap alloc_vcpus alloc_memory vcpus memory_mb =
     (let available_vcpus = saturating_sub (cap_vcpus cap) alloc_vcpus;
          available_memory = saturating_sub (allocatable_memory_mb cap) alloc_memory
      in if (ucast vcpus :: u64) > ucast available_vcpus
         then Some (api_conflict (insufficient_vcpus vcpus available_vcpus))
         else if (ucast memory_mb :: u64) > available_memory
         then Some (api_conflict (insufficient_memory memory_mb available_memory))
         else None)"

definition rollback_network ::
  "env \<Rightarrow> subnet_allocation \<Rightarrow> nat_handles \<Rightarrow> unit outcome handler" where
  "rollback_network E subnet handles = do {
     _ \<leftarrow> lift_io (remove_nat_rules E handles);
     _ \<leftarrow> lift_io (delete_tap E (sub_tap_name subnet));
     pool_lock_release (sub_index subnet)
   }"

definition new_resources ::
  "env \<Rightarrow> jailer_config \<Rightarrow> uuid \<Rightarrow> u8 \<Rightarrow> u32 \<Rightarrow> string list \<Rightarrow> subnet_allocation \<Rightarrow> nat_handles \<Rightarrow> vm_resources" where
  "new_resources E jc u vcpus memory_mb keys subnet handles =
     \<lparr>vr_vcpus = vcpus, vr_memory_mb = memory_mb,
      vr_rootfs_copy = Some (vm_rootfs_path E jc u),
      vr_tap_name = Some (sub_tap_name subnet),
      vr_subnet_index = Some (sub_index subnet),
      vr_nat_handles = Some handles,
      vr_guest_ip = Some (ipv4_to_string (guest_ip subnet)),
      vr_vsock_uds_path = Some (vsock_runtime_path E u),
      vr_ssh_keys = keys\<rparr>"

text \<open>The first lock window: sum, check, insert the placeholder.\<close>

definition create_reserve ::
  "env \<Rightarrow> uuid \<Rightarrow> u8 \<Rightarrow> u32 \<Rightarrow> string list \<Rightarrow> subnet_allocation \<Rightarrow> nat_handles \<Rightarrow>
   (api_error + unit) outcome handler" where
  "create_reserve E u vcpus memory_mb keys subnet handles = do {
     s \<leftarrow> get_app;
     case allocated_vcpus E (st_vms s) of
       None \<Rightarrow> ret Panicked
     | Some av \<Rightarrow>
         (case allocated_memory E (st_vms s) of
            None \<Rightarrow> ret Panicked
          | Some am \<Rightarrow>
              (case capacity_check (st_capacity s) av am vcpus memory_mb of
                 Some e \<Rightarrow> do {
                   r \<leftarrow> rollback_network E subnet handles;
                   (case r of
                      Panicked \<Rightarrow> ret Panicked
                    | Finished _ \<Rightarrow> ret (Finished (Inl e)))
                 }
               | None \<Rightarrow> do {
                   _ \<leftarrow> vms_insert u (Creating
                          (new_resources E (st_jailer s) u vcpus memory_mb keys subnet handles));
                   ret (Finished (Inr ()))
                 }))
   }"

text \<open>\<open>(vm_id.as_u128() as u32 & 0x7FFFFFFF) | 0x00000003\<close>.\<close>

definition guest_cid_of :: "uuid \<Rightarrow> u32" where
  "guest_cid_of u = or (and (ucast u :: u32) 0x7FFFFFFF) 3"

definition jailer_options :: "env \<Rightarrow> jailer_config \<Rightarrow> uuid \<Rightarrow> u8 \<Rightarrow> u32 \<Rightarrow> jailer_option" where
  "jailer_options E jc u vcpus memory_mb =
     \<lparr>jo_jailer_bin = jc_jailer_path jc, jo_exec_file = jc_firecracker_path jc,
      jo_id = env_uuid_to_string E u, jo_gid = JAILER_GID, jo_uid = JAILER_UID,
      jo_firecracker = Some \<lparr>fc_bin = jc_firecracker_path jc,
        fc_log_path = Some ''firecracker.log'', fc_level = ''Info''\<rparr>,
      jo_new_pid_ns = Some True, jo_cgroup_version = Some (jc_cgroup_version jc),
      jo_cgroup = build_cgroup_config (jc_cgroup_version jc) vcpus memory_mb,
      jo_stderr = ''/tmp/warlock-jailer-'' @ env_uuid_to_string E u @ ''.log'',
      jo_remove_workspace = True\<rparr>"

definition instance_requests ::
  "env \<Rightarrow> jailer_config \<Rightarrow> uuid \<Rightarrow> u8 \<Rightarrow> u32 \<Rightarrow> subnet_allocation \<Rightarrow> (sdk_call \<times> (string \<Rightarrow> anyhow)) list" where
  "instance_requests E jc u vcpus memory_mb subnet =
     [(StartVmm, \<lambda>e. [e]),
      (PutMachineConfiguration \<lparr>mem_size_mib = uint memory_mb, vcpu_count = uint vcpus\<rparr>, \<lambda>e. [e]),
      (PutGuestBootSource
         \<lparr>boot_args = Some (''console=ttyS0 reboot=k panic=1 pci=off '' @
            build_network_boot_args (guest_ip subnet) (tap_ip subnet)),
          initrd_path = None, kernel_image_path = jc_kernel_path jc\<rparr>, \<lambda>e. [e]),
      (PutGuestNetworkInterface
         \<lparr>iface_id = ''eth0'', host_dev_name = sub_tap_name subnet\<rparr>, \<lambda>e. [e]),
      (PutGuestDrive
         \<lparr>drive_id = ''rootfs'', is_root_device = True, is_read_only = False,
          path_on_host = vm_rootfs_path E jc u\<rparr>, \<lambda>e. [e]),
      (PutGuestVsock
         \<lparr>guest_cid = guest_cid_of u, uds_path = vsock_placeholder_path E u,
          vsock_id = Some ''vsock0''\<rparr>, \<lambda>e. context_msg ''Failed to configure vsock device'' [e]),
      (StartInstance, \<lambda>e. [e])]"

text \<open>The requests in order, each with \<open>.await?\<close>: the first error ends the sequence.\<close>

fun sdk_sequence ::
  "env \<Rightarrow> instance_handle \<Rightarrow> (sdk_call \<times> (string \<Rightarrow> anyhow)) list \<Rightarrow> (anyhow + unit) io" where
  "sdk_sequence E inst [] = ret (Inr ())"
| "sdk_sequence E inst ((c, ctx) # cs) = do {
     r \<leftarrow> sdk_request E inst c;
     case r of
       Inl e \<Rightarrow> ret (Inl (ctx e))
     | Inr _ \<Rightarrow> sdk_sequence E inst cs
   }"

definition setup_firecracker_instance ::
  "env \<Rightarrow> jailer_config \<Rightarrow> uuid \<Rightarrow> u8 \<Rightarrow> u32 \<Rightarrow> subnet_allocation \<Rightarrow>
   (anyhow + instance_handle \<times> instance_info) io" where
  "setup_firecracker_instance E jc u vcpus memory_mb subnet = do {
     b \<leftarrow> sdk_build E (jailer_options E jc u vcpus memory_mb);
     case b of
       Inl e \<Rightarrow> ret (Inl [e])
     | Inr inst \<Rightarrow> do {
         r \<leftarrow> sdk_sequence E inst (instance_requests E jc u vcpus memory_mb subnet);
         case r of
           Inl e \<Rightarrow> do { _ \<leftarrow> drop_instance inst; ret (Inl e) }
         | Inr _ \<Rightarrow> do {
             d \<leftarrow> sdk_describe E inst;
             case d of
               Inl e \<Rightarrow> do { _ \<leftarrow> drop_instance inst; ret (Inl [e]) }
             | Inr desc \<Rightarrow> ret (Inr (inst, desc))
           }
       }
   }"

definition create_setup ::
  "env \<Rightarrow> uuid \<Rightarrow> u8 \<Rightarrow> u32 \<Rightarrow> subnet_allocation \<Rightarrow> (anyhow + instance_handle \<times> instance_info) handler" where
  "create_setup E u vcpus memory_mb subnet = do {
     s \<leftarrow> get_app;
     lift_io (setup_firecracker_instance E (st_jailer s) u vcpus memory_mb subnet)
   }"

section \<open>Giving resources back\<close>

text \<open>The host side of \<open>cleanup_vm_resources\<close> and of \<open>delete\<close>, then the rest of each.\<close>

definition stop_and_drop :: "env \<Rightarrow> instance_handle \<Rightarrow> unit io" where
  "stop_and_drop E inst = do {
     _ \<leftarrow> sdk_request E inst StopInstance;
     drop_instance inst
   }"

definition teardown_network :: "env \<Rightarrow> vm_resources \<Rightarrow> unit io" where
  "teardown_network E r = do {
     _ \<leftarrow> (case vr_tap_name r of None \<Rightarrow> ret () | Some name \<Rightarrow> delete_tap E name);
     (case vr_nat_handles r of None \<Rightarrow> ret () | Some handles \<Rightarrow> remove_nat_rules E handles)
   }"

definition release_resources :: "env \<Rightarrow> vm_resources \<Rightarrow> unit outcome handler" where
  "release_resources E r = do {
     released \<leftarrow> (case vr_subnet_index r of
        None \<Rightarrow> ret (Finished ())
      | Some i \<Rightarrow> pool_lock_release i);
     case released of
       Panicked \<Rightarrow> ret Panicked
     | Finished _ \<Rightarrow> do {
         _ \<leftarrow> (case vr_rootfs_copy r of
                 None \<Rightarrow> ret ()
               | Some path \<Rightarrow> lift_io (cleanup_rootfs_copy E path));
         ret (Finished ())
       }
   }"

definition teardown_entry :: "env \<Rightarrow> vm_entry \<Rightarrow> unit io" where
  "teardown_entry E entry = do {
     _ \<leftarrow> (case entry of
            Running inst _ \<Rightarrow> stop_and_drop E inst
          | Creating _ \<Rightarrow> ret ());
     teardown_network E (entry_resources entry)
   }"

definition cleanup_vm_resources :: "env \<Rightarrow> vm_entry \<Rightarrow> unit outcome handler" where
  "cleanup_vm_resources E entry = do {
     _ \<leftarrow> lift_io (teardown_entry E entry);
     release_resources E (entry_resources entry)
   }"

text \<open>
  \<open>CreateGuard::drop\<close>, not defused. The arguments say whether the two \<open>try_lock\<close>s
  succeed; a panic in \<open>release\<close> leaves the entry in the map.
\<close>

definition create_guard_drop :: "env \<Rightarrow> bool \<Rightarrow> bool \<Rightarrow> uuid \<Rightarrow> unit outcome handler" where
  "create_guard_drop E vms_free pool_free u =
     (if \<not> vms_free then ret (Finished ())
      else do {
        s \<leftarrow> get_app;
        released \<leftarrow> (case hm_get (st_vms s) u of
             Some (Creating r) \<Rightarrow> do {
               _ \<leftarrow> lift_io (teardown_network E r);
               released \<leftarrow> (case vr_subnet_index r of
                  None \<Rightarrow> ret (Finished ())
                | Some i \<Rightarrow> if pool_free then pool_lock_release i else ret (Finished ()));
               case released of
                 Panicked \<Rightarrow> ret Panicked
               | Finished _ \<Rightarrow> do {
                   _ \<leftarrow> (case vr_rootfs_copy r of
                           None \<Rightarrow> ret (Inr ())
                         | Some path \<Rightarrow> lift_io (fs_remove_file E path));
                   ret (Finished ())
                 }
             }
           | _ \<Rightarrow> ret (Finished ()));
        case released of
          Panicked \<Rightarrow> ret Panicked
        | Finished _ \<Rightarrow> do {
            removed \<leftarrow> vms_remove u;
            _ \<leftarrow> (case removed of
                    Some (Running inst _) \<Rightarrow> lift_io (drop_instance inst)
                  | _ \<Rightarrow> ret ());
            ret (Finished ())
          }
      })"

section \<open>The create handler\<close>

text \<open>After a failure of the network task: the subnet goes back.\<close>

definition create_unwind :: "subnet_allocation \<Rightarrow> anyhow \<Rightarrow> api_error outcome handler" where
  "create_unwind subnet e = do {
     r \<leftarrow> pool_lock_release (sub_index subnet);
     case r of
       Panicked \<Rightarrow> ret Panicked
     | Finished _ \<Rightarrow> ret (Finished (api_from_anyhow e))
   }"

text \<open>The second lock window after a failed setup, up to the release of the subnet.\<close>

definition create_fail_begin :: "env \<Rightarrow> uuid \<Rightarrow> vm_resources option handler" where
  "create_fail_begin E u = do {
     removed \<leftarrow> vms_remove u;
     case removed of
       None \<Rightarrow> ret None
     | Some entry \<Rightarrow> do {
         _ \<leftarrow> lift_io (teardown_entry E entry);
         ret (Some (entry_resources entry))
       }
   }"

definition create_fail :: "env \<Rightarrow> uuid \<Rightarrow> unit outcome handler" where
  "create_fail E u = do {
     removed \<leftarrow> create_fail_begin E u;
     case removed of
       None \<Rightarrow> ret (Finished ())
     | Some r \<Rightarrow> release_resources E r
   }"

text \<open>The second lock window after a successful setup. The result says whether the instance
  was moved into the map; an entry that is not a placeholder is dropped.\<close>

definition create_upgrade :: "uuid \<Rightarrow> instance_handle \<Rightarrow> bool handler" where
  "create_upgrade u inst = do {
     removed \<leftarrow> vms_remove u;
     case removed of
       Some (Creating resources) \<Rightarrow> do {
         _ \<leftarrow> vms_insert u (Running inst resources);
         ret True
       }
     | Some (Running old _) \<Rightarrow> do {
         _ \<leftarrow> lift_io (drop_instance old);
         ret False
       }
     | None \<Rightarrow> ret False
   }"

definition report_vm :: "env \<Rightarrow> uuid \<Rightarrow> u8 \<Rightarrow> u32 \<Rightarrow> unit handler" where
  "report_vm E u vcpus memory_mb = do {
     s \<leftarrow> get_app;
     case st_gateway s of
       None \<Rightarrow> ret ()
     | Some client \<Rightarrow> do {
         _ \<leftarrow> lift_io (gw_register_vm E client u vcpus memory_mb);
         ret ()
       }
   }"

text \<open>The end of the handler; an instance that was not moved is dropped with its variable.\<close>

definition create_finish ::
  "env \<Rightarrow> uuid \<Rightarrow> u8 \<Rightarrow> u32 \<Rightarrow> subnet_allocation \<Rightarrow> instance_handle \<Rightarrow> instance_info \<Rightarrow> bool \<Rightarrow>
   create_vm_response handler" where
  "create_finish E u vcpus memory_mb subnet inst desc installed = do {
     _ \<leftarrow> report_vm E u vcpus memory_mb;
     _ \<leftarrow> (if installed then ret () else lift_io (drop_instance inst));
     ret \<lparr>cr_id = u, cr_vcpus = vcpus, cr_memory_mb = memory_mb, cr_state = info_state desc,
          cr_vmm_version = vmm_version desc, cr_guest_ip = ipv4_to_string (guest_ip subnet)\<rparr>
   }"

definition create_guarded ::
  "env \<Rightarrow> uuid \<Rightarrow> u8 \<Rightarrow> u32 \<Rightarrow> subnet_allocation \<Rightarrow> (api_error + create_vm_response) outcome handler" where
  "create_guarded E u vcpus memory_mb subnet = do {
     r \<leftarrow> create_setup E u vcpus memory_mb subnet;
     case r of
       Inl e \<Rightarrow> do {
         f \<leftarrow> create_fail E u;
         (case f of
            Panicked \<Rightarrow> do {
              _ \<leftarrow> create_guard_drop E True True u;
              ret Panicked
            }
          | Finished _ \<Rightarrow> ret (Finished (Inl (api_from_anyhow e))))
       }
     | Inr (inst, desc) \<Rightarrow> do {
         installed \<leftarrow> create_upgrade u inst;
         resp \<leftarrow> create_finish E u vcpus memory_mb subnet inst desc installed;
         ret (Finished (Inr resp))
       }
   }"

definition request_keys :: "create_vm_request option \<Rightarrow> string list" where
  "request_keys req = (case req of None \<Rightarrow> [] | Some r \<Rightarrow> rq_ssh_keys r)"

definition create_networked ::
  "env \<Rightarrow> uuid \<Rightarrow> u8 \<Rightarrow> u32 \<Rightarrow> string list \<Rightarrow> subnet_allocation \<Rightarrow>
   (api_error + create_vm_response) outcome handler" where
  "create_networked E u vcpus memory_mb keys subnet = do {
     n \<leftarrow> create_network E subnet;
     case n of
       None \<Rightarrow> ret (Finished (Inl (api_from_anyhow [''Networking setup task panicked''])))
     | Some (Inl e) \<Rightarrow> do {
         r \<leftarrow> create_unwind subnet e;
         (case r of
            Panicked \<Rightarrow> ret Panicked
          | Finished err \<Rightarrow> ret (Finished (Inl err)))
       }
     | Some (Inr handles) \<Rightarrow> do {
         r \<leftarrow> create_reserve E u vcpus memory_mb keys subnet handles;
         (case r of
            Panicked \<Rightarrow> ret Panicked
          | Finished (Inl err) \<Rightarrow> ret (Finished (Inl err))
          | Finished (Inr _) \<Rightarrow> create_guarded E u vcpus memory_mb subnet)
       }
   }"

definition create ::
  "env \<Rightarrow> uuid \<Rightarrow> create_vm_request option \<Rightarrow> (api_error + create_vm_response) outcome handler" where
  "create E u req =
     (case create_validate req of
        Inl e \<Rightarrow> ret (Finished (Inl e))
      | Inr (vcpus, memory_mb) \<Rightarrow> do {
          c \<leftarrow> create_copy_rootfs E u;
          case c of
            Inl e \<Rightarrow> ret (Finished (Inl e))
          | Inr _ \<Rightarrow> do {
              a \<leftarrow> create_alloc;
              case a of
                Inl e \<Rightarrow> ret (Finished (Inl e))
              | Inr subnet \<Rightarrow> create_networked E u vcpus memory_mb (request_keys req) subnet
            }
        })"

section \<open>Getting and deleting\<close>

definition get_vm :: "env \<Rightarrow> uuid \<Rightarrow> (api_error + instance_info) handler" where
  "get_vm E u = do {
     s \<leftarrow> get_app;
     case hm_get (st_vms s) u of
       None \<Rightarrow> ret (Inl (api_not_found ''VM not found''))
     | Some (Creating _) \<Rightarrow> ret (Inl (api_conflict ''VM is still being created''))
     | Some (Running inst _) \<Rightarrow> do {
         d \<leftarrow> lift_io (sdk_describe E inst);
         (case d of
            Inl e \<Rightarrow> ret (Inl (api_from_sdk e))
          | Inr desc \<Rightarrow> ret (Inr desc))
       }
   }"

text \<open>\<open>delete\<close> up to the stop request, and from there to the lock on the pool.\<close>

definition delete_take :: "uuid \<Rightarrow> (api_error + instance_handle \<times> vm_resources) handler" where
  "delete_take u = do {
     removed \<leftarrow> vms_remove u;
     case removed of
       None \<Rightarrow> ret (Inl (api_not_found ''VM not found''))
     | Some (Creating r) \<Rightarrow> do {
         _ \<leftarrow> vms_insert u (Creating r);
         ret (Inl (api_conflict ''VM is still being created, try again shortly''))
       }
     | Some (Running inst r) \<Rightarrow> ret (Inr (inst, r))
   }"

definition delete_stop :: "env \<Rightarrow> instance_handle \<Rightarrow> vm_resources \<Rightarrow> unit handler" where
  "delete_stop E inst r = do {
     _ \<leftarrow> lift_io (stop_and_drop E inst);
     lift_io (teardown_network E r)
   }"

definition delete_begin :: "env \<Rightarrow> uuid \<Rightarrow> (api_error + vm_resources) handler" where
  "delete_begin E u = do {
     taken \<leftarrow> delete_take u;
     case taken of
       Inl e \<Rightarrow> ret (Inl e)
     | Inr (inst, r) \<Rightarrow> do {
         _ \<leftarrow> delete_stop E inst r;
         ret (Inr r)
       }
   }"

definition deregister_vm :: "env \<Rightarrow> uuid \<Rightarrow> unit handler" where
  "deregister_vm E u = do {
     s \<leftarrow> get_app;
     case st_gateway s of
       None \<Rightarrow> ret ()
     | Some client \<Rightarrow> do {
         _ \<leftarrow> lift_io (gw_deregister_vm E client u);
         ret ()
       }
   }"

definition delete_finish :: "env \<Rightarrow> uuid \<Rightarrow> vm_resources \<Rightarrow> json outcome handler" where
  "delete_finish E u r = do {
     released \<leftarrow> release_resources E r;
     case released of
       Panicked \<Rightarrow> ret Panicked
     | Finished _ \<Rightarrow> do {
         _ \<leftarrow> deregister_vm E u;
         ret (Finished (JObj [(''id'', JStr (env_uuid_to_string E u)), (''deleted'', JBool True)]))
       }
   }"

definition delete_vm :: "env \<Rightarrow> uuid \<Rightarrow> (api_error + json) outcome handler" where
  "delete_vm E u = do {
     b \<leftarrow> delete_begin E u;
     case b of
       Inl e \<Rightarrow> ret (Finished (Inl e))
     | Inr r \<Rightarrow> do {
         f \<leftarrow> delete_finish E u r;
         (case f of
            Panicked \<Rightarrow> ret Panicked
          | Finished body \<Rightarrow> ret (Finished (Inr body)))
       }
   }"

section \<open>What each segment does to the shared state\<close>

named_theorems segs \<open>effects of the handlers' segments on the shared state\<close>

lemma kept_entry_bool [kept]:
  "(\<And>r. app_kept (f r)) \<Longrightarrow> (\<And>i r. app_kept (g i r)) \<Longrightarrow> app_kept n \<Longrightarrow>
   app_kept (case x of None \<Rightarrow> n | Some e \<Rightarrow> (case e of Creating r \<Rightarrow> f r | Running i r \<Rightarrow> g i r))"
  by (simp split: option.split vm_entry.split)

lemma app_kept_list_entry [kept]: "app_kept (list_entry E u entry)"
  unfolding list_entry_def Let_def by (intro kept)

lemma app_kept_list_entries [kept]: "app_kept (list_entries E m)"
proof (induction m)
  case Nil
  then show ?case by (simp add: app_kept_return)
next
  case (Cons p m)
  then show ?case by (cases p) (simp, intro kept)
qed

lemma app_kept_handlers [kept]:
  "app_kept (list_vms E)" "app_kept (get_vm E u)" "app_kept (create_copy_rootfs E u)"
  "app_kept (create_network E subnet)" "app_kept (create_setup E u v m subnet)"
  "app_kept (report_vm E u v m)" "app_kept (deregister_vm E u)"
  "app_kept (create_finish E u v m subnet inst desc installed)" "app_kept (delete_stop E inst r)"
  unfolding list_vms_def get_vm_def create_copy_rootfs_def create_network_def create_setup_def
    report_vm_def deregister_vm_def create_finish_def delete_stop_def by (intro kept | assumption)+

lemma run_create_alloc [segs]:
  "run_state create_alloc w =
     (case pool_allocate (st_pool (app w)) of
        None \<Rightarrow> (Inl (api_conflict ''No available network subnets''), w)
      | Some (a, p) \<Rightarrow> (Inr a, w\<lparr>app := (app w)\<lparr>st_pool := p\<rparr>\<rparr>))"
  by (simp add: create_alloc_def prims split: option.split)

lemma run_create_unwind [segs]:
  "run_state (create_unwind subnet e) w =
     (case pool_release (sub_index subnet) (st_pool (app w)) of
        None \<Rightarrow> (Panicked, w)
      | Some p \<Rightarrow> (Finished (api_from_anyhow e), w\<lparr>app := (app w)\<lparr>st_pool := p\<rparr>\<rparr>))"
  by (simp add: create_unwind_def prims split: option.split)

lemma rollback_network_app [segs]:
  "run_state (rollback_network E subnet handles) w = (r, w') \<Longrightarrow>
   (case pool_release (sub_index subnet) (st_pool (app w)) of
      None \<Rightarrow> r = Panicked \<and> app w' = app w
    | Some p \<Rightarrow> r = Finished () \<and> app w' = (app w)\<lparr>st_pool := p\<rparr>)"
  by (auto simp: rollback_network_def prims split: option.splits)

text \<open>The first lock window either reserves, or refuses and gives the subnet back.\<close>

lemma create_reserve_app [segs]:
  assumes "run_state (create_reserve E u v m keys subnet handles) w = (r, w')"
    and "allocated_vcpus E (st_vms (app w)) = Some av"
    and "allocated_memory E (st_vms (app w)) = Some am"
  shows "(case capacity_check (st_capacity (app w)) av am v m of
      None \<Rightarrow> r = Finished (Inr ()) \<and> hist w' = hist w
        \<and> app w' = (app w)\<lparr>st_vms := hm_insert u
            (Creating (new_resources E (st_jailer (app w)) u v m keys subnet handles)) (st_vms (app w))\<rparr>
    | Some e \<Rightarrow> (case pool_release (sub_index subnet) (st_pool (app w)) of
          None \<Rightarrow> r = Panicked \<and> app w' = app w
        | Some p \<Rightarrow> r = Finished (Inl e) \<and> app w' = (app w)\<lparr>st_pool := p\<rparr>))"
proof (cases "capacity_check (st_capacity (app w)) av am v m")
  case None
  with assms show ?thesis by (auto simp: create_reserve_def prims)
next
  case (Some e)
  obtain q w1 where q: "run_state (rollback_network E subnet handles) w = (q, w1)" by fastforce
  from rollback_network_app [OF q] assms Some q show ?thesis
    by (auto simp: create_reserve_def prims split: option.splits)
qed

lemma create_fail_begin_app [segs]:
  "run_state (create_fail_begin E u) w = (r, w') \<Longrightarrow>
   r = map_option entry_resources (hm_get (st_vms (app w)) u)
   \<and> app w' = (app w)\<lparr>st_vms := hm_remove u (st_vms (app w))\<rparr>"
  by (auto simp: create_fail_begin_def prims split: option.splits)

lemma release_resources_app [segs]:
  "run_state (release_resources E res) w = (r, w') \<Longrightarrow>
   (case vr_subnet_index res of
      None \<Rightarrow> r = Finished () \<and> app w' = app w
    | Some i \<Rightarrow> (case pool_release i (st_pool (app w)) of
          None \<Rightarrow> r = Panicked \<and> app w' = app w
        | Some p \<Rightarrow> r = Finished () \<and> app w' = (app w)\<lparr>st_pool := p\<rparr>))"
  by (auto simp: release_resources_def prims split: option.splits)

lemma create_upgrade_app [segs]:
  "run_state (create_upgrade u inst) w = (r, w') \<Longrightarrow>
   (case hm_get (st_vms (app w)) u of
      Some (Creating res) \<Rightarrow> r \<and> hist w' = hist w
        \<and> app w' = (app w)\<lparr>st_vms := hm_insert u (Running inst res) (hm_remove u (st_vms (app w)))\<rparr>
    | _ \<Rightarrow> \<not> r \<and> app w' = (app w)\<lparr>st_vms := hm_remove u (st_vms (app w))\<rparr>)"
  by (auto simp: create_upgrade_def prims split: option.splits vm_entry.splits)

lemma delete_take_app [segs]:
  "run_state (delete_take u) w = (r, w') \<Longrightarrow> hist w' = hist w \<and>
   (case hm_get (st_vms (app w)) u of
      None \<Rightarrow> r = Inl (api_not_found ''VM not found'')
        \<and> app w' = (app w)\<lparr>st_vms := hm_remove u (st_vms (app w))\<rparr>
    | Some (Creating res) \<Rightarrow>
        r = Inl (api_conflict ''VM is still being created, try again shortly'')
        \<and> app w' = (app w)\<lparr>st_vms := hm_insert u (Creating res) (hm_remove u (st_vms (app w)))\<rparr>
    | Some (Running inst res) \<Rightarrow>
        r = Inr (inst, res) \<and> app w' = (app w)\<lparr>st_vms := hm_remove u (st_vms (app w))\<rparr>)"
  by (auto simp: delete_take_def prims split: option.splits vm_entry.splits)

lemma delete_begin_app [segs]:
  "run_state (delete_begin E u) w = (r, w') \<Longrightarrow>
   (case hm_get (st_vms (app w)) u of
      None \<Rightarrow> r = Inl (api_not_found ''VM not found'')
        \<and> app w' = (app w)\<lparr>st_vms := hm_remove u (st_vms (app w))\<rparr>
    | Some (Creating res) \<Rightarrow>
        r = Inl (api_conflict ''VM is still being created, try again shortly'')
        \<and> app w' = (app w)\<lparr>st_vms := hm_insert u (Creating res) (hm_remove u (st_vms (app w)))\<rparr>
    | Some (Running inst res) \<Rightarrow>
        r = Inr res \<and> app w' = (app w)\<lparr>st_vms := hm_remove u (st_vms (app w))\<rparr>)"
  by (auto simp: delete_begin_def delete_take_def delete_stop_def prims split: option.splits vm_entry.splits)

lemma delete_finish_app [segs]:
  assumes "run_state (delete_finish E u res) w = (r, w')"
  shows "(case vr_subnet_index res of
      None \<Rightarrow> r \<noteq> Panicked \<and> app w' = app w
    | Some i \<Rightarrow> (case pool_release i (st_pool (app w)) of
          None \<Rightarrow> r = Panicked \<and> app w' = app w
        | Some p \<Rightarrow> r \<noteq> Panicked \<and> app w' = (app w)\<lparr>st_pool := p\<rparr>))"
proof -
  obtain q w1 where q: "run_state (release_resources E res) w = (q, w1)" by fastforce
  have d: "app (snd (run_state (deregister_vm E u) w1)) = app w1"
    using app_kept_handlers(7) by (simp add: app_kept_def)
  show ?thesis
    using assms q d release_resources_app [OF q]
    by (cases q) (auto simp: delete_finish_def split: option.splits prod.splits)
qed

text \<open>The guard, for a placeholder and for anything else.\<close>

lemma create_guard_drop_app [segs]:
  assumes "run_state (create_guard_drop E vms_free pool_free u) w = (r, w')"
  shows "(if \<not> vms_free then r = Finished () \<and> w' = w
    else let removed = (app w)\<lparr>st_vms := hm_remove u (st_vms (app w))\<rparr>
      in case hm_get (st_vms (app w)) u of
           Some (Creating res) \<Rightarrow>
             (case vr_subnet_index res of
                None \<Rightarrow> r = Finished () \<and> app w' = removed
              | Some i \<Rightarrow>
                  if \<not> pool_free then r = Finished () \<and> app w' = removed
                  else (case pool_release i (st_pool (app w)) of
                          None \<Rightarrow> r = Panicked \<and> app w' = app w
                        | Some p \<Rightarrow> r = Finished () \<and> app w' = removed\<lparr>st_pool := p\<rparr>))
         | _ \<Rightarrow> r = Finished () \<and> app w' = removed)"
  using assms
  by (auto simp: create_guard_drop_def prims Let_def split: option.splits vm_entry.splits if_splits)

end
