(* ===== verification/Vm_Lifecycle.thy ===== *)
theory Vm_Lifecycle
  imports Handlers_Vm
begin

text \<open>
  What the handlers of \<open>src/handlers/vm.rs\<close> promise when a request runs alone: admission by
  capacity, the requests sent to the SDK, the resources a create takes and gives back, and
  what a delete undoes. The host is seen through three ledgers: the tap devices, the
  nftables rules and the rootfs copies.
\<close>

section \<open>Admission\<close>

definition entry_vcpus :: "vm_entry \<Rightarrow> nat" where
  "entry_vcpus e = unat (vr_vcpus (entry_resources e))"

definition entry_memory :: "vm_entry \<Rightarrow> nat" where
  "entry_memory e = unat (vr_memory_mb (entry_resources e))"

text \<open>No overcommit: what the entries hold, in exact arithmetic, fits the host.\<close>

definition fits :: "capacity \<Rightarrow> vm_map \<Rightarrow> bool" where
  "fits cap vms \<longleftrightarrow> hm_total entry_vcpus vms \<le> unat (cap_vcpus cap)
     \<and> hm_total entry_memory vms \<le> unat (allocatable_memory_mb cap)"

lemma fits_Nil [simp]: "fits cap []"
  by (simp add: fits_def)

lemma iter_sum_exact:
  "sum_list (map unat ws) < 2 ^ LENGTH('a) \<Longrightarrow>
   iter_sum E (ws :: 'a::len word list) = Some (sum_wrapping ws)
   \<and> unat (sum_wrapping ws) = sum_list (map unat ws)"
  by (simp add: iter_sum_def sum_checked_eq unat_sum_wrapping)

lemma allocated_vcpus_exact:
  assumes "fits cap vms"
  shows "\<exists>av. allocated_vcpus E vms = Some av \<and> unat av = hm_total entry_vcpus vms"
proof -
  let ?ws = "map (\<lambda>e. vr_vcpus (entry_resources e)) (hm_values vms)"
  have eq: "sum_list (map unat ?ws) = hm_total entry_vcpus vms"
    by (simp add: hm_total_def comp_def entry_vcpus_def [abs_def])
  with assms unat_lt_u8 [of "cap_vcpus cap"] have "sum_list (map unat ?ws) < 2 ^ LENGTH(8)"
    by (simp add: fits_def)
  from iter_sum_exact [OF this, of E] eq show ?thesis by (simp add: allocated_vcpus_def)
qed

lemma allocated_memory_exact:
  assumes "fits cap vms"
  shows "\<exists>am. allocated_memory E vms = Some am \<and> unat am = hm_total entry_memory vms"
proof -
  let ?ws = "map (\<lambda>e. ucast (vr_memory_mb (entry_resources e)) :: u64) (hm_values vms)"
  have eq: "sum_list (map unat ?ws) = hm_total entry_memory vms"
    by (simp add: hm_total_def comp_def entry_memory_def [abs_def] word_nat)
  with assms unat_lt_u64 [of "allocatable_memory_mb cap"]
  have "sum_list (map unat ?ws) < 2 ^ LENGTH(64)"
    by (simp add: fits_def)
  from iter_sum_exact [OF this, of E] eq show ?thesis by (simp add: allocated_memory_def)
qed

lemma capacity_check_None:
  assumes "fits cap vms" and "unat av = hm_total entry_vcpus vms"
    and "unat am = hm_total entry_memory vms"
  shows "capacity_check cap av am v m = None \<longleftrightarrow>
    hm_total entry_vcpus vms + unat v \<le> unat (cap_vcpus cap)
    \<and> hm_total entry_memory vms + unat m \<le> unat (allocatable_memory_mb cap)"
  using assms
  by (auto simp: capacity_check_def Let_def fits_def word_less_nat_alt word_nat)

lemma capacity_check_conflict:
  "capacity_check cap av am v m = Some e \<Longrightarrow> err_status e = 409"
  by (auto simp: capacity_check_def Let_def api_conflict_def split: if_splits)

text \<open>C20: Admission never overcommits and never refuses what fits. While the entries fit the
  host, in whatever order the map is iterated and with or without overflow checks, the sums
  the code computes are exact; the request is admitted exactly when its vCPUs and its memory
  fit into what is left, the placeholder then holds them, and the entries still fit. A
  refusal is a 409 that leaves the map as it was and puts the subnet back.\<close>

theorem create_reserve_admission:
  assumes "fits (st_capacity (app w)) (st_vms (app w))" and "hm_get (st_vms (app w)) u = None"
    and "pool_ok (st_pool (app w))" and "sub_index subnet \<in> pool_range"
    and "run_state (create_reserve E u v m keys subnet handles) w = (r, w')"
  shows "(if hm_total entry_vcpus (st_vms (app w)) + unat v \<le> unat (cap_vcpus (st_capacity (app w)))
           \<and> hm_total entry_memory (st_vms (app w)) + unat m
               \<le> unat (allocatable_memory_mb (st_capacity (app w)))
       then r = Finished (Inr ()) \<and> fits (st_capacity (app w')) (st_vms (app w'))
         \<and> hm_get (st_vms (app w')) = (hm_get (st_vms (app w)))(u \<mapsto>
             Creating (new_resources E (st_jailer (app w)) u v m keys subnet handles))
         \<and> st_pool (app w') = st_pool (app w)
       else (\<exists>e. r = Finished (Inl e) \<and> err_status e = 409) \<and> st_vms (app w') = st_vms (app w)
         \<and> pool_used (st_pool (app w')) = pool_used (st_pool (app w)) - {sub_index subnet})"
proof -
  obtain av where av: "allocated_vcpus E (st_vms (app w)) = Some av"
    "unat av = hm_total entry_vcpus (st_vms (app w))" using allocated_vcpus_exact assms(1) by blast
  obtain am where am: "allocated_memory E (st_vms (app w)) = Some am"
    "unat am = hm_total entry_memory (st_vms (app w))" using allocated_memory_exact assms(1) by blast
  obtain p where p: "pool_release (sub_index subnet) (st_pool (app w)) = Some p"
    "pool_used p = pool_used (st_pool (app w)) - {sub_index subnet}"
    using subnets.release_ok [OF assms(3,4)] by blast
  note eff = create_reserve_app [OF assms(5) av(1) am(1)]
  note iff = capacity_check_None [OF assms(1) av(2) am(2), of v m]
  show ?thesis
  proof (cases "capacity_check (st_capacity (app w)) av am v m")
    case None
    with iff eff assms(2) show ?thesis
      by (auto simp: fits_def hmap entry_vcpus_def entry_memory_def new_resources_def)
  next
    case (Some e)
    with iff eff p capacity_check_conflict [OF Some] show ?thesis by auto
  qed
qed

section \<open>The guest's context id\<close>

lemma bit_guest_cid:
  assumes "n < 32"
  shows "bit (guest_cid_of u) n \<longleftrightarrow> (if n < 2 then True else bit u n \<and> n < 31)"
proof -
  have k: "(0x7FFFFFFF :: u32) = mask 31" by (simp add: mask_eq_exp_minus_1)
  have c: "bit (3 :: u32) n \<longleftrightarrow> n < 2"
    using bit_mask_iff [of 2 n, where ?'a = "u32"] assms by (simp add: mask_eq_exp_minus_1)
  show ?thesis
    unfolding guest_cid_of_def k bit_or_iff bit_and_iff bit_mask_iff c bit_ucast_iff
    using assms by auto
qed

text \<open>The vsock context id derived from a UUID is at least 3, so never one of the reserved
  ids, and its top bit is clear. It keeps the UUID's bits 2 to 30 and nothing else: two VMs
  get the same context id exactly when their UUIDs agree there.\<close>

theorem guest_cid_range:
  "3 \<le> unat (guest_cid_of u) \<and> unat (guest_cid_of u) < 2147483648
   \<and> (guest_cid_of u = guest_cid_of u' \<longleftrightarrow> and (drop_bit 2 u) (mask 29) = and (drop_bit 2 u') (mask 29))"
proof -
  have "(3 :: u32) \<le> guest_cid_of u"
    unfolding guest_cid_of_def by (rule le_word_or1)
  then have lower: "3 \<le> unat (guest_cid_of u)" by (simp add: word_le_nat_alt)
  have "take_bit 31 (guest_cid_of u) = guest_cid_of u"
    by (rule bit_word_eqI) (auto simp: bit_take_bit_iff bit_guest_cid)
  then have "unat (guest_cid_of u) = take_bit 31 (unat (guest_cid_of u))"
    by (metis unsigned_take_bit_eq)
  then have upper: "unat (guest_cid_of u) < 2147483648"
    using take_bit_nat_less_exp [of 31 "unat (guest_cid_of u)"] by simp
  have "guest_cid_of u = guest_cid_of u' \<longleftrightarrow> (\<forall>n < 32. bit (guest_cid_of u) n = bit (guest_cid_of u') n)"
    by (auto intro: bit_word_eqI)
  also have "\<dots> \<longleftrightarrow> (\<forall>n. 2 \<le> n \<and> n < 31 \<longrightarrow> bit u n = bit u' n)"
  proof (rule iffI; intro allI impI)
    fix n :: nat
    assume "\<forall>n < 32. bit (guest_cid_of u) n = bit (guest_cid_of u') n" "2 \<le> n \<and> n < 31"
    then show "bit u n = bit u' n" by (auto dest: spec [of _ n] simp: bit_guest_cid)
  qed (auto simp: bit_guest_cid)
  also have "\<dots> \<longleftrightarrow> (\<forall>n < 29. bit u (2 + n) = bit u' (2 + n))"
  proof (rule iffI; intro allI impI)
    fix n :: nat
    assume "\<forall>n < 29. bit u (2 + n) = bit u' (2 + n)" "2 \<le> n \<and> n < 31"
    then have "bit u (2 + (n - 2)) = bit u' (2 + (n - 2))" by (elim allE [of _ "n - 2"]) linarith
    moreover have "2 + (n - 2) = n" using \<open>2 \<le> n \<and> n < 31\<close> by linarith
    ultimately show "bit u n = bit u' n" by (simp only:)
  qed auto
  also have "\<dots> \<longleftrightarrow> and (drop_bit 2 u) (mask 29) = and (drop_bit 2 u') (mask 29)"
  proof (rule iffI)
    assume "\<forall>n < 29. bit u (2 + n) = bit u' (2 + n)"
    then show "and (drop_bit 2 u) (mask 29) = and (drop_bit 2 u') (mask 29)"
      by (intro bit_word_eqI) (auto simp: bit_and_iff bit_drop_bit_eq bit_mask_iff)
  next
    assume eq: "and (drop_bit 2 u) (mask 29) = and (drop_bit 2 u') (mask 29)"
    show "\<forall>n < 29. bit u (2 + n) = bit u' (2 + n)"
    proof (intro allI impI)
      fix n :: nat
      assume "n < 29"
      moreover have "bit (and (drop_bit 2 u) (mask 29)) n = bit (and (drop_bit 2 u') (mask 29)) n"
        by (simp only: eq)
      ultimately show "bit u (2 + n) = bit u' (2 + n)"
        by (simp add: bit_and_iff bit_drop_bit_eq bit_mask_iff)
    qed
  qed
  finally show ?thesis using lower upper by blast
qed

section \<open>Setting up an instance\<close>

definition accepted :: "instance_handle \<Rightarrow> sdk_call \<Rightarrow> event" where
  "accepted inst c = EvSdk inst c (Inr ())"

lemma sdk_sequence_run:
  assumes "run_state (sdk_sequence E inst cs) h = (r, h')"
  shows "(r = Inr () \<and> h' = h @ map (\<lambda>p. accepted inst (fst p)) cs)
    \<or> (\<exists>n e. n < length cs \<and> r = Inl (snd (cs ! n) e)
        \<and> h' = h @ map (\<lambda>p. accepted inst (fst p)) (take n cs) @ [EvSdk inst (fst (cs ! n)) (Inl e)])"
  using assms
proof (induction cs arbitrary: h)
  case (Cons p cs)
  obtain c ctx where p: "p = (c, ctx)" by fastforce
  show ?case
  proof (cases "env_sdk E h inst c")
    case (Inl e)
    with Cons.prems p show ?thesis
      by (intro disjI2 exI [of _ 0] exI [of _ e]) (simp add: sdk_request_def)
  next
    case (Inr u)
    with Cons.prems p
    have "run_state (sdk_sequence E inst cs) (h @ [accepted inst c]) = (r, h')"
      by (simp add: sdk_request_def accepted_def)
    from Cons.IH [OF this] show ?thesis
    proof (elim disjE exE conjE)
      fix n e
      assume "n < length cs" "r = Inl (snd (cs ! n) e)"
        "h' = (h @ [accepted inst c]) @ map (\<lambda>p. accepted inst (fst p)) (take n cs)
              @ [EvSdk inst (fst (cs ! n)) (Inl e)]"
      with p show ?thesis by (intro disjI2 exI [of _ "Suc n"] exI [of _ e]) simp
    qed (simp add: p)
  qed
qed simp

text \<open>The requests of a setup in the order they are sent.\<close>

definition setup_calls :: "env \<Rightarrow> jailer_config \<Rightarrow> uuid \<Rightarrow> u8 \<Rightarrow> u32 \<Rightarrow> subnet_allocation \<Rightarrow> sdk_call list" where
  "setup_calls E jc u v m subnet = map fst (instance_requests E jc u v m subnet)"

lemma setup_calls_shape:
  "length (setup_calls E jc u v m subnet) = 7" "hd (setup_calls E jc u v m subnet) = StartVmm"
  "last (setup_calls E jc u v m subnet) = StartInstance"
  "StartInstance \<notin> set (butlast (setup_calls E jc u v m subnet))"
  by (simp_all add: setup_calls_def instance_requests_def)


section \<open>Host resources\<close>

text \<open>The three ledgers together, and the operations that leave all of them alone.\<close>

definition host_view :: "history \<Rightarrow> string set \<times> int \<times> string set" where
  "host_view h = (live_taps h, live_rules h, live_copies h)"

lemma host_view_Nil [simp]: "host_view [] = ({}, 0, {})"
  by (simp add: host_view_def live_rules_def)

definition ledger_neutral :: "event \<Rightarrow> bool" where
  "ledger_neutral e \<longleftrightarrow>
     (\<forall>s. tap_step s e = s) \<and> (\<forall>n. rule_step n e = n) \<and> (\<forall>f. copy_step f e = f)"

lemma ledger_neutral_events [simp]:
  "ledger_neutral (EvBuild jo b)" "ledger_neutral (EvSdk i c q)" "ledger_neutral (EvDescribe i d)"
  "ledger_neutral (EvDropInstance i)" "ledger_neutral (EvHttp rq s)"
  "ledger_neutral (EvSpawnBlocking j)" "ledger_neutral (EvQuery a b')"
  by (simp_all add: ledger_neutral_def tap_step_def rule_step_def copy_step_def)

lemma neutral_view:
  assumes "appends ledger_neutral m"
  shows "host_view (snd (run_state m h)) = host_view h"
proof -
  obtain es where es: "snd (run_state m h) = h @ es" "\<forall>e \<in> set es. ledger_neutral e"
    using assms unfolding appends_def by blast
  have "ledger tap_step s es = s" "ledger rule_step n es = n" "ledger copy_step f es = f" for s n f
    using es(2) by (auto intro!: ledger_ignored [where P = ledger_neutral] simp: ledger_neutral_def)
  with es(1) show ?thesis by (simp add: host_view_def live_taps_def live_rules_def live_copies_def)
qed

lemma appends_sdk_sequence: "appends ledger_neutral (sdk_sequence E inst cs)"
proof (induction cs)
  case Nil
  then show ?case by (simp add: appends_return)
next
  case (Cons p cs)
  then show ?case by (cases p) (simp add: sdk_request_def, intro footprint, simp)
qed

lemma appends_setup: "appends ledger_neutral (setup_firecracker_instance E jc u v m subnet)"
  unfolding setup_firecracker_instance_def sdk_build_def sdk_describe_def drop_instance_def
  by (intro footprint appends_sdk_sequence ledger_neutral_events)

lemma appends_stop_and_drop: "appends ledger_neutral (stop_and_drop E inst)"
  unfolding stop_and_drop_def sdk_request_def drop_instance_def by (intro footprint ledger_neutral_events)

lemma appends_gw_neutral:
  "appends ledger_neutral (gw_register_vm E c u v m)" "appends ledger_neutral (gw_deregister_vm E c u)"
  unfolding gw_register_vm_def gw_deregister_vm_def send_checked_def http_send_def
  by (intro footprint ledger_neutral_events)+

text \<open>Commands on the network leave the copies alone, file operations the network.\<close>

lemma appends_ledger_kept:
  assumes "appends P m" and "\<And>s e. P e \<Longrightarrow> step s e = s"
  shows "ledger step s (snd (run_state m h)) = ledger step s h"
proof -
  obtain es where "snd (run_state m h) = h @ es" "\<forall>e \<in> set es. P e"
    using assms(1) unfolding appends_def by blast
  with ledger_ignored [where P = P and step = step, OF assms(2)] show ?thesis by simp
qed

lemma is_exec_iff: "is_exec program e \<longleftrightarrow> (\<exists>as r. e = EvExec program as r)"
  by (cases e) (simp_all add: is_exec_def)

lemma is_copy_event_iff:
  "is_copy_event e \<longleftrightarrow> (\<exists>p as r. e = EvExec p as r \<and> (p = ''cp'' \<or> p = ''chown''))"
  by (cases e) (simp_all add: is_copy_event_def)

lemma is_remove_file_iff: "is_remove_file e \<longleftrightarrow> (\<exists>p r. e = EvRemoveFile p r)"
  by (cases e) (simp_all add: is_remove_file_def)

lemma files_ignored_by_net:
  "is_copy_event e \<or> is_remove_file e \<Longrightarrow> tap_step s e = s"
  "is_copy_event e \<or> is_remove_file e \<Longrightarrow> rule_step n e = n"
  by (auto simp: is_copy_event_iff is_remove_file_iff tap_step_def rule_step_def)

lemma net_keeps_copies:
  "appends (is_exec program) m \<Longrightarrow> program = ''ip'' \<or> program = ''nft'' \<Longrightarrow>
   live_copies (snd (run_state m h)) = live_copies h"
  unfolding live_copies_def
  by (erule appends_ledger_kept) (auto simp: copy_step_def is_exec_iff)

lemma network_keeps_copies:
  "live_copies (snd (run_state (create_tap E n ip) h)) = live_copies h"
  "live_copies (snd (run_state (delete_tap E n) h)) = live_copies h"
  "live_copies (snd (run_state (add_nat_rules E gip tap iface) h)) = live_copies h"
  "live_copies (snd (run_state (remove_nat_rules E hs) h)) = live_copies h"
  by (simp_all add: net_keeps_copies [OF appends_create_tap] net_keeps_copies [OF appends_delete_tap]
      net_keeps_copies [OF appends_add_nat_rules] net_keeps_copies [OF appends_remove_nat_rules])

lemma files_keep_net:
  assumes m: "appends P m" and P: "\<And>e. P e \<Longrightarrow> is_copy_event e \<or> is_remove_file e"
  shows "live_taps (snd (run_state m h)) = live_taps h \<and> live_rules (snd (run_state m h)) = live_rules h"
  unfolding live_taps_def live_rules_def
  using appends_ledger_kept [OF m, of tap_step, OF files_ignored_by_net(1) [OF P]]
    appends_ledger_kept [OF m, of rule_step, OF files_ignored_by_net(2) [OF P]] by simp

lemma files_keep_network:
  "live_taps (snd (run_state (copy_rootfs E st src dst a g) h)) = live_taps h"
  "live_rules (snd (run_state (copy_rootfs E st src dst a g) h)) = live_rules h"
  "live_taps (snd (run_state (cleanup_rootfs_copy E p) h)) = live_taps h"
  "live_rules (snd (run_state (cleanup_rootfs_copy E p) h)) = live_rules h"
  by (simp_all add: files_keep_net [OF appends_copy_rootfs] files_keep_net [OF appends_cleanup_rootfs])

text \<open>
  A host whose cleanup commands work: \<open>nft\<close> echoes handles and deletes rules, a tap device
  and a file that exist can be deleted. Creating things may still fail in any way.
\<close>

definition tidy_host :: "env \<Rightarrow> bool" where
  "tidy_host E \<longleftrightarrow> nft_echoes_handles E \<and> nft_deletes_rules E
     \<and> (\<forall>h n. n \<in> live_taps h \<longrightarrow> succeeded (env_exec E h ''ip'' (ip_link_del n)))
     \<and> (\<forall>h p. p \<in> live_copies h \<longrightarrow> env_remove_file E h p = Inr ())"

lemma tidy_delete_tap:
  assumes "tidy_host E" and "n \<in> live_taps h"
  shows "host_view (snd (run_state (delete_tap E n) h)) = (live_taps h - {n}, live_rules h, live_copies h)"
proof -
  have s: "succeeded (env_exec E h ''ip'' (ip_link_del n))" using assms by (simp add: tidy_host_def)
  have "snd (run_state (delete_tap E n) h) = h @ [EvExec ''ip'' (ip_link_del n) (env_exec E h ''ip'' (ip_link_del n))]"
    using arg_cong [OF run_cmd_result [of E "''ip''" "ip_link_del n" h], of snd]
    by (auto simp: delete_tap_def split: prod.split)
  with s have "live_taps (snd (run_state (delete_tap E n) h)) = live_taps h - {n}" by simp
  then show ?thesis by (simp add: host_view_def delete_tap_keeps_rules network_keeps_copies)
qed

lemma tidy_remove_rules:
  "tidy_host E \<Longrightarrow>
   host_view (snd (run_state (remove_nat_rules E hs) h)) = (live_taps h, live_rules h - 2, live_copies h)"
  using remove_nat_rules_balance [of E hs h]
  by (simp add: host_view_def remove_nat_rules_keeps_taps network_keeps_copies tidy_host_def)

lemma tidy_link_del:
  "tidy_host E \<Longrightarrow> n \<in> live_taps h \<Longrightarrow>
   live_taps (snd (run_state (run_cmd E ''ip'' (ip_link_del n)) h)) = live_taps h - {n}"
  using arg_cong [OF run_cmd_result [of E "''ip''" "ip_link_del n" h], of snd]
  by (simp add: tidy_host_def)

lemma tidy_create_tap:
  assumes tidy: "tidy_host E" and fresh: "n \<notin> live_taps h"
  shows "host_view (snd (run_state (create_tap E n ip) h)) =
    (case fst (run_state (create_tap E n ip) h) of
       Inl _ \<Rightarrow> host_view h | Inr _ \<Rightarrow> (insert n (live_taps h), live_rules h, live_copies h))"
proof -
  obtain r1 h1 where c1: "run_state (run_cmd E ''ip'' (ip_tuntap_add n)) h = (r1, h1)" by fastforce
  obtain r2 h2 where c2: "run_state (run_cmd E ''ip'' (ip_addr_add n ip)) h1 = (r2, h2)" by fastforce
  obtain r3 h3 where c3: "run_state (run_cmd E ''ip'' (ip_link_up n)) h2 = (r3, h3)" by fastforce
  obtain d2 g2 where b2: "run_state (run_cmd E ''ip'' (ip_link_del n)) h2 = (d2, g2)" by fastforce
  obtain d3 g3 where b3: "run_state (run_cmd E ''ip'' (ip_link_del n)) h3 = (d3, g3)" by fastforce
  note c = c1 c2 c3 b2 b3
  have taps: "live_taps (snd (run_state (create_tap E n ip) h)) =
    (case fst (run_state (create_tap E n ip) h) of Inl _ \<Rightarrow> live_taps h | Inr _ \<Rightarrow> insert n (live_taps h))"
  proof (cases r1)
    case (Inl e)
    with run_tuntap_add(2) [OF c1 [unfolded Inl]] show ?thesis by (simp add: create_tap_def c)
  next
    case (Inr u)
    have l1: "live_taps h1 = insert n (live_taps h)" using run_tuntap_add(1) [OF c1 [unfolded Inr]] .
    have l2: "live_taps h2 = live_taps h1" using run_addr_up(1) [OF c2] .
    have l3: "live_taps h3 = live_taps h2" using run_addr_up(2) [OF c3] .
    have g2: "live_taps g2 = live_taps h2 - {n}" using tidy_link_del [OF tidy, of n h2] b2 l1 l2 by simp
    have g3: "live_taps g3 = live_taps h3 - {n}" using tidy_link_del [OF tidy, of n h3] b3 l1 l2 l3 by simp
    show ?thesis using Inr fresh l1 l2 l3 g2 g3
      by (cases r2; cases r3) (simp_all add: create_tap_def c)
  qed
  then show ?thesis
    by (simp add: host_view_def create_tap_keeps_rules network_keeps_copies split: sum.split)
qed

text \<open>The networking task: both the device and the rules, or nothing.\<close>

lemma tidy_setup_network:
  assumes tidy: "tidy_host E" and fresh: "n \<notin> live_taps h"
  shows "host_view (snd (run_state (setup_network E n ta ga iface) h)) =
    (case fst (run_state (setup_network E n ta ga iface) h) of
       Inl _ \<Rightarrow> host_view h
     | Inr _ \<Rightarrow> (insert n (live_taps h), live_rules h + 2, live_copies h))"
proof -
  obtain r1 h1 where c1: "run_state (create_tap E n ta) h = (r1, h1)" by fastforce
  obtain r2 h2 where c2: "run_state (add_nat_rules E ga n iface) h1 = (r2, h2)" by fastforce
  obtain u g where d: "run_state (delete_tap E n) h2 = (u, g)" by (cases "run_state (delete_tap E n) h2")
  note v1 = tidy_create_tap [OF tidy fresh, of ta, unfolded c1 fst_conv snd_conv]
  show ?thesis
  proof (cases r1)
    case (Inl e)
    with v1 c1 show ?thesis by (simp add: setup_network_def)
  next
    case r1: (Inr a)
    have e: "nft_echoes_handles E" "nft_deletes_rules E" using tidy by (simp_all add: tidy_host_def)
    have v2: "host_view h2 =
        (insert n (live_taps h), (case r2 of Inl _ \<Rightarrow> live_rules h | Inr _ \<Rightarrow> live_rules h + 2), live_copies h)"
      using v1 r1 add_nat_rules_balance [OF e, of ga n iface h1] add_nat_rules_keeps_taps [of E ga n iface h1]
        network_keeps_copies(3) [of E ga n iface h1]
      by (simp add: c2 host_view_def split: sum.splits)
    show ?thesis
    proof (cases r2)
      case (Inr hs)
      with v2 r1 c1 c2 show ?thesis by (simp add: setup_network_def)
    next
      case (Inl e2)
      with v2 have t: "n \<in> live_taps h2" by (simp add: host_view_def)
      from tidy_delete_tap [OF tidy this] v2 Inl r1 c1 c2 d fresh show ?thesis
        by (simp add: setup_network_def host_view_def)
    qed
  qed
qed

text \<open>The copy: present after a success, possibly present after a failure.\<close>

lemma copy_rootfs_view:
  "run_state (copy_rootfs E st src dst a g) h = (r, h') \<Longrightarrow>
   live_taps h' = live_taps h \<and> live_rules h' = live_rules h \<and>
   (live_copies h' = insert dst (live_copies h) \<or> (\<exists>e. r = Inl e) \<and> live_copies h' = live_copies h)"
  using files_keep_network(1,2) [of E st src dst a g h]
  by (auto simp: copy_rootfs_def command_output_def split: sum.splits if_splits)

text \<open>Giving everything back.\<close>

lemma tidy_teardown:
  assumes tidy: "tidy_host E" and "vr_tap_name r = Some n" "vr_nat_handles r = Some hs"
    and n: "n \<in> live_taps h"
  shows "host_view (snd (run_state (teardown_network E r) h)) =
    (live_taps h - {n}, live_rules h - 2, live_copies h)"
proof -
  obtain u h1 where d: "run_state (delete_tap E n) h = (u, h1)" by (cases "run_state (delete_tap E n) h")
  from tidy_delete_tap [OF tidy n] d tidy_remove_rules [OF tidy, of hs h1] assms(2,3)
  show ?thesis by (simp add: teardown_network_def host_view_def)
qed

lemma tidy_cleanup_copy:
  "tidy_host E \<Longrightarrow> host_view (snd (run_state (cleanup_rootfs_copy E p) h)) =
   (live_taps h, live_rules h, live_copies h - {p})"
  using live_copies_cleanup [of E p h] files_keep_network(3,4) [of E p h]
  by (cases "p \<in> live_copies h") (simp_all add: host_view_def tidy_host_def)

section \<open>Creating a VM\<close>

lemma api_status_simps [simp]:
  "err_status (api_from_anyhow e) = 500" "err_status (api_from_sdk m) = 500"
  "err_status (api_conflict m) = 409" "err_status (api_not_found m) = 404"
  "err_status (api_unprocessable m) = 422"
  by (simp_all add: api_from_anyhow_def api_from_sdk_def api_internal_def api_conflict_def
      api_not_found_def api_unprocessable_def)

text \<open>A failed setup takes the placeholder out and gives back all it holds.\<close>

lemma release_resources_view:
  assumes tidy: "tidy_host E" and i: "vr_subnet_index r = Some i" "i \<in> pool_range"
    and c: "vr_rootfs_copy r = Some p" and ok: "pool_ok (st_pool (app w))"
  shows "\<exists>w' q. run_state (release_resources E r) w = (Finished (), w')
    \<and> app w' = (app w)\<lparr>st_pool := q\<rparr> \<and> pool_ok q \<and> pool_used q = pool_used (st_pool (app w)) - {i}
    \<and> host_view (hist w') = (live_taps (hist w), live_rules (hist w), live_copies (hist w) - {p})"
proof -
  obtain q where "pool_release i (st_pool (app w)) = Some q" "pool_ok q"
    "pool_used q = pool_used (st_pool (app w)) - {i}" using subnets.release_ok [OF ok i(2)] by blast
  with i c tidy_cleanup_copy [OF tidy, of p "hist w"] show ?thesis
    by (simp add: release_resources_def prims) blast
qed

lemma create_fail_view:
  assumes tidy: "tidy_host E" and ok: "pool_ok (st_pool (app w))" and i: "sub_index a \<in> pool_range"
    and entry: "hm_get (st_vms (app w)) u = Some (Creating (new_resources E jc u v m keys a hs))"
    and tap: "sub_tap_name a \<in> live_taps (hist w)"
  shows "\<exists>w' q. run_state (create_fail E u) w = (Finished (), w')
    \<and> app w' = (app w)\<lparr>st_vms := hm_remove u (st_vms (app w)), st_pool := q\<rparr>
    \<and> pool_ok q \<and> pool_used q = pool_used (st_pool (app w)) - {sub_index a}
    \<and> host_view (hist w') = (live_taps (hist w) - {sub_tap_name a}, live_rules (hist w) - 2,
         live_copies (hist w) - {vm_rootfs_path E jc u})"
proof -
  let ?r = "new_resources E jc u v m keys a hs"
  obtain s w1 where b: "run_state (create_fail_begin E u) w = (s, w1)" by fastforce
  from create_fail_begin_app [OF b] entry
  have s: "s = Some ?r" "app w1 = (app w)\<lparr>st_vms := hm_remove u (st_vms (app w))\<rparr>" by simp_all
  have "host_view (hist w1) = host_view (snd (run_state (teardown_network E ?r) (hist w)))"
    using b entry by (auto simp: create_fail_begin_def prims teardown_entry_def)
  also have "\<dots> = (live_taps (hist w) - {sub_tap_name a}, live_rules (hist w) - 2, live_copies (hist w))"
    by (rule tidy_teardown [OF tidy _ _ tap]) (simp_all add: new_resources_def)
  finally have v1: "host_view (hist w1) = \<dots>" .
  have "vr_subnet_index ?r = Some (sub_index a)" "vr_rootfs_copy ?r = Some (vm_rootfs_path E jc u)"
    "pool_ok (st_pool (app w1))" using ok s(2) by (simp_all add: new_resources_def)
  from release_resources_view [OF tidy this(1) i this(2,3)] obtain w' q where
    "run_state (release_resources E ?r) w1 = (Finished (), w')"
    "app w' = (app w1)\<lparr>st_pool := q\<rparr>" "pool_ok q" "pool_used q = pool_used (st_pool (app w1)) - {sub_index a}"
    "host_view (hist w') = (live_taps (hist w1), live_rules (hist w1), live_copies (hist w1) - {vm_rootfs_path E jc u})"
    by blast
  with b s v1 show ?thesis by (simp add: create_fail_def host_view_def) blast
qed

text \<open>The part of the handler the guard covers.\<close>

lemma create_setup_view:
  "run_state (create_setup E u v m a) w = (r, w') \<Longrightarrow>
   app w' = app w \<and> host_view (hist w') = host_view (hist w)"
  using neutral_view [OF appends_setup, of E "st_jailer (app w)" u v m a "hist w"]
  by (auto simp: create_setup_def prims)

lemma create_finish_view:
  "run_state (create_finish E u v m a inst desc True) w = (r, w') \<Longrightarrow>
   app w' = app w \<and> host_view (hist w') = host_view (hist w)
   \<and> r = \<lparr>cr_id = u, cr_vcpus = v, cr_memory_mb = m, cr_state = info_state desc,
          cr_vmm_version = vmm_version desc, cr_guest_ip = ipv4_to_string (guest_ip a)\<rparr>"
  using neutral_view [OF appends_gw_neutral(1)]
  by (auto simp: create_finish_def report_vm_def prims split: option.splits)

lemma create_guarded_view:
  assumes tidy: "tidy_host E" and ok: "pool_ok (st_pool (app w))" and i: "sub_index a \<in> pool_range"
    and entry: "hm_get (st_vms (app w)) u = Some (Creating (new_resources E jc u v m keys a hs))"
    and tap: "sub_tap_name a \<in> live_taps (hist w)"
    and run: "run_state (create_guarded E u v m a) w = (r, w')"
  shows "(\<exists>e q. r = Finished (Inl e) \<and> err_status e = 500
      \<and> app w' = (app w)\<lparr>st_vms := hm_remove u (st_vms (app w)), st_pool := q\<rparr>
      \<and> pool_ok q \<and> pool_used q = pool_used (st_pool (app w)) - {sub_index a}
      \<and> host_view (hist w') = (live_taps (hist w) - {sub_tap_name a}, live_rules (hist w) - 2,
           live_copies (hist w) - {vm_rootfs_path E jc u}))
    \<or> (\<exists>resp inst. r = Finished (Inr resp) \<and> cr_id resp = u \<and> cr_vcpus resp = v \<and> cr_memory_mb resp = m
      \<and> cr_guest_ip resp = ipv4_to_string (guest_ip a)
      \<and> app w' = (app w)\<lparr>st_vms := hm_insert u (Running inst (new_resources E jc u v m keys a hs))
           (hm_remove u (st_vms (app w)))\<rparr>
      \<and> host_view (hist w') = host_view (hist w))"
proof -
  obtain s w1 where s: "run_state (create_setup E u v m a) w = (s, w1)" by fastforce
  note k = create_setup_view [OF s]
  show ?thesis
  proof (cases s)
    case (Inl e)
    from k ok entry tap have "pool_ok (st_pool (app w1))" "sub_tap_name a \<in> live_taps (hist w1)"
      "hm_get (st_vms (app w1)) u = Some (Creating (new_resources E jc u v m keys a hs))"
      by (simp_all add: host_view_def)
    from create_fail_view [OF tidy this(1) i this(3) this(2)] obtain w2 q where
      "run_state (create_fail E u) w1 = (Finished (), w2)"
      "app w2 = (app w1)\<lparr>st_vms := hm_remove u (st_vms (app w1)), st_pool := q\<rparr>"
      "pool_ok q" "pool_used q = pool_used (st_pool (app w1)) - {sub_index a}"
      "host_view (hist w2) = (live_taps (hist w1) - {sub_tap_name a}, live_rules (hist w1) - 2,
         live_copies (hist w1) - {vm_rootfs_path E jc u})" by blast
    with run s Inl k show ?thesis by (auto simp: create_guarded_def host_view_def)
  next
    case (Inr p)
    obtain inst desc where p: "p = (inst, desc)" by fastforce
    obtain b w2 where b: "run_state (create_upgrade u inst) w1 = (b, w2)" by fastforce
    from create_upgrade_app [OF b] k entry have b': "b" "hist w2 = hist w1"
      "app w2 = (app w)\<lparr>st_vms := hm_insert u (Running inst (new_resources E jc u v m keys a hs))
           (hm_remove u (st_vms (app w)))\<rparr>" by simp_all
    obtain f w3 where f: "run_state (create_finish E u v m a inst desc True) w2 = (f, w3)" by fastforce
    from create_finish_view [OF f] run s Inr p b b' f k show ?thesis
      by (auto simp: create_guarded_def)
  qed
qed

text \<open>
  The states a create may start from: the entries fit the host, the pool is well formed, the
  UUID is new, the tap devices and the copy it would make do not exist yet.
\<close>

definition create_ready :: "env \<Rightarrow> uuid \<Rightarrow> world \<Rightarrow> bool" where
  "create_ready E u w \<longleftrightarrow>
     fits (st_capacity (app w)) (st_vms (app w)) \<and> hm_ok (st_vms (app w)) \<and> pool_ok (st_pool (app w))
     \<and> hm_get (st_vms (app w)) u = None
     \<and> (\<forall>i. i \<notin> pool_used (st_pool (app w)) \<longrightarrow> tap_name i \<notin> live_taps (hist w))
     \<and> vm_rootfs_path E (st_jailer (app w)) u \<notin> live_copies (hist w)"

text \<open>Everything but the copies as it was; the map and the pool as maps and sets.\<close>

definition restored :: "world \<Rightarrow> world \<Rightarrow> bool" where
  "restored w w' \<longleftrightarrow>
     hm_get (st_vms (app w')) = hm_get (st_vms (app w))
     \<and> pool_ok (st_pool (app w')) \<and> pool_used (st_pool (app w')) = pool_used (st_pool (app w))
     \<and> live_taps (hist w') = live_taps (hist w) \<and> live_rules (hist w') = live_rules (hist w)"

definition created ::
  "env \<Rightarrow> uuid \<Rightarrow> u8 \<Rightarrow> u32 \<Rightarrow> string list \<Rightarrow> subnet_allocation \<Rightarrow> world \<Rightarrow> world \<Rightarrow> create_vm_response \<Rightarrow> bool" where
  "created E u v m keys a w w' resp \<longleftrightarrow>
     (\<exists>inst hs. hm_get (st_vms (app w')) = (hm_get (st_vms (app w)))(u \<mapsto>
        Running inst (new_resources E (st_jailer (app w)) u v m keys a hs)))
     \<and> fits (st_capacity (app w')) (st_vms (app w'))
     \<and> live_taps (hist w') = insert (sub_tap_name a) (live_taps (hist w))
     \<and> live_rules (hist w') = live_rules (hist w) + 2
     \<and> cr_id resp = u \<and> cr_vcpus resp = v \<and> cr_memory_mb resp = m
     \<and> cr_guest_ip resp = ipv4_to_string (guest_ip a)"

lemma rollback_network_view:
  assumes tidy: "tidy_host E" and tap: "sub_tap_name a \<in> live_taps (hist w)"
  shows "host_view (hist (snd (run_state (rollback_network E a hs) w))) =
    (live_taps (hist w) - {sub_tap_name a}, live_rules (hist w) - 2, live_copies (hist w))"
proof -
  let ?h = "snd (run_state (remove_nat_rules E hs) (hist w))"
  note v = tidy_remove_rules [OF tidy, of hs "hist w"]
  with tap have "sub_tap_name a \<in> live_taps ?h" by (simp add: host_view_def)
  from tidy_delete_tap [OF tidy this] v show ?thesis
    by (simp add: rollback_network_def prims host_view_def split: option.split)
qed

lemma create_reserve_view:
  assumes tidy: "tidy_host E" and fits: "fits (st_capacity (app w)) (st_vms (app w))"
    and ok: "pool_ok (st_pool (app w))" and i: "sub_index a \<in> pool_range"
    and new: "hm_get (st_vms (app w)) u = None" and tap: "sub_tap_name a \<in> live_taps (hist w)"
    and run: "run_state (create_reserve E u v m keys a hs) w = (r, w')"
  shows "(\<exists>e. r = Finished (Inl e) \<and> err_status e = 409 \<and> st_vms (app w') = st_vms (app w)
      \<and> pool_ok (st_pool (app w'))
      \<and> pool_used (st_pool (app w')) = pool_used (st_pool (app w)) - {sub_index a}
      \<and> host_view (hist w') = (live_taps (hist w) - {sub_tap_name a}, live_rules (hist w) - 2, live_copies (hist w)))
    \<or> (r = Finished (Inr ()) \<and> hist w' = hist w
      \<and> app w' = (app w)\<lparr>st_vms := hm_insert u
            (Creating (new_resources E (st_jailer (app w)) u v m keys a hs)) (st_vms (app w))\<rparr>
      \<and> fits (st_capacity (app w')) (st_vms (app w')))"
proof -
  obtain av where av: "allocated_vcpus E (st_vms (app w)) = Some av"
    "unat av = hm_total entry_vcpus (st_vms (app w))" using allocated_vcpus_exact fits by blast
  obtain am where am: "allocated_memory E (st_vms (app w)) = Some am"
    "unat am = hm_total entry_memory (st_vms (app w))" using allocated_memory_exact fits by blast
  note eff = create_reserve_app [OF run av(1) am(1)]
  show ?thesis
  proof (cases "capacity_check (st_capacity (app w)) av am v m")
    case None
    with capacity_check_None [OF fits av(2) am(2), of v m] eff new show ?thesis
      by (simp add: fits_def hmap entry_vcpus_def entry_memory_def new_resources_def)
  next
    case (Some e)
    obtain p where p: "pool_release (sub_index a) (st_pool (app w)) = Some p" "pool_ok p"
      "pool_used p = pool_used (st_pool (app w)) - {sub_index a}"
      using subnets.release_ok [OF ok i] by blast
    obtain q w1 where q: "run_state (rollback_network E a hs) w = (q, w1)" by fastforce
    from rollback_network_app [OF q] p have "q = Finished ()" by simp
    with q run Some av am have "w' = w1" by (simp add: create_reserve_def prims)
    with rollback_network_view [OF tidy tap, of hs] q eff Some p capacity_check_conflict [OF Some]
    show ?thesis by simp
  qed
qed

lemma created_start:
  "created E u v m keys a w1 w' resp \<Longrightarrow> st_vms (app w1) = st_vms (app w) \<Longrightarrow>
   st_jailer (app w1) = st_jailer (app w) \<Longrightarrow> live_taps (hist w1) = live_taps (hist w) \<Longrightarrow>
   live_rules (hist w1) = live_rules (hist w) \<Longrightarrow> created E u v m keys a w w' resp"
  by (simp add: created_def)

lemma create_network_view:
  assumes tidy: "tidy_host E" and join: "env_spawn_blocking E (hist w)"
    and fresh: "sub_tap_name a \<notin> live_taps (hist w)"
    and run: "run_state (create_network E a) w = (r, w')"
  shows "app w' = app w \<and>
    ((\<exists>e. r = Some (Inl e) \<and> host_view (hist w') = host_view (hist w))
     \<or> (\<exists>hs. r = Some (Inr hs) \<and> host_view (hist w') =
          (insert (sub_tap_name a) (live_taps (hist w)), live_rules (hist w) + 2, live_copies (hist w))))"
proof -
  let ?h = "hist w @ [EvSpawnBlocking True]"
  have v: "host_view ?h = host_view (hist w)"
    by (simp add: host_view_def live_taps_def live_rules_def live_copies_def tap_step_def
        rule_step_def copy_step_def)
  obtain q h' where q: "run_state (setup_network E (sub_tap_name a) (tap_ip a) (guest_ip a)
      (jc_host_interface (st_jailer (app w)))) ?h = (q, h')" by fastforce
  have "sub_tap_name a \<notin> live_taps ?h" using v fresh by (simp add: host_view_def)
  from tidy_setup_network [OF tidy this, of "tap_ip a" "guest_ip a" "jc_host_interface (st_jailer (app w))"]
    v q have "host_view h' = (case q of Inl _ \<Rightarrow> host_view (hist w)
      | Inr _ \<Rightarrow> (insert (sub_tap_name a) (live_taps (hist w)), live_rules (hist w) + 2, live_copies (hist w)))"
    by (simp add: host_view_def split: sum.splits)
  moreover have "r = Some q \<and> app w' = app w \<and> hist w' = h'"
    using run join q by (auto simp: create_network_def prims spawn_blocking_def)
  ultimately show ?thesis by (cases q) simp_all
qed

text \<open>What is left after the subnet: the request is undone, or the VM is there.\<close>

definition networked :: "env \<Rightarrow> uuid \<Rightarrow> u8 \<Rightarrow> u32 \<Rightarrow> string list \<Rightarrow> subnet_allocation \<Rightarrow> world
  \<Rightarrow> (api_error + create_vm_response) outcome \<Rightarrow> world \<Rightarrow> bool" where
  "networked E u v m keys a w r w' \<longleftrightarrow>
     (\<exists>e. r = Finished (Inl e) \<and> hm_get (st_vms (app w')) = hm_get (st_vms (app w))
      \<and> pool_ok (st_pool (app w'))
      \<and> pool_used (st_pool (app w')) = pool_used (st_pool (app w)) - {sub_index a}
      \<and> live_taps (hist w') = live_taps (hist w) \<and> live_rules (hist w') = live_rules (hist w)
      \<and> (err_status e = 500 \<and> live_copies (hist w') \<subseteq> live_copies (hist w)
         \<or> err_status e = 409 \<and> live_copies (hist w') = live_copies (hist w)))
    \<or> (\<exists>resp. r = Finished (Inr resp) \<and> created E u v m keys a w w' resp
      \<and> st_pool (app w') = st_pool (app w) \<and> live_copies (hist w') = live_copies (hist w))"

definition network_there :: "subnet_allocation \<Rightarrow> world \<Rightarrow> world \<Rightarrow> bool" where
  "network_there a w w1 \<longleftrightarrow> app w1 = app w \<and> host_view (hist w1) =
     (insert (sub_tap_name a) (live_taps (hist w)), live_rules (hist w) + 2, live_copies (hist w))"

lemma networked_guarded:
  assumes tidy: "tidy_host E" and hm: "hm_ok (st_vms (app w))" and ok: "pool_ok (st_pool (app w))"
    and i: "sub_index a \<in> pool_range" and new: "hm_get (st_vms (app w)) u = None"
    and fresh: "sub_tap_name a \<notin> live_taps (hist w)" and w1: "network_there a w w1" and h2: "hist w2 = hist w1"
    and a2: "app w2 = (app w1)\<lparr>st_vms := hm_insert u (Creating (new_resources E (st_jailer (app w1)) u v m keys a hs))
      (st_vms (app w1))\<rparr>"
    and fits: "fits (st_capacity (app w2)) (st_vms (app w2))" and g: "run_state (create_guarded E u v m a) w2 = (r, w')"
  shows "networked E u v m keys a w r w'"
proof -
  let ?res = "new_resources E (st_jailer (app w)) u v m keys a hs"
  let ?vms = "hm_insert u (Creating ?res) (st_vms (app w))"
  have w1: "app w1 = app w" "live_taps (hist w2) = insert (sub_tap_name a) (live_taps (hist w))"
    "live_rules (hist w2) = live_rules (hist w) + 2" "live_copies (hist w2) = live_copies (hist w)"
    using w1 h2 by (simp_all add: network_there_def host_view_def)
  have e2: "st_vms (app w2) = ?vms" "hm_get ?vms u = Some (Creating ?res)" "pool_ok (st_pool (app w2))"
    "sub_tap_name a \<in> live_taps (hist w2)" using a2 w1 ok by (simp_all add: hmap)
  have gone: "hm_get (hm_remove u ?vms) = hm_get (st_vms (app w))" using new by (auto simp: hmap)
  have same: "hm_total f (hm_insert u (Running i ?res) (hm_remove u ?vms)) = hm_total f ?vms"
    if "f (Running i ?res) = f (Creating ?res)" for f i
    by (rule hm_total_reinsert [OF hm_ok_insert [OF hm] e2(2) that])
  have e3: "hm_get (st_vms (app w2)) u = Some (Creating ?res)" using e2(1,2) by simp
  from create_guarded_view [OF tidy e2(3) i e3 e2(4) g] show ?thesis
  proof (elim disjE exE conjE, goal_cases)
    case (1 e q)
    with a2 w1 gone fresh show ?case by (auto simp: networked_def host_view_def)
  next
    case (2 resp inst)
    then have "fits (st_capacity (app w')) (st_vms (app w'))"
      using fits same [of entry_vcpus] same [of entry_memory] e2(1)
      by (simp add: fits_def entry_vcpus_def entry_memory_def)
    with 2 a2 w1 gone show ?case by (auto simp: networked_def created_def host_view_def hm_get_insert)
  qed
qed

lemma networked_reserved:
  assumes tidy: "tidy_host E"
    and fits: "fits (st_capacity (app w)) (st_vms (app w))" and hm: "hm_ok (st_vms (app w))"
    and ok: "pool_ok (st_pool (app w))" and i: "sub_index a \<in> pool_range"
    and new: "hm_get (st_vms (app w)) u = None" and fresh: "sub_tap_name a \<notin> live_taps (hist w)"
    and n: "run_state (create_network E a) w = (Some (Inr hs), w1)" and w1: "network_there a w w1"
    and run: "run_state (create_networked E u v m keys a) w = (r, w')"
  shows "networked E u v m keys a w r w'"
proof -
  obtain q w2 where q: "run_state (create_reserve E u v m keys a hs) w1 = (q, w2)" by fastforce
  have pre: "fits (st_capacity (app w1)) (st_vms (app w1))" "pool_ok (st_pool (app w1))"
    "hm_get (st_vms (app w1)) u = None" "sub_tap_name a \<in> live_taps (hist w1)"
    using fits ok new w1 by (simp_all add: network_there_def host_view_def)
  from create_reserve_view [OF tidy pre(1,2) i pre(3,4) q] show ?thesis
  proof (elim disjE exE conjE, goal_cases)
    case (1 e)
    with run n q w1 fresh show ?case
      by (auto simp: create_networked_def networked_def network_there_def host_view_def)
  next
    case 2
    have "run_state (create_guarded E u v m a) w2 = (r, w')" using run n q 2(1) by (simp add: create_networked_def)
    from networked_guarded [OF tidy hm ok i new fresh w1 2(2,3,4) this] show ?case .
  qed
qed

lemma create_networked_view:
  assumes tidy: "tidy_host E" and join: "env_spawn_blocking E (hist w)"
    and fits: "fits (st_capacity (app w)) (st_vms (app w))" and hm: "hm_ok (st_vms (app w))"
    and ok: "pool_ok (st_pool (app w))" and i: "sub_index a \<in> pool_range"
    and new: "hm_get (st_vms (app w)) u = None" and fresh: "sub_tap_name a \<notin> live_taps (hist w)"
    and run: "run_state (create_networked E u v m keys a) w = (r, w')"
  shows "(\<exists>e. r = Finished (Inl e) \<and> hm_get (st_vms (app w')) = hm_get (st_vms (app w))
      \<and> pool_ok (st_pool (app w'))
      \<and> pool_used (st_pool (app w')) = pool_used (st_pool (app w)) - {sub_index a}
      \<and> live_taps (hist w') = live_taps (hist w) \<and> live_rules (hist w') = live_rules (hist w)
      \<and> (err_status e = 500 \<and> live_copies (hist w') \<subseteq> live_copies (hist w)
         \<or> err_status e = 409 \<and> live_copies (hist w') = live_copies (hist w)))
    \<or> (\<exists>resp. r = Finished (Inr resp) \<and> created E u v m keys a w w' resp
      \<and> st_pool (app w') = st_pool (app w) \<and> live_copies (hist w') = live_copies (hist w))"
proof -
  obtain n w1 where n: "run_state (create_network E a) w = (n, w1)" by fastforce
  from create_network_view [OF tidy join fresh n] have w1: "app w1 = app w" by blast
  from create_network_view [OF tidy join fresh n] consider
      (failed) e where "n = Some (Inl e)" "host_view (hist w1) = host_view (hist w)"
    | (ready) hs where "n = Some (Inr hs)" "network_there a w w1"
    unfolding network_there_def by blast
  then have "networked E u v m keys a w r w'"
  proof cases
    case failed
    obtain p where "pool_release (sub_index a) (st_pool (app w)) = Some p" "pool_ok p"
      "pool_used p = pool_used (st_pool (app w)) - {sub_index a}"
      using subnets.release_ok [OF ok i] by blast
    with run n failed w1 show ?thesis
      by (auto simp: create_networked_def run_create_unwind host_view_def networked_def)
  next
    case ready
    show ?thesis by (rule networked_reserved [OF tidy fits hm ok i new fresh n [unfolded ready(1)] ready(2) run])
  qed
  then show ?thesis by (simp only: networked_def)
qed

lemma create_copy_view:
  assumes join: "env_spawn_blocking E (hist w)" and run: "run_state (create_copy_rootfs E u) w = (r, w')"
  shows "app w' = app w \<and> live_taps (hist w') = live_taps (hist w) \<and> live_rules (hist w') = live_rules (hist w)
    \<and> (\<exists>es. hist w' = hist w @ es)
    \<and> (r = Inr () \<and> live_copies (hist w') = insert (vm_rootfs_path E (st_jailer (app w)) u) (live_copies (hist w))
       \<or> (\<exists>e. r = Inl e \<and> err_status e = 500 \<and> live_copies (hist w')
            \<subseteq> insert (vm_rootfs_path E (st_jailer (app w)) u) (live_copies (hist w))))"
proof -
  let ?m = "copy_rootfs E (jc_copy_strategy (st_jailer (app w))) (jc_rootfs_path (st_jailer (app w)))
    (vm_rootfs_path E (st_jailer (app w)) u) JAILER_UID JAILER_GID"
  let ?h = "hist w @ [EvSpawnBlocking True]"
  have v: "live_taps ?h = live_taps (hist w)" "live_rules ?h = live_rules (hist w)"
    "live_copies ?h = live_copies (hist w)"
    by (simp_all add: live_taps_def live_rules_def live_copies_def tap_step_def rule_step_def copy_step_def)
  obtain q h' where q: "run_state ?m ?h = (q, h')" by fastforce
  have "\<exists>es. h' = hist w @ es"
    using appendsD [OF appends_copy_rootfs q] by auto
  with copy_rootfs_view [OF q] v run q join show ?thesis
    by (cases q) (auto simp: create_copy_rootfs_def prims spawn_blocking_def)
qed

text \<open>The whole handler, with the result on both sides.\<close>

lemma create_outcome:
  assumes tidy: "tidy_host E" and join: "\<And>h. env_spawn_blocking E h"
    and ready: "create_ready E u w" and run: "run_state (create E u req) w = (r, w')"
  shows "(\<exists>e. r = Finished (Inl e) \<and> restored w w'
      \<and> (err_status e = 422 \<and> w' = w
         \<or> err_status e = 500 \<and> live_copies (hist w') \<subseteq>
             insert (vm_rootfs_path E (st_jailer (app w)) u) (live_copies (hist w))
         \<or> err_status e = 409 \<and> live_copies (hist w') =
             insert (vm_rootfs_path E (st_jailer (app w)) u) (live_copies (hist w))))
    \<or> (\<exists>v m a resp. r = Finished (Inr resp) \<and> create_validate req = Inr (v, m)
      \<and> pool_allocate (st_pool (app w)) = Some (a, st_pool (app w'))
      \<and> created E u v m (request_keys req) a w w' resp
      \<and> live_copies (hist w') = insert (vm_rootfs_path E (st_jailer (app w)) u) (live_copies (hist w)))"
proof (cases "create_validate req")
  case (Inl e)
  then have "err_status e = 422"
    by (auto simp: create_validate_def Let_def split: prod.splits sum.splits)
  with Inl run ready show ?thesis by (auto simp: create_def restored_def create_ready_def)
next
  case (Inr vm)
  obtain v m where vm: "vm = (v, m)" by fastforce
  obtain c w1 where c: "run_state (create_copy_rootfs E u) w = (c, w1)" by fastforce
  note v1 = create_copy_view [OF join c]
  from v1 have w1: "app w1 = app w" by blast
  show ?thesis
  proof (cases c)
    case Inl': (Inl e)
    with v1 run Inr vm c ready show ?thesis by (auto simp: create_def restored_def create_ready_def)
  next
    case Inr': (Inr x)
    show ?thesis
    proof (cases "pool_allocate (st_pool (app w))")
      case None
      with v1 run Inr vm c Inr' ready show ?thesis
        by (auto simp: create_def restored_def create_ready_def run_create_alloc)
    next
      case (Some ap)
      obtain a p where ap: "ap = (a, p)" by fastforce
      let ?w2 = "w1\<lparr>app := (app w)\<lparr>st_pool := p\<rparr>\<rparr>"
      have rd: "fits (st_capacity (app w)) (st_vms (app w))" "hm_ok (st_vms (app w))"
        "pool_ok (st_pool (app w))" "hm_get (st_vms (app w)) u = None"
        using ready by (simp_all add: create_ready_def)
      from pool_allocate_Some [OF rd(3) Some [unfolded ap]] have al: "sub_index a \<notin> pool_used (st_pool (app w))"
        "sub_index a \<in> pool_range" "pool_ok p" "pool_used p = insert (sub_index a) (pool_used (st_pool (app w)))"
        "sub_tap_name a = tap_name (sub_index a)" by simp_all
      have fresh: "sub_tap_name a \<notin> live_taps (hist w1)"
        using al(1,5) ready v1 by (simp add: create_ready_def)
      have n: "run_state (create_networked E u v m (request_keys req) a) ?w2 = (r, w')"
        using run Inr vm c Inr' Some ap w1 by (simp add: create_def run_create_alloc)
      have w2: "hist ?w2 = hist w1" "st_vms (app ?w2) = st_vms (app w)" "st_pool (app ?w2) = p"
        "st_capacity (app ?w2) = st_capacity (app w)" "st_jailer (app ?w2) = st_jailer (app w)" by simp_all
      from create_networked_view [OF tidy join _ _ _ al(2) _ _ n, unfolded w2, OF rd(1,2) al(3) rd(4) fresh]
      show ?thesis
      proof (elim disjE exE conjE, goal_cases)
        case (3 resp)
        moreover have "created E u v m (request_keys req) a w w' resp"
          using created_start [OF 3(2) w2(2,5)] w2(1) v1 by simp
        ultimately show ?thesis using Inr vm Some ap v1 Inr' by auto
      qed (use Inr vm Some ap al v1 Inr' in \<open>auto simp: restored_def\<close>)
    qed
  qed
qed


text \<open>C33: Every conflict (409) a create is answered with leaves its copy of the root file system
  on disk, with no entry in the map that names it: the capacity and the subnet are checked
  after the copy is made, and no refusal removes it.\<close>

theorem create_conflict_leaks_copy:
  assumes "tidy_host E" and "\<And>h. env_spawn_blocking E h" and "create_ready E u w"
    and "run_state (create E u req) w = (Finished (Inl e), w')" and "err_status e = 409"
  shows "vm_rootfs_path E (st_jailer (app w)) u \<in> live_copies (hist w')
    \<and> hm_get (st_vms (app w')) u = None"
  using create_outcome [OF assms(1-4)] assms(3,5) by (auto simp: restored_def create_ready_def)

text \<open>C6: A create answered with success has installed the VM: the map gains exactly one running
  entry, under the new UUID, with the validated size, the subnet the pool handed out, its
  addresses and tap device, the request's keys; one tap device, two rules and one copy exist
  that did not before; the entries still fit the host; the response names the UUID, the size
  and the guest's address.\<close>

theorem create_success_installs:
  assumes "tidy_host E" and "\<And>h. env_spawn_blocking E h" and "create_ready E u w"
    and "run_state (create E u req) w = (Finished (Inr resp), w')"
  shows "\<exists>v m a. create_validate req = Inr (v, m)
      \<and> pool_allocate (st_pool (app w)) = Some (a, st_pool (app w'))
      \<and> created E u v m (request_keys req) a w w' resp
      \<and> live_copies (hist w') = insert (vm_rootfs_path E (st_jailer (app w)) u) (live_copies (hist w))"
  using create_outcome [OF assms] by auto

section \<open>Deleting a VM\<close>

text \<open>A delete that is refused changes nothing and calls nothing: an unknown id is a 404, a VM
  still being created a 409, and in both cases the map (as a map), the pool and the history
  are as before, so the placeholder of a running create survives every delete.\<close>

theorem delete_refused:
  assumes "\<And>inst r. hm_get (st_vms (app w)) u \<noteq> Some (Running inst r)"
    and "run_state (delete_vm E u) w = (res, w')"
  shows "\<exists>e. res = Finished (Inl e)
    \<and> err_status e = (if hm_get (st_vms (app w)) u = None then 404 else 409)
    \<and> hm_get (st_vms (app w')) = hm_get (st_vms (app w)) \<and> st_pool (app w') = st_pool (app w)
    \<and> hist w' = hist w"
  using assms
  by (auto simp: delete_vm_def delete_begin_def delete_take_def delete_stop_def prims hmap fun_upd_idem split: option.splits vm_entry.splits)

lemma deregister_view:
  "run_state (deregister_vm E u) w = (r, w') \<Longrightarrow> app w' = app w \<and> host_view (hist w') = host_view (hist w)"
  using neutral_view [OF appends_gw_neutral(2)]
  by (auto simp: deregister_vm_def prims split: option.splits)

lemma delete_outcome:
  assumes tidy: "tidy_host E" and ok: "pool_ok (st_pool (app w))" and i: "sub_index a \<in> pool_range"
    and entry: "hm_get (st_vms (app w)) u = Some (Running inst (new_resources E jc u v m keys a hs))"
    and tap: "sub_tap_name a \<in> live_taps (hist w)"
    and run: "run_state (delete_vm E u) w = (res, w')"
  shows "res = Finished (Inr (JObj [(''id'', JStr (env_uuid_to_string E u)), (''deleted'', JBool True)]))
    \<and> st_vms (app w') = hm_remove u (st_vms (app w)) \<and> pool_ok (st_pool (app w'))
    \<and> pool_used (st_pool (app w')) = pool_used (st_pool (app w)) - {sub_index a}
    \<and> host_view (hist w') = (live_taps (hist w) - {sub_tap_name a}, live_rules (hist w) - 2,
         live_copies (hist w) - {vm_rootfs_path E jc u})"
proof -
  let ?r = "new_resources E jc u v m keys a hs"
  let ?h = "snd (run_state (stop_and_drop E inst) (hist w))"
  obtain b w1 where b: "run_state (delete_begin E u) w = (b, w1)" by fastforce
  from delete_begin_app [OF b] entry
  have b': "b = Inr ?r" "app w1 = (app w)\<lparr>st_vms := hm_remove u (st_vms (app w))\<rparr>" by simp_all
  have v: "host_view ?h = host_view (hist w)" by (rule neutral_view [OF appends_stop_and_drop])
  with tap have "sub_tap_name a \<in> live_taps ?h" by (simp add: host_view_def)
  from tidy_teardown [OF tidy _ _ this, of ?r] v
  have "host_view (snd (run_state (teardown_network E ?r) ?h)) =
      (live_taps (hist w) - {sub_tap_name a}, live_rules (hist w) - 2, live_copies (hist w))"
    by (simp add: new_resources_def host_view_def)
  moreover have "hist w1 = snd (run_state (teardown_network E ?r) ?h)"
    using b entry by (auto simp: delete_begin_def delete_take_def delete_stop_def prims)
  ultimately have v1: "host_view (hist w1) =
      (live_taps (hist w) - {sub_tap_name a}, live_rules (hist w) - 2, live_copies (hist w))" by simp
  have "vr_subnet_index ?r = Some (sub_index a)" "vr_rootfs_copy ?r = Some (vm_rootfs_path E jc u)"
    "pool_ok (st_pool (app w1))" using ok b'(2) by (simp_all add: new_resources_def)
  from release_resources_view [OF tidy this(1) i this(2,3)] obtain w2 q where rel:
    "run_state (release_resources E ?r) w1 = (Finished (), w2)"
    "app w2 = (app w1)\<lparr>st_pool := q\<rparr>" "pool_ok q" "pool_used q = pool_used (st_pool (app w1)) - {sub_index a}"
    "host_view (hist w2) = (live_taps (hist w1), live_rules (hist w1), live_copies (hist w1) - {vm_rootfs_path E jc u})"
    by blast
  obtain x w3 where d: "run_state (deregister_vm E u) w2 = (x, w3)"
    by (cases "run_state (deregister_vm E u) w2")
  from run b b' rel(1) d deregister_view [OF d]
  show ?thesis using rel v1 by (auto simp: delete_vm_def delete_finish_def host_view_def)
qed


section \<open>Reading the map\<close>

definition summary_matches :: "uuid \<times> vm_entry \<Rightarrow> vm_summary \<Rightarrow> bool" where
  "summary_matches p s \<longleftrightarrow>
     vs_id s = fst p \<and> vs_status s = entry_status (snd p)
     \<and> vs_vcpus s = vr_vcpus (entry_resources (snd p))
     \<and> vs_memory_mb s = vr_memory_mb (entry_resources (snd p))
     \<and> vs_guest_ip s = vr_guest_ip (entry_resources (snd p))
     \<and> (vs_status s = ''creating'' \<longrightarrow> vs_state s = None)"

lemma list_entry_matches:
  "run_state (list_entry E u e) w = (s, w') \<Longrightarrow>
   summary_matches (u, e) s \<and> app w' = app w \<and> host_view (hist w') = host_view (hist w)"
  by (auto simp: list_entry_def prims sdk_describe_def summary_matches_def Let_def host_view_def
      live_taps_def live_rules_def live_copies_def tap_step_def rule_step_def copy_step_def
      split: vm_entry.splits sum.splits)

lemma list_entries_matches:
  "run_state (list_entries E m) w = (ss, w') \<Longrightarrow>
   list_all2 summary_matches m ss \<and> app w' = app w \<and> host_view (hist w') = host_view (hist w)"
proof (induction m arbitrary: w ss w')
  case (Cons p m)
  obtain u e where p: "p = (u, e)" by fastforce
  obtain s w1 where s: "run_state (list_entry E u e) w = (s, w1)" by fastforce
  obtain rs w2 where rs: "run_state (list_entries E m) w1 = (rs, w2)" by fastforce
  from Cons.prems p s rs list_entry_matches [OF s] Cons.IH [OF rs] show ?case by auto
qed simp

text \<open>Listing never fails and changes nothing: it answers with one summary per entry of the
  map, in the map's order, with the entry's id, size, address and status; an instance that
  cannot be queried only loses its state, and a VM being created has none.\<close>

theorem list_vms_complete:
  assumes "run_state (list_vms E) w = (resp, w')"
  shows "list_all2 summary_matches (st_vms (app w)) (lr_vms resp)
    \<and> lr_count resp = length (st_vms (app w))
    \<and> app w' = app w \<and> host_view (hist w') = host_view (hist w)"
proof -
  obtain ss w1 where ss: "run_state (list_entries E (st_vms (app w))) w = (ss, w1)" by fastforce
  with assms list_entries_matches [OF ss] show ?thesis
    by (auto simp: list_vms_def prims list_all2_lengthD)
qed

text \<open>Getting a VM changes nothing, is a 404 for an unknown id, a 409 for a VM being created,
  and otherwise answers what the instance says of itself, or a 500 without its reason.\<close>

theorem get_vm_answers:
  "app (snd (run_state (get_vm E u) w)) = app w
   \<and> (case hm_get (st_vms (app w)) u of
        None \<Rightarrow> fst (run_state (get_vm E u) w) = Inl \<lparr>err_status = 404, err_message = ''VM not found''\<rparr>
      | Some (Creating r) \<Rightarrow> fst (run_state (get_vm E u) w) =
          Inl \<lparr>err_status = 409, err_message = ''VM is still being created''\<rparr>
      | Some (Running inst r) \<Rightarrow> fst (run_state (get_vm E u) w) =
          (case env_describe E (hist w) inst of
             Inr info \<Rightarrow> Inr info
           | Inl _ \<Rightarrow> Inl \<lparr>err_status = 500, err_message = ''Internal server error''\<rparr>))"
  by (simp add: get_vm_def prims sdk_describe_def api_not_found_def api_conflict_def api_from_sdk_def
      api_internal_def split: option.split vm_entry.split sum.split)

section \<open>Concrete runs\<close>

text \<open>A host with 4 vCPUs and 1024 MB, in the calm environment, and a first request.\<close>

definition calm_jailer :: jailer_config where
  "calm_jailer = \<lparr>jc_cgroup_version = 2, jc_firecracker_path = ''/usr/bin/firecracker'',
     jc_jailer_path = ''/usr/bin/jailer'', jc_kernel_path = ''/opt/firecracker/vmlinux'',
     jc_rootfs_path = ''/opt/firecracker/rootfs.ext4'', jc_vm_images_dir = VM_IMAGES_DIR,
     jc_copy_strategy = Sparse, jc_host_interface = ''eth0''\<rparr>"

definition calm_world :: "u8 \<Rightarrow> world" where
  "calm_world cpus =
     \<lparr>hist = [], app = create_app \<lparr>cap_memory_mb = 1024, cap_vcpus = cpus\<rparr> calm_jailer None\<rparr>"

lemma tidy_calm: "tidy_host calm_env"
  by (auto simp: tidy_host_def nft_echoes_handles_def nft_deletes_rules_def calm_exec_def
      parse_nft_handle_calm)

lemma join_calm: "env_spawn_blocking calm_env h"
  by simp

lemma calm_ready: "create_ready calm_env u (calm_world n)"
  by (simp add: create_ready_def calm_world_def create_app_def pool_ok_new)

lemma calm_copy:
  "\<exists>h. run_state (create_copy_rootfs calm_env u) w = (Inr (), w\<lparr>hist := h\<rparr>)"
  by (simp add: create_copy_rootfs_def prims spawn_blocking_def copy_rootfs_def command_output_def
      calm_exec_def) (metis (full_types))

lemma calm_network:
  "\<exists>h hs. run_state (create_network calm_env a) w = (Some (Inr hs), w\<lparr>hist := h\<rparr>)"
  by (simp add: create_network_def prims spawn_blocking_def setup_network_def create_tap_def
      add_nat_rules_def parse_nft_handle_calm) (metis (full_types))

lemma calm_setup_io:
  "\<exists>h' inst desc. run_state (setup_firecracker_instance calm_env jc u v m a) h = (Inr (inst, desc), h')"
  by (simp add: setup_firecracker_instance_def sdk_build_def
      instance_requests_def sdk_request_def sdk_describe_def)

lemma calm_setup:
  "\<exists>h inst desc. run_state (create_setup calm_env u v m a) w = (Inr (inst, desc), w\<lparr>hist := h\<rparr>)"
  using calm_setup_io [of "st_jailer (app w)" u v m a "hist w"] by (auto simp: create_setup_def prims)

lemma calm_capacity:
  "allocated_vcpus E [] = Some 0" "allocated_memory E [] = Some 0"
  "capacity_check \<lparr>cap_memory_mb = 1024, cap_vcpus = 4\<rparr> 0 0 1 128 = None"
  "capacity_check \<lparr>cap_memory_mb = 1024, cap_vcpus = 0\<rparr> 0 0 1 128 = Some (api_conflict (insufficient_vcpus 1 0))"
  by (simp_all add: allocated_vcpus_def allocated_memory_def iter_sum_def sum_checked_def sum_wrapping_def
      hm_values_def capacity_check_def allocatable_memory_mb_def HOST_RESERVED_MEMORY_MB_def
      saturating_sub_def Let_def)

lemma calm_validate: "create_validate None = Inr (1, 128)"
  by (simp add: create_validate_def validate_vm_config_def DEFAULT_VCPUS_def DEFAULT_MEMORY_MB_def
      MAX_VCPUS_def MIN_MEMORY_MB_def)

lemma calm_world_parts [simp]:
  "st_vms (app (calm_world n)) = []" "st_pool (app (calm_world n)) = pool_new"
  "st_jailer (app (calm_world n)) = calm_jailer" "st_gateway (app (calm_world n)) = None"
  "st_capacity (app (calm_world n)) = \<lparr>cap_memory_mb = 1024, cap_vcpus = n\<rparr>"
  "hist (calm_world n) = []"
  by (simp_all add: calm_world_def create_app_def)

text \<open>Up to the first lock window the request goes through on every host.\<close>

lemma calm_create_prefix:
  "\<exists>w a hs. run_state (create calm_env u None) (calm_world n) =
      (case run_state (create_reserve calm_env u 1 128 [] a hs) w of
         (Panicked, w') \<Rightarrow> (Panicked, w')
       | (Finished (Inl e), w') \<Rightarrow> (Finished (Inl e), w')
       | (Finished (Inr _), w') \<Rightarrow> run_state (create_guarded calm_env u 1 128 a) w')
    \<and> app w = (app (calm_world n))\<lparr>st_pool := pool_new\<lparr>slots := (slots pool_new)[0 := True]\<rparr>\<rparr>
    \<and> sub_index a = 0"
proof -
  obtain h1 where c: "run_state (create_copy_rootfs calm_env u) (calm_world n) = (Inr (), (calm_world n)\<lparr>hist := h1\<rparr>)"
    using calm_copy by blast
  let ?a = "\<lparr>sub_index = 0, tap_ip = subnet_tap_ip 0, guest_ip = subnet_guest_ip 0, sub_tap_name = tap_name 0\<rparr>"
  let ?w1 = "(calm_world n)\<lparr>hist := h1, app := (app (calm_world n))\<lparr>st_pool := pool_new\<lparr>slots := (slots pool_new)[0 := True]\<rparr>\<rparr>\<rparr>"
  have al: "run_state create_alloc ((calm_world n)\<lparr>hist := h1\<rparr>) = (Inr ?a, ?w1)"
    by (simp add: run_create_alloc allocate_from_new)
  obtain h2 hs where n: "run_state (create_network calm_env ?a) ?w1 = (Some (Inr hs), ?w1\<lparr>hist := h2\<rparr>)"
    using calm_network by blast
  have "run_state (create calm_env u None) (calm_world n) =
      (case run_state (create_reserve calm_env u 1 128 [] ?a hs) (?w1\<lparr>hist := h2\<rparr>) of
         (Panicked, w') \<Rightarrow> (Panicked, w')
       | (Finished (Inl e), w') \<Rightarrow> (Finished (Inl e), w')
       | (Finished (Inr _), w') \<Rightarrow> run_state (create_guarded calm_env u 1 128 ?a) w')"
    using c al n by (simp add: create_def calm_validate create_networked_def request_keys_def
        split: prod.split outcome.split sum.split)
  then show ?thesis by (intro exI [of _ "?w1\<lparr>hist := h2\<rparr>"] exI [of _ ?a] exI [of _ hs]) simp
qed

lemma calm_create_succeeds:
  "\<exists>resp w'. run_state (create calm_env u None) (calm_world 4) = (Finished (Inr resp), w')"
proof -
  obtain w a hs where p: "run_state (create calm_env u None) (calm_world 4) =
      (case run_state (create_reserve calm_env u 1 128 [] a hs) w of
         (Panicked, w') \<Rightarrow> (Panicked, w')
       | (Finished (Inl e), w') \<Rightarrow> (Finished (Inl e), w')
       | (Finished (Inr _), w') \<Rightarrow> run_state (create_guarded calm_env u 1 128 a) w')"
    "app w = (app (calm_world 4))\<lparr>st_pool := pool_new\<lparr>slots := (slots pool_new)[0 := True]\<rparr>\<rparr>"
    using calm_create_prefix by blast
  obtain q w1 where q: "run_state (create_reserve calm_env u 1 128 [] a hs) w = (q, w1)" by fastforce
  from create_reserve_app [OF q] p(2)
  have q': "q = Finished (Inr ())" "st_vms (app w1) = hm_insert u (Creating
      (new_resources calm_env calm_jailer u 1 128 [] a hs)) []"
    by (simp_all add: calm_capacity)
  obtain h inst desc where s: "run_state (create_setup calm_env u 1 128 a) w1 = (Inr (inst, desc), w1\<lparr>hist := h\<rparr>)"
    using calm_setup by blast
  obtain b w2 where b: "run_state (create_upgrade u inst) (w1\<lparr>hist := h\<rparr>) = (b, w2)" by fastforce
  from create_upgrade_app [OF b] q' have b: "run_state (create_upgrade u inst) (w1\<lparr>hist := h\<rparr>) = (True, w2)"
    using b by (simp add: hmap)
  obtain f w3 where "run_state (create_finish calm_env u 1 128 a inst desc True) w2 = (f, w3)" by fastforce
  with p(1) q q'(1) s b show ?thesis by (simp add: create_guarded_def)
qed

lemma calm_create_refused:
  "\<exists>e w'. run_state (create calm_env u None) (calm_world 0) = (Finished (Inl e), w') \<and> err_status e = 409"
proof -
  obtain w a hs where p: "run_state (create calm_env u None) (calm_world 0) =
      (case run_state (create_reserve calm_env u 1 128 [] a hs) w of
         (Panicked, w') \<Rightarrow> (Panicked, w')
       | (Finished (Inl e), w') \<Rightarrow> (Finished (Inl e), w')
       | (Finished (Inr _), w') \<Rightarrow> run_state (create_guarded calm_env u 1 128 a) w')"
    "app w = (app (calm_world 0))\<lparr>st_pool := pool_new\<lparr>slots := (slots pool_new)[0 := True]\<rparr>\<rparr>"
    "sub_index a = 0"
    using calm_create_prefix by blast
  obtain q w1 where q: "run_state (create_reserve calm_env u 1 128 [] a hs) w = (q, w1)" by fastforce
  from create_reserve_app [OF q] p(2,3) have "q = Finished (Inl (api_conflict (insufficient_vcpus 1 0)))"
    by (simp add: calm_capacity pool_release_def pool_new_def MAX_SUBNETS_def split: if_splits)
  with p(1) q show ?thesis by simp
qed

theorem create_success_installs_witness:
  "\<exists>resp w'. run_state (create calm_env 5 None) (calm_world 4) = (Finished (Inr resp), w')
    \<and> cr_vcpus resp = 1 \<and> live_taps (hist w') = {tap_name 0}"
proof -
  obtain resp w' where run: "run_state (create calm_env 5 None) (calm_world 4) = (Finished (Inr resp), w')"
    using calm_create_succeeds by blast
  from create_success_installs [OF tidy_calm join_calm calm_ready run] run show ?thesis
    by (auto simp: created_def calm_validate allocate_from_new)
qed


theorem create_conflict_leaks_copy_witness:
  "\<exists>e w'. run_state (create calm_env 5 None) (calm_world 0) = (Finished (Inl e), w')
    \<and> vm_rootfs_path calm_env calm_jailer 5 \<in> live_copies (hist w') \<and> hm_get (st_vms (app w')) 5 = None"
proof -
  obtain e w' where run: "run_state (create calm_env 5 None) (calm_world 0) = (Finished (Inl e), w')"
    and e: "err_status e = 409" using calm_create_refused by blast
  from create_conflict_leaks_copy [OF tidy_calm join_calm calm_ready run e] run show ?thesis by simp
qed


theorem delete_refused_witness:
  "\<exists>e w'. run_state (delete_vm calm_env 7) (calm_world 4) = (Finished (Inl e), w') \<and> err_status e = 404"
proof -
  obtain res w' where run: "run_state (delete_vm calm_env 7) (calm_world 4) = (res, w')" by fastforce
  have "\<And>inst r. hm_get (st_vms (app (calm_world 4))) 7 \<noteq> Some (Running inst r)" by simp
  from delete_refused [OF this run] run show ?thesis by auto
qed

theorem list_vms_complete_witness:
  "lr_count (fst (run_state (list_vms calm_env) (calm_world 4))) = 0"
proof -
  obtain resp w' where run: "run_state (list_vms calm_env) (calm_world 4) = (resp, w')" by fastforce
  from list_vms_complete [OF run] run show ?thesis by simp
qed


theorem create_reserve_admission_witness:
  "\<exists>w'. run_state (create_reserve calm_env 5 4 768 [] \<lparr>sub_index = 0, tap_ip = subnet_tap_ip 0,
       guest_ip = subnet_guest_ip 0, sub_tap_name = tap_name 0\<rparr> \<lparr>postrouting = 7, filter_handle = 7\<rparr>)
       (calm_world 4) = (Finished (Inr ()), w') \<and> hm_get (st_vms (app w')) 5 \<noteq> None"
proof -
  let ?a = "\<lparr>sub_index = 0, tap_ip = subnet_tap_ip 0, guest_ip = subnet_guest_ip 0, sub_tap_name = tap_name 0\<rparr>"
  let ?hs = "\<lparr>postrouting = 7, filter_handle = 7\<rparr>"
  obtain r w' where run: "run_state (create_reserve calm_env 5 4 768 [] ?a ?hs) (calm_world 4) = (r, w')"
    by fastforce
  have "sub_index ?a \<in> pool_range" by (simp add: pool_range_def MAX_SUBNETS_def)
  from create_reserve_admission [OF _ _ _ this run] run show ?thesis
    by (simp add: pool_ok_new unat_allocatable)
qed

end
