(* ===== verification/Control_Plane.thy ===== *)
theory Control_Plane
  imports Vm_Lifecycle
begin

text \<open>
  The server with many requests in flight. Each create or delete is a task whose program
  counter says which segment of its handler comes next; a step runs one segment. The lock on
  the VM map is held across steps where the handler holds it across an \<open>.await\<close>; the pool's
  lock never is. A task may be abandoned at any point, which is what the server does when the
  client disconnects, or what a panic does: its future is dropped and, from the reservation
  to the upgrade, the \<open>CreateGuard\<close> runs.

  The calls of one segment are adjacent in the history, and any other events may happen
  between segments; as replies may depend on the history in any way, no reply is excluded.
\<close>

section \<open>Tasks\<close>

record job =
  j_id :: uuid
  j_vcpus :: u8
  j_memory_mb :: u32
  j_keys :: "string list"

datatype pc =
    Copying job
  | Allocating job
  | Networking job subnet_allocation
  | Unwinding job subnet_allocation anyhow
  | Reserving job subnet_allocation nat_handles
  | SettingUp job subnet_allocation
  | Failing job
  | FailReleasing job vm_resources
  | Upgrading job subnet_allocation instance_handle instance_info
  | Reporting job subnet_allocation instance_handle instance_info bool
  | Deleting uuid
  | Stopping uuid instance_handle vm_resources
  | DeleteReleasing uuid vm_resources
  | DetachedCopy job
  | DetachedNetwork subnet_allocation
  | Done
  | Crashed

text \<open>One segment of a handler. A panic of a create that has its guard runs the guard.\<close>

fun advance :: "env \<Rightarrow> pc \<Rightarrow> world \<Rightarrow> pc \<times> world" where
  "advance E (Copying j) w =
     (case run_state (create_copy_rootfs E (j_id j)) w of
        (Inl _, w') \<Rightarrow> (Done, w')
      | (Inr _, w') \<Rightarrow> (Allocating j, w'))"
| "advance E (Allocating j) w =
     (case run_state create_alloc w of
        (Inl _, w') \<Rightarrow> (Done, w')
      | (Inr a, w') \<Rightarrow> (Networking j a, w'))"
| "advance E (Networking j a) w =
     (case run_state (create_network E a) w of
        (None, w') \<Rightarrow> (Done, w')
      | (Some (Inl e), w') \<Rightarrow> (Unwinding j a e, w')
      | (Some (Inr hs), w') \<Rightarrow> (Reserving j a hs, w'))"
| "advance E (Unwinding j a e) w =
     (case run_state (create_unwind a e) w of
        (Panicked, w') \<Rightarrow> (Crashed, w')
      | (Finished _, w') \<Rightarrow> (Done, w'))"
| "advance E (Reserving j a hs) w =
     (case run_state (create_reserve E (j_id j) (j_vcpus j) (j_memory_mb j) (j_keys j) a hs) w of
        (Panicked, w') \<Rightarrow> (Crashed, w')
      | (Finished (Inl _), w') \<Rightarrow> (Done, w')
      | (Finished (Inr _), w') \<Rightarrow> (SettingUp j a, w'))"
| "advance E (SettingUp j a) w =
     (case run_state (create_setup E (j_id j) (j_vcpus j) (j_memory_mb j) a) w of
        (Inl _, w') \<Rightarrow> (Failing j, w')
      | (Inr (inst, desc), w') \<Rightarrow> (Upgrading j a inst desc, w'))"
| "advance E (Failing j) w =
     (case run_state (create_fail_begin E (j_id j)) w of
        (None, w') \<Rightarrow> (Done, w')
      | (Some r, w') \<Rightarrow> (FailReleasing j r, w'))"
| "advance E (FailReleasing j r) w =
     (case run_state (release_resources E r) w of
        (Panicked, w') \<Rightarrow> (Crashed, snd (run_state (create_guard_drop E True True (j_id j)) w'))
      | (Finished _, w') \<Rightarrow> (Done, w'))"
| "advance E (Upgrading j a inst desc) w =
     (case run_state (create_upgrade (j_id j) inst) w of
        (installed, w') \<Rightarrow> (Reporting j a inst desc installed, w'))"
| "advance E (Reporting j a inst desc installed) w =
     (Done, snd (run_state (create_finish E (j_id j) (j_vcpus j) (j_memory_mb j) a inst desc installed) w))"
| "advance E (Deleting u) w =
     (case run_state (delete_take u) w of
        (Inl _, w') \<Rightarrow> (Done, w')
      | (Inr (inst, r), w') \<Rightarrow> (Stopping u inst r, w'))"
| "advance E (Stopping u inst r) w = (DeleteReleasing u r, snd (run_state (delete_stop E inst r) w))"
| "advance E (DeleteReleasing u r) w =
     (case run_state (delete_finish E u r) w of
        (Panicked, w') \<Rightarrow> (Crashed, w')
      | (Finished _, w') \<Rightarrow> (Done, w'))"
| "advance E (DetachedCopy j) w = (Done, snd (run_state (create_copy_rootfs E (j_id j)) w))"
| "advance E (DetachedNetwork a) w = (Done, snd (run_state (create_network E a) w))"
| "advance E Done w = (Done, w)"
| "advance E Crashed w = (Crashed, w)"

text \<open>Which segments start by taking the lock on the VM map, and between which it stays held.\<close>

fun needs_lock :: "pc \<Rightarrow> bool" where
  "needs_lock (Reserving _ _ _) = True"
| "needs_lock (Failing _) = True"
| "needs_lock (Upgrading _ _ _ _) = True"
| "needs_lock (Deleting _) = True"
| "needs_lock _ = False"

fun holds_lock :: "pc \<Rightarrow> bool" where
  "holds_lock (FailReleasing _ _) = True"
| "holds_lock (Stopping _ _ _) = True"
| "holds_lock (DeleteReleasing _ _) = True"
| "holds_lock _ = False"

fun finished :: "pc \<Rightarrow> bool" where
  "finished Done = True"
| "finished Crashed = True"
| "finished _ = False"

text \<open>The id of the create whose guard is armed, and the instance in a local variable.\<close>

fun guarded :: "pc \<Rightarrow> uuid option" where
  "guarded (SettingUp j _) = Some (j_id j)"
| "guarded (Failing j) = Some (j_id j)"
| "guarded (FailReleasing j _) = Some (j_id j)"
| "guarded (Upgrading j _ _ _) = Some (j_id j)"
| "guarded _ = None"

fun local_instance :: "pc \<Rightarrow> instance_handle option" where
  "local_instance (Upgrading _ _ inst _) = Some inst"
| "local_instance (Stopping _ inst _) = Some inst"
| "local_instance (Reporting _ _ inst _ installed) = (if installed then None else Some inst)"
| "local_instance _ = None"

text \<open>
  A blocking call goes on in its own thread when the future that waits for it is dropped: it
  still makes the copy, or the device and the rules, and its result is lost.
\<close>

fun detached :: "pc \<Rightarrow> pc option" where
  "detached (Copying j) = Some (DetachedCopy j)"
| "detached (Networking _ a) = Some (DetachedNetwork a)"
| "detached _ = None"

text \<open>Dropping a task's future: its variables in reverse order, the guard last.\<close>

definition drop_task :: "env \<Rightarrow> bool \<Rightarrow> bool \<Rightarrow> pc \<Rightarrow> world \<Rightarrow> world" where
  "drop_task E vms_free pool_free pc w =
     snd (run_state (do {
       _ \<leftarrow> (case local_instance pc of
               None \<Rightarrow> ret ()
             | Some inst \<Rightarrow> lift_io (drop_instance inst));
       (case guarded pc of
          None \<Rightarrow> ret (Finished ())
        | Some u \<Rightarrow> create_guard_drop E vms_free pool_free u)
     }) w)"

section \<open>The system\<close>

record system =
  sys_world :: world
  tasks :: "nat \<Rightarrow> pc option"
  vms_owner :: "nat option"
  drawn :: "uuid set"

datatype label = Request nat | Work nat | Abandon nat | Other history

text \<open>\<open>main\<close> has swept the host before it serves: nothing of an earlier run is left on it.\<close>

definition initial :: "history \<Rightarrow> capacity \<Rightarrow> jailer_config \<Rightarrow> gateway_client option \<Rightarrow> system" where
  "initial h cap jc gw =
     \<lparr>sys_world = \<lparr>hist = h, app = create_app cap jc gw\<rparr>, tasks = (\<lambda>_. None),
      vms_owner = None, drawn = {}\<rparr>"

definition sys_vms :: "system \<Rightarrow> vm_map" where
  "sys_vms s = st_vms (app (sys_world s))"

definition sys_pool :: "system \<Rightarrow> subnet_pool" where
  "sys_pool s = st_pool (app (sys_world s))"

text \<open>
  Every request is accepted at any time; UUIDs are drawn without repetition. A segment that
  takes the lock waits until it is free.
\<close>

inductive sys_step :: "env \<Rightarrow> system \<Rightarrow> label \<Rightarrow> system \<Rightarrow> bool" for E where
  create_request:
    "create_validate req = Inr (v, m) \<Longrightarrow> tasks s t = None \<Longrightarrow> u \<notin> drawn s \<Longrightarrow>
     sys_step E s (Request t)
       (s\<lparr>tasks := (tasks s)(t \<mapsto> Copying \<lparr>j_id = u, j_vcpus = v, j_memory_mb = m, j_keys = request_keys req\<rparr>),
          drawn := insert u (drawn s)\<rparr>)"
| delete_request:
    "tasks s t = None \<Longrightarrow> sys_step E s (Request t) (s\<lparr>tasks := (tasks s)(t \<mapsto> Deleting u)\<rparr>)"
| work:
    "tasks s t = Some pc \<Longrightarrow> \<not> finished pc \<Longrightarrow> (needs_lock pc \<Longrightarrow> vms_owner s = None) \<Longrightarrow>
     advance E pc (sys_world s) = (pc', w') \<Longrightarrow>
     sys_step E s (Work t)
       (s\<lparr>sys_world := w', tasks := (tasks s)(t \<mapsto> pc'),
          vms_owner := (if holds_lock pc' then Some t else if holds_lock pc then None else vms_owner s)\<rparr>)"
| abandon:
    "tasks s t = Some pc \<Longrightarrow> \<not> finished pc \<Longrightarrow>
     (vms_free \<Longrightarrow> vms_owner s = None \<or> vms_owner s = Some t) \<Longrightarrow>
     sys_step E s (Abandon t)
       (s\<lparr>sys_world := drop_task E vms_free pool_free pc (sys_world s), tasks := (tasks s)(t \<mapsto> Done),
          vms_owner := (if holds_lock pc then None else vms_owner s)\<rparr>)"
| detach:
    "tasks s t = Some pc \<Longrightarrow> detached pc = Some pc' \<Longrightarrow>
     sys_step E s (Abandon t) (s\<lparr>tasks := (tasks s)(t \<mapsto> pc')\<rparr>)"
| list_query:
    "vms_owner s = None \<Longrightarrow>
     sys_step E s (Other []) (s\<lparr>sys_world := snd (run_state (list_vms E) (sys_world s))\<rparr>)"
| get_query:
    "vms_owner s = None \<Longrightarrow>
     sys_step E s (Other []) (s\<lparr>sys_world := snd (run_state (get_vm E u) (sys_world s))\<rparr>)"
| elapse:
    "sys_step E s (Other es) (s\<lparr>sys_world := (sys_world s)\<lparr>hist := hist (sys_world s) @ es\<rparr>\<rparr>)"

inductive reachable :: "env \<Rightarrow> (label \<Rightarrow> bool) \<Rightarrow> system \<Rightarrow> bool" for E allowed where
  start: "host_view h = ({}, 0, {}) \<Longrightarrow> reachable E allowed (initial h cap jc gw)"
| step: "reachable E allowed s \<Longrightarrow> sys_step E s l s' \<Longrightarrow> allowed l \<Longrightarrow> reachable E allowed s'"

inductive_cases sys_stepE: "sys_step E s l s'"
inductive_simps work_iff: "sys_step E s (Work t) s'"
inductive_simps abandon_iff: "sys_step E s (Abandon t) s'"

section \<open>Ownership of subnets\<close>

text \<open>
  A subnet in use belongs to one holder: an entry of the VM map, or a task between the
  allocation and the reservation or between a removal and the release.
\<close>

datatype holder = InMap uuid | InTask nat

fun pc_subnet :: "pc \<Rightarrow> u16 option" where
  "pc_subnet (Networking _ a) = Some (sub_index a)"
| "pc_subnet (Unwinding _ a _) = Some (sub_index a)"
| "pc_subnet (Reserving _ a _) = Some (sub_index a)"
| "pc_subnet (FailReleasing _ r) = vr_subnet_index r"
| "pc_subnet (Stopping _ _ r) = vr_subnet_index r"
| "pc_subnet (DeleteReleasing _ r) = vr_subnet_index r"
| "pc_subnet _ = None"

fun holder_index :: "vm_map \<Rightarrow> (nat \<Rightarrow> pc option) \<Rightarrow> holder \<Rightarrow> u16 option" where
  "holder_index vms ts (InMap u) =
     (case hm_get vms u of None \<Rightarrow> None | Some e \<Rightarrow> vr_subnet_index (entry_resources e))"
| "holder_index vms ts (InTask t) = (case ts t of None \<Rightarrow> None | Some pc \<Rightarrow> pc_subnet pc)"

definition own_ok :: "bool \<Rightarrow> ('h \<Rightarrow> 'i option) \<Rightarrow> 'i set \<Rightarrow> bool" where
  "own_ok tight hi used \<longleftrightarrow>
     (\<forall>h i. hi h = Some i \<longrightarrow> i \<in> used)
     \<and> (\<forall>h h' i. hi h = Some i \<longrightarrow> hi h' = Some i \<longrightarrow> h = h')
     \<and> (tight \<longrightarrow> (\<forall>i \<in> used. \<exists>h. hi h = Some i))"

lemma own_okI:
  "(\<And>h i. hi h = Some i \<Longrightarrow> i \<in> used) \<Longrightarrow>
   (\<And>h h' i. hi h = Some i \<Longrightarrow> hi h' = Some i \<Longrightarrow> h = h') \<Longrightarrow>
   (\<And>i. tight \<Longrightarrow> i \<in> used \<Longrightarrow> \<exists>h. hi h = Some i) \<Longrightarrow> own_ok tight hi used"
  unfolding own_ok_def by blast

lemma own_okD:
  assumes "own_ok tight hi used"
  shows "hi h = Some i \<Longrightarrow> i \<in> used" "hi h = Some i \<Longrightarrow> hi h' = Some i \<Longrightarrow> h = h'"
    "tight \<Longrightarrow> i \<in> used \<Longrightarrow> \<exists>h. hi h = Some i"
  using assms unfolding own_ok_def by blast+

named_theorems own \<open>how ownership changes hands\<close>

lemma own_acquire [own]:
  assumes ok: "own_ok tight hi used" and i: "i \<notin> used" and h: "hi h = None"
  shows "own_ok tight (hi(h \<mapsto> i)) (insert i used)"
proof (rule own_okI)
  fix k j
  assume "(hi(h \<mapsto> i)) k = Some j"
  then show "j \<in> insert i used" using own_okD(1) [OF ok, of k j] by (cases "k = h") simp_all
next
  fix k k' j
  assume "(hi(h \<mapsto> i)) k = Some j" "(hi(h \<mapsto> i)) k' = Some j"
  then show "k = k'"
    using own_okD(1) [OF ok, of k j] own_okD(1) [OF ok, of k' j] own_okD(2) [OF ok, of k j k'] i
    by (cases "k = h"; cases "k' = h") auto
next
  fix j
  assume "tight" "j \<in> insert i used"
  show "\<exists>k. (hi(h \<mapsto> i)) k = Some j"
  proof (cases "j = i")
    case False
    with \<open>j \<in> insert i used\<close> own_okD(3) [OF ok \<open>tight\<close>] obtain k where "hi k = Some j" by auto
    with h have "(hi(h \<mapsto> i)) k = Some j" by (cases "k = h") simp_all
    then show ?thesis by blast
  qed (auto intro: exI [of _ h])
qed

lemma own_release [own]:
  assumes ok: "own_ok tight hi used" and h: "hi h = Some i"
  shows "own_ok tight (hi(h := None)) (used - {i})"
proof (rule own_okI)
  fix k j
  assume "(hi(h := None)) k = Some j"
  then show "j \<in> used - {i}"
    using own_okD(1) [OF ok, of k j] own_okD(2) [OF ok h, of k] by (cases "k = h") auto
next
  fix k k' j
  assume "(hi(h := None)) k = Some j" "(hi(h := None)) k' = Some j"
  then show "k = k'" using own_okD(2) [OF ok, of k j k'] by (simp split: if_splits)
next
  fix j
  assume "tight" "j \<in> used - {i}"
  with own_okD(3) [OF ok \<open>tight\<close>] obtain k where "hi k = Some j" "j \<noteq> i" by auto
  with h have "(hi(h := None)) k = Some j" by (cases "k = h") simp_all
  then show "\<exists>k. (hi(h := None)) k = Some j" by blast
qed

lemma own_leak [own]:
  assumes ok: "own_ok tight hi used"
  shows "own_ok False (hi(h := None)) used"
  using own_okD(1,2) [OF ok] by (intro own_okI) (auto split: if_splits)

lemma own_none [own]: "own_ok tight hi used \<Longrightarrow> hi h = None \<Longrightarrow> own_ok tight (hi(h := None)) used"
  by (simp add: fun_upd_idem)

text \<open>A transfer is a release followed by an acquisition.\<close>

lemma own_move [own]:
  assumes ok: "own_ok tight hi used" and h: "hi h = Some i" and h': "hi h' = None"
  shows "own_ok tight (hi(h := None, h' \<mapsto> i)) used"
proof -
  from own_release [OF ok h] have "own_ok tight (hi(h := None)) (used - {i})" .
  moreover have "(hi(h := None)) h' = None" using h' by simp
  ultimately have "own_ok tight ((hi(h := None))(h' \<mapsto> i)) (insert i (used - {i}))"
    by (intro own_acquire) simp_all
  moreover have "insert i (used - {i}) = used" using own_okD(1) [OF ok h] by auto
  ultimately show ?thesis by simp
qed

section \<open>The invariant\<close>

definition alloc_ok :: "subnet_allocation \<Rightarrow> bool" where
  "alloc_ok a \<longleftrightarrow> sub_index a \<in> pool_range \<and> sub_tap_name a = tap_name (sub_index a)
     \<and> guest_ip a = subnet_guest_ip (sub_index a) \<and> tap_ip a = subnet_tap_ip (sub_index a)"

definition res_ok :: "vm_resources \<Rightarrow> bool" where
  "res_ok r \<longleftrightarrow> (\<exists>i \<in> pool_range. vr_subnet_index r = Some i \<and> vr_tap_name r = Some (tap_name i)
     \<and> vr_guest_ip r = Some (ipv4_to_string (subnet_guest_ip i)))"

fun pc_ok :: "pc \<Rightarrow> bool" where
  "pc_ok (Networking _ a) = alloc_ok a"
| "pc_ok (Unwinding _ a _) = alloc_ok a"
| "pc_ok (Reserving _ a _) = alloc_ok a"
| "pc_ok (FailReleasing _ r) = res_ok r"
| "pc_ok (Stopping _ _ r) = res_ok r"
| "pc_ok (DeleteReleasing _ r) = res_ok r"
| "pc_ok (DetachedNetwork a) = alloc_ok a"
| "pc_ok Crashed = False"
| "pc_ok _ = True"

text \<open>The id of a create; where its entry must be absent, and where its placeholder must be there.\<close>

fun pc_id :: "pc \<Rightarrow> uuid option" where
  "pc_id (Copying j) = Some (j_id j)"
| "pc_id (Allocating j) = Some (j_id j)"
| "pc_id (Networking j _) = Some (j_id j)"
| "pc_id (Unwinding j _ _) = Some (j_id j)"
| "pc_id (Reserving j _ _) = Some (j_id j)"
| "pc_id (SettingUp j _) = Some (j_id j)"
| "pc_id (Failing j) = Some (j_id j)"
| "pc_id (FailReleasing j _) = Some (j_id j)"
| "pc_id (Upgrading j _ _ _) = Some (j_id j)"
| "pc_id (Reporting j _ _ _ _) = Some (j_id j)"
| "pc_id _ = None"

fun placed :: "pc \<Rightarrow> bool" where
  "placed (SettingUp _ _) = True"
| "placed (Failing _) = True"
| "placed (Upgrading _ _ _ _) = True"
| "placed _ = False"

fun absent :: "pc \<Rightarrow> bool" where
  "absent (Copying _) = True"
| "absent (Allocating _) = True"
| "absent (Networking _ _) = True"
| "absent (Unwinding _ _ _) = True"
| "absent (Reserving _ _ _) = True"
| "absent (FailReleasing _ _) = True"
| "absent _ = False"

definition is_creating :: "vm_entry option \<Rightarrow> bool" where
  "is_creating x = (case x of Some (Creating _) \<Rightarrow> True | _ \<Rightarrow> False)"

definition task_ok :: "vm_map \<Rightarrow> uuid set \<Rightarrow> pc \<Rightarrow> bool" where
  "task_ok vms ids pc \<longleftrightarrow> pc_ok pc
     \<and> (case pc_id pc of
          None \<Rightarrow> True
        | Some u \<Rightarrow> u \<in> ids \<and> (placed pc \<longrightarrow> is_creating (hm_get vms u))
            \<and> (absent pc \<longrightarrow> hm_get vms u = None))"

definition entries_ok :: "vm_map \<Rightarrow> uuid set \<Rightarrow> bool" where
  "entries_ok vms ids \<longleftrightarrow> (\<forall>u e. hm_get vms u = Some e \<longrightarrow> u \<in> ids \<and> res_ok (entry_resources e))"

definition tasks_ok :: "vm_map \<Rightarrow> uuid set \<Rightarrow> (nat \<Rightarrow> pc option) \<Rightarrow> bool" where
  "tasks_ok vms ids ts \<longleftrightarrow> (\<forall>t pc. ts t = Some pc \<longrightarrow> task_ok vms ids pc)"

definition ids_unique :: "(nat \<Rightarrow> pc option) \<Rightarrow> bool" where
  "ids_unique ts \<longleftrightarrow> (\<forall>t t' pc pc' u. ts t = Some pc \<longrightarrow> ts t' = Some pc' \<longrightarrow>
     pc_id pc = Some u \<longrightarrow> pc_id pc' = Some u \<longrightarrow> t = t')"

definition lock_ok :: "nat option \<Rightarrow> (nat \<Rightarrow> pc option) \<Rightarrow> bool" where
  "lock_ok owner ts \<longleftrightarrow> (\<forall>t. owner = Some t \<longleftrightarrow> (\<exists>pc. ts t = Some pc \<and> holds_lock pc))"

definition store_ok :: "bool \<Rightarrow> capacity \<Rightarrow> vm_map \<Rightarrow> subnet_pool \<Rightarrow> (nat \<Rightarrow> pc option) \<Rightarrow> bool" where
  "store_ok tight cap vms pool ts \<longleftrightarrow>
     hm_ok vms \<and> pool_ok pool \<and> fits cap vms \<and> own_ok tight (holder_index vms ts) (pool_used pool)"

definition inv :: "bool \<Rightarrow> system \<Rightarrow> bool" where
  "inv tight s \<longleftrightarrow>
     store_ok tight (st_capacity (app (sys_world s))) (sys_vms s) (sys_pool s) (tasks s)
     \<and> entries_ok (sys_vms s) (drawn s) \<and> tasks_ok (sys_vms s) (drawn s) (tasks s)
     \<and> ids_unique (tasks s) \<and> lock_ok (vms_owner s) (tasks s)"

lemma holder_index_none: "holder_index [] (\<lambda>_. None) h = None"
  by (cases h) simp_all

lemma inv_initial: "inv tight (initial h cap jc gw)"
  by (simp add: inv_def initial_def sys_vms_def sys_pool_def create_app_def store_ok_def pool_ok_new
      entries_ok_def tasks_ok_def ids_unique_def lock_ok_def own_ok_def pool_used_new holder_index_none)

text \<open>How the holders change with one task or one entry.\<close>

lemma holder_index_task:
  "holder_index vms (ts(t \<mapsto> pc)) = (holder_index vms ts)(InTask t := pc_subnet pc)"
proof
  fix h
  show "holder_index vms (ts(t \<mapsto> pc)) h = ((holder_index vms ts)(InTask t := pc_subnet pc)) h"
    by (cases h) auto
qed

definition entry_index :: "vm_entry option \<Rightarrow> u16 option" where
  "entry_index x = (case x of None \<Rightarrow> None | Some e \<Rightarrow> vr_subnet_index (entry_resources e))"

lemma entry_index_simps [simp]:
  "entry_index None = None" "entry_index (Some e) = vr_subnet_index (entry_resources e)"
  by (simp_all add: entry_index_def)

lemma holder_index_map:
  "hm_get vms' = (hm_get vms)(u := x) \<Longrightarrow>
   holder_index vms' ts = (holder_index vms ts)(InMap u := entry_index x)"
proof
  fix h
  assume "hm_get vms' = (hm_get vms)(u := x)"
  then show "holder_index vms' ts h = ((holder_index vms ts)(InMap u := entry_index x)) h"
    by (cases h) (simp_all add: entry_index_def)
qed

text \<open>
  The parts that do not depend on the kind of step. A change of the entry of \<open>u\<close> does not
  disturb a task that neither needs \<open>u\<close> absent nor needs its placeholder.
\<close>

lemma task_ok_frame:
  assumes "task_ok vms ids pc" and "hm_get vms' = (hm_get vms)(u := x)"
    and "pc_id pc = Some u \<Longrightarrow> \<not> placed pc \<and> \<not> absent pc"
  shows "task_ok vms' ids pc"
  using assms by (auto simp: task_ok_def split: option.splits)

lemma tasks_ok_update:
  assumes ok: "tasks_ok vms ids ts" and vms': "hm_get vms' = (hm_get vms)(u := x)"
    and others: "\<And>t' pc2. t' \<noteq> t \<Longrightarrow> ts t' = Some pc2 \<Longrightarrow> pc_id pc2 = Some u \<Longrightarrow>
      \<not> placed pc2 \<and> \<not> absent pc2"
    and own: "task_ok vms' ids pc'"
  shows "tasks_ok vms' ids (ts(t \<mapsto> pc'))"
  unfolding tasks_ok_def
proof (intro allI impI)
  fix t' pc2
  assume pc2: "(ts(t \<mapsto> pc')) t' = Some pc2"
  show "task_ok vms' ids pc2"
  proof (cases "t' = t")
    case True
    with pc2 own show ?thesis by simp
  next
    case False
    with pc2 have "ts t' = Some pc2" by simp
    with ok have "task_ok vms ids pc2" by (simp add: tasks_ok_def)
    from this vms' others [OF False \<open>ts t' = Some pc2\<close>] show ?thesis by (rule task_ok_frame)
  qed
qed

lemma tasks_ok_update_same:
  "tasks_ok vms ids ts \<Longrightarrow> task_ok vms ids pc' \<Longrightarrow> tasks_ok vms ids (ts(t \<mapsto> pc'))"
  by (simp add: tasks_ok_def)

lemma ids_unique_update:
  assumes "ids_unique ts" and "ts t = Some pc" and "pc_id pc' = pc_id pc \<or> pc_id pc' = None"
  shows "ids_unique (ts(t \<mapsto> pc'))"
  using assms unfolding ids_unique_def by (metis fun_upd_apply option.distinct(1) option.inject)

lemma lock_ok_update:
  assumes "lock_ok owner ts" and "ts t = Some pc"
    and "holds_lock pc' \<Longrightarrow> holds_lock pc \<or> owner = None"
  shows "lock_ok (if holds_lock pc' then Some t else if holds_lock pc then None else owner) (ts(t \<mapsto> pc'))"
  using assms unfolding lock_ok_def by (auto split: if_splits) (metis option.inject)

lemma ids_uniqueD:
  "ids_unique ts \<Longrightarrow> ts t = Some pc \<Longrightarrow> ts t' = Some pc' \<Longrightarrow> pc_id pc = Some u \<Longrightarrow> pc_id pc' = Some u \<Longrightarrow> t = t'"
  unfolding ids_unique_def by blast

lemma fits_remove: "hm_ok m \<Longrightarrow> fits cap m \<Longrightarrow> fits cap (hm_remove u m)"
proof (cases "hm_get m u")
  case (Some e)
  assume "hm_ok m" "fits cap m"
  with hm_total_remove [OF _ Some, of entry_vcpus] hm_total_remove [OF _ Some, of entry_memory]
  show ?thesis by (simp add: fits_def)
qed (simp add: hm_remove_absent)

lemma fits_reinsert:
  "hm_ok m \<Longrightarrow> fits cap m \<Longrightarrow> hm_get m u = Some e \<Longrightarrow> entry_resources e' = entry_resources e \<Longrightarrow>
   fits cap (hm_insert u e' (hm_remove u m))"
  by (simp add: fits_def hm_total_reinsert [where v = e] entry_vcpus_def entry_memory_def)

text \<open>One rule for every step of a task that touches at most the entry \<open>u\<close> and the pool.\<close>

lemma inv_task_step:
  assumes inv: "inv tight s" and t: "tasks s t = Some pc"
    and app: "app w' = (app (sys_world s))\<lparr>st_vms := m, st_pool := p\<rparr>"
    and m: "hm_get m = (hm_get (sys_vms s))(u := x)" "hm_ok m"
      "fits (st_capacity (app (sys_world s))) m"
    and x: "\<And>e. x = Some e \<Longrightarrow> u \<in> drawn s \<and> res_ok (entry_resources e)"
    and pool: "pool_ok p"
      "own_ok tight' ((holder_index (sys_vms s) (tasks s))(InMap u := entry_index x, InTask t := pc_subnet pc'))
         (pool_used p)"
    and others: "\<And>t' pc2. t' \<noteq> t \<Longrightarrow> tasks s t' = Some pc2 \<Longrightarrow> pc_id pc2 = Some u \<Longrightarrow>
      \<not> placed pc2 \<and> \<not> absent pc2"
    and pc': "task_ok m (drawn s) pc'" "pc_id pc' = pc_id pc \<or> pc_id pc' = None"
    and lock: "holds_lock pc' \<Longrightarrow> holds_lock pc \<or> vms_owner s = None"
  shows "inv tight' (s\<lparr>sys_world := w', tasks := (tasks s)(t \<mapsto> pc'),
      vms_owner := (if holds_lock pc' then Some t else if holds_lock pc then None else vms_owner s)\<rparr>)"
proof -
  from inv have i: "entries_ok (sys_vms s) (drawn s)" "tasks_ok (sys_vms s) (drawn s) (tasks s)"
    "ids_unique (tasks s)" "lock_ok (vms_owner s) (tasks s)" by (simp_all add: inv_def)
  have "holder_index m ((tasks s)(t \<mapsto> pc')) =
      (holder_index (sys_vms s) (tasks s))(InMap u := entry_index x, InTask t := pc_subnet pc')"
    by (simp add: holder_index_task holder_index_map [OF m(1)])
  with pool have "own_ok tight' (holder_index m ((tasks s)(t \<mapsto> pc'))) (pool_used p)" by simp
  moreover have "entries_ok m (drawn s)" using i(1) x m(1) by (auto simp: entries_ok_def)
  moreover have "tasks_ok m (drawn s) ((tasks s)(t \<mapsto> pc'))"
    using tasks_ok_update [OF i(2) m(1) others pc'(1)] .
  ultimately show ?thesis
    using app m(2,3) pool(1) ids_unique_update [OF i(3) t pc'(2)] lock_ok_update [OF i(4) t lock]
    by (simp add: inv_def store_ok_def sys_vms_def sys_pool_def)
qed

text \<open>The same for a step that leaves the map alone.\<close>

lemma inv_pool_step:
  assumes inv: "inv tight s" and t: "tasks s t = Some pc"
    and app: "app w' = (app (sys_world s))\<lparr>st_pool := p\<rparr>"
    and pool: "pool_ok p"
      "own_ok tight' ((holder_index (sys_vms s) (tasks s))(InTask t := pc_subnet pc')) (pool_used p)"
    and pc': "pc_ok pc'" "pc_id pc' = pc_id pc \<or> pc_id pc' = None"
      "pc_id pc' = None \<or> (placed pc' \<longrightarrow> placed pc) \<and> (absent pc' \<longrightarrow> absent pc)"
    and lock: "holds_lock pc' \<Longrightarrow> holds_lock pc"
  shows "inv tight' (s\<lparr>sys_world := w', tasks := (tasks s)(t \<mapsto> pc'),
      vms_owner := (if holds_lock pc' then Some t else if holds_lock pc then None else vms_owner s)\<rparr>)"
proof -
  from inv have i: "entries_ok (sys_vms s) (drawn s)" "tasks_ok (sys_vms s) (drawn s) (tasks s)"
    "ids_unique (tasks s)" "lock_ok (vms_owner s) (tasks s)" "hm_ok (sys_vms s)"
    "fits (st_capacity (app (sys_world s))) (sys_vms s)"
    by (simp_all add: inv_def store_ok_def)
  have "task_ok (sys_vms s) (drawn s) pc" using i(2) t by (simp add: tasks_ok_def)
  with pc' have "task_ok (sys_vms s) (drawn s) pc'"
    by (auto simp: task_ok_def split: option.splits)
  with i(2) have "tasks_ok (sys_vms s) (drawn s) ((tasks s)(t \<mapsto> pc'))" by (rule tasks_ok_update_same)
  with app pool i(1,5,6) ids_unique_update [OF i(3) t pc'(2)] lock_ok_update [OF i(4) t] lock
  show ?thesis
    by (simp add: inv_def store_ok_def sys_vms_def sys_pool_def holder_index_task)
qed

section \<open>Every segment preserves the invariant\<close>

definition moved :: "system \<Rightarrow> nat \<Rightarrow> pc \<Rightarrow> pc \<Rightarrow> world \<Rightarrow> system" where
  "moved s t pc pc' w' = s\<lparr>sys_world := w', tasks := (tasks s)(t \<mapsto> pc'),
     vms_owner := (if holds_lock pc' then Some t else if holds_lock pc then None else vms_owner s)\<rparr>"

lemmas inv_task_step_moved = inv_task_step [folded moved_def]
lemmas inv_pool_step_moved = inv_pool_step [folded moved_def]

lemma inv_facts:
  assumes "inv tight s" and "tasks s t = Some pc"
  shows "hm_ok (sys_vms s)" "pool_ok (sys_pool s)" "fits (st_capacity (app (sys_world s))) (sys_vms s)"
    "own_ok tight (holder_index (sys_vms s) (tasks s)) (pool_used (sys_pool s))"
    "task_ok (sys_vms s) (drawn s) pc" "pc_ok pc"
    "holder_index (sys_vms s) (tasks s) (InTask t) = pc_subnet pc"
    "entries_ok (sys_vms s) (drawn s)" "ids_unique (tasks s)" "tasks_ok (sys_vms s) (drawn s) (tasks s)"
  using assms by (auto simp: inv_def store_ok_def tasks_ok_def task_ok_def)

text \<open>A segment that only talks to the host.\<close>

lemma inv_host_step:
  assumes inv: "inv tight s" and t: "tasks s t = Some pc"
    and app: "app w' = app (sys_world s)" and sub: "pc_subnet pc' = pc_subnet pc"
    and pc': "pc_ok pc'" "pc_id pc' = pc_id pc \<or> pc_id pc' = None"
      "pc_id pc' = None \<or> (placed pc' \<longrightarrow> placed pc) \<and> (absent pc' \<longrightarrow> absent pc)"
    and lock: "holds_lock pc' \<Longrightarrow> holds_lock pc"
  shows "inv tight (moved s t pc pc' w')"
proof (rule inv_pool_step_moved [OF inv t _ inv_facts(2) [OF inv t] _ pc' lock])
  show "app w' = (app (sys_world s))\<lparr>st_pool := sys_pool s\<rparr>" using app by (simp add: sys_pool_def)
  show "own_ok tight ((holder_index (sys_vms s) (tasks s))(InTask t := pc_subnet pc')) (pool_used (sys_pool s))"
    using inv_facts(4,7) [OF inv t] sub by (simp add: fun_upd_idem)
qed

text \<open>A segment that ends by releasing the task's subnet.\<close>

lemma inv_release_step:
  assumes inv: "inv tight s" and t: "tasks s t = Some pc" and i: "pc_subnet pc = Some i"
    and p: "pool_release i (sys_pool s) = Some p"
    and app: "app w' = (app (sys_world s))\<lparr>st_pool := p\<rparr>" and rng: "i \<in> pool_range"
  shows "inv tight (moved s t pc Done w')"
proof (rule inv_pool_step_moved [OF inv t app])
  from subnets.release_ok [OF inv_facts(2) [OF inv t] rng] p
  have "pool_used p = pool_used (sys_pool s) - {i}" and "pool_ok p" by auto
  then show "own_ok tight ((holder_index (sys_vms s) (tasks s))(InTask t := pc_subnet Done)) (pool_used p)"
    and "pool_ok p"
    using own_release [OF inv_facts(4) [OF inv t], of "InTask t" i] inv_facts(7) [OF inv t] i by simp_all
qed simp_all

lemma release_exists:
  "inv tight s \<Longrightarrow> tasks s t = Some pc \<Longrightarrow> i \<in> pool_range \<Longrightarrow> \<exists>p. pool_release i (sys_pool s) = Some p"
  using subnets.release_ok inv_facts(2) by blast

lemma work_Copying:
  assumes "inv tight s" "tasks s t = Some (Copying j)" "advance E (Copying j) (sys_world s) = (pc', w')"
  shows "inv tight (moved s t (Copying j) pc' w')"
proof -
  have "app w' = app (sys_world s)"
    using assms(3) app_kept_handlers(3) [of E "j_id j"]
    by (auto simp: app_kept_def split: prod.splits sum.splits) (metis snd_conv)+
  then show ?thesis
    using assms by (auto intro!: inv_host_step split: prod.splits sum.splits)
qed

lemma work_Allocating:
  assumes inv: "inv tight s" and t: "tasks s t = Some (Allocating j)"
    and adv: "advance E (Allocating j) (sys_world s) = (pc', w')"
  shows "inv tight (moved s t (Allocating j) pc' w')"
proof (cases "pool_allocate (sys_pool s)")
  case None
  with adv inv t show ?thesis
    by (auto intro!: inv_host_step simp: run_create_alloc sys_pool_def)
next
  case (Some ap)
  obtain a p where ap: "ap = (a, p)" by fastforce
  from adv Some ap have eq: "pc' = Networking j a" "w' = (sys_world s)\<lparr>app := (app (sys_world s))\<lparr>st_pool := p\<rparr>\<rparr>"
    by (auto simp: run_create_alloc sys_pool_def)
  note al = pool_allocate_Some [OF inv_facts(2) [OF inv t] Some [unfolded ap]]
  have "own_ok tight ((holder_index (sys_vms s) (tasks s))(InTask t \<mapsto> sub_index a)) (pool_used p)"
    using own_acquire [OF inv_facts(4) [OF inv t] al(1), of "InTask t"] inv_facts(7) [OF inv t] al(4) by simp
  moreover have "pc_ok (Networking j a)" using al by (simp add: alloc_ok_def)
  ultimately show ?thesis
    unfolding eq using al(3) by (intro inv_pool_step_moved [OF inv t, where p = p]) simp_all
qed

lemma work_Networking:
  assumes inv: "inv tight s" and t: "tasks s t = Some (Networking j a)"
    and adv: "advance E (Networking j a) (sys_world s) = (pc', w')"
    and join: "tight \<Longrightarrow> env_spawn_blocking E (hist (sys_world s))"
  shows "inv tight (moved s t (Networking j a) pc' w')"
proof -
  obtain r w1 where r: "run_state (create_network E a) (sys_world s) = (r, w1)" by fastforce
  have app: "app w1 = app (sys_world s)" using app_keptD [OF app_kept_handlers(4) r] .
  have ok: "alloc_ok a" using inv_facts(6) [OF inv t] by simp
  show ?thesis
  proof (cases r)
    case None
    with r have "\<not> env_spawn_blocking E (hist (sys_world s))"
      by (auto simp: create_network_def prims spawn_blocking_def split: prod.splits)
    with join have "\<not> tight" by blast
    with own_leak [OF inv_facts(4) [OF inv t], of "InTask t"] inv_facts(2) [OF inv t] adv r None app
    show ?thesis
      by (auto intro!: inv_pool_step_moved [OF inv t] simp: sys_pool_def)
  next
    case (Some q)
    with adv r app ok inv t show ?thesis
      by (cases q) (auto intro!: inv_host_step)
  qed
qed

lemma work_Unwinding:
  assumes inv: "inv tight s" and t: "tasks s t = Some (Unwinding j a e)"
    and adv: "advance E (Unwinding j a e) (sys_world s) = (pc', w')"
  shows "inv tight (moved s t (Unwinding j a e) pc' w')"
proof -
  have rng: "sub_index a \<in> pool_range" using inv_facts(6) [OF inv t] by (simp add: alloc_ok_def)
  from release_exists [OF inv t rng] obtain p where p: "pool_release (sub_index a) (sys_pool s) = Some p" by blast
  with adv have "pc' = Done" "app w' = (app (sys_world s))\<lparr>st_pool := p\<rparr>"
    by (auto simp: run_create_unwind sys_pool_def)
  with inv_release_step [OF inv t _ p _ rng] show ?thesis by simp
qed

text \<open>The segments that change the map.\<close>

lemma others_other_id:
  assumes inv: "inv tight s" and t: "tasks s t = Some pc" and u: "pc_id pc = Some u"
    and "t' \<noteq> t" and "tasks s t' = Some pc2" and "pc_id pc2 = Some u"
  shows "\<not> placed pc2 \<and> \<not> absent pc2"
  using ids_uniqueD [OF inv_facts(9) [OF inv t] t assms(5) u assms(6)] assms(4) by simp

lemma work_Reserving:
  assumes inv: "inv tight s" and t: "tasks s t = Some (Reserving j a hs)"
    and adv: "advance E (Reserving j a hs) (sys_world s) = (pc', w')"
  shows "inv tight (moved s t (Reserving j a hs) pc' w')"
proof -
  let ?w = "sys_world s" and ?u = "j_id j"
  note f = inv_facts [OF inv t]
  have rng: "sub_index a \<in> pool_range" and ok: "alloc_ok a" using f(6) by (simp_all add: alloc_ok_def)
  have new: "hm_get (sys_vms s) ?u = None" and drawn: "?u \<in> drawn s"
    using f(5) by (simp_all add: task_ok_def)
  obtain av where av: "allocated_vcpus E (st_vms (app ?w)) = Some av"
    "unat av = hm_total entry_vcpus (sys_vms s)"
    using allocated_vcpus_exact [OF f(3)] by (auto simp: sys_vms_def)
  obtain am where am: "allocated_memory E (st_vms (app ?w)) = Some am"
    "unat am = hm_total entry_memory (sys_vms s)"
    using allocated_memory_exact [OF f(3)] by (auto simp: sys_vms_def)
  obtain r w1 where r: "run_state (create_reserve E ?u (j_vcpus j) (j_memory_mb j) (j_keys j) a hs) ?w = (r, w1)"
    by fastforce
  note eff = create_reserve_app [OF r av(1) am(1)]
  obtain p where p: "pool_release (sub_index a) (sys_pool s) = Some p"
    using release_exists [OF inv t rng] by blast
  show ?thesis
  proof (cases "capacity_check (st_capacity (app ?w)) av am (j_vcpus j) (j_memory_mb j)")
    case (Some e)
    with eff p have "r = Finished (Inl e)" "app w1 = (app ?w)\<lparr>st_pool := p\<rparr>"
      by (simp_all add: sys_pool_def)
    with adv r inv_release_step [OF inv t _ p _ rng] show ?thesis by simp
  next
    case None
    let ?res = "new_resources E (st_jailer (app ?w)) ?u (j_vcpus j) (j_memory_mb j) (j_keys j) a hs"
    let ?m = "hm_insert ?u (Creating ?res) (sys_vms s)"
    have "app w1 = (app ?w)\<lparr>st_vms := ?m, st_pool := sys_pool s\<rparr>" and r': "r = Finished (Inr ())"
      using eff None by (simp_all add: sys_vms_def sys_pool_def)
    moreover have "res_ok ?res" using ok by (simp add: res_ok_def new_resources_def alloc_ok_def)
    moreover have "fits (st_capacity (app ?w)) ?m"
      using capacity_check_None [OF f(3) av(2) am(2)] None new
      by (simp add: fits_def hmap entry_vcpus_def entry_memory_def new_resources_def)
    moreover have "own_ok tight ((holder_index (sys_vms s) (tasks s))
        (InMap ?u := entry_index (Some (Creating ?res)), InTask t := pc_subnet (SettingUp j a))) (pool_used (sys_pool s))"
      using own_move [OF f(4), of "InTask t" "sub_index a" "InMap ?u"] f(7) new
      by (simp add: new_resources_def fun_upd_twist)
    moreover have "task_ok ?m (drawn s) (SettingUp j a)"
      using drawn by (simp add: task_ok_def is_creating_def hmap)
    ultimately have "inv tight (moved s t (Reserving j a hs) (SettingUp j a) w1)"
      using drawn f(1,2) others_other_id [OF inv t, of ?u]
      by (intro inv_task_step_moved [OF inv t, where m = ?m and u = ?u and x = "Some (Creating ?res)" and p = "sys_pool s"])
        (auto simp: hmap)
    with adv r r' show ?thesis by simp
  qed
qed

lemma placedD:
  assumes "inv tight s" "tasks s t = Some pc" "placed pc" "pc_id pc = Some u"
  shows "\<exists>r. hm_get (sys_vms s) u = Some (Creating r) \<and> res_ok r \<and> u \<in> drawn s"
proof -
  from inv_facts(5) [OF assms(1,2)] assms(3,4) have "is_creating (hm_get (sys_vms s) u)" "u \<in> drawn s"
    by (simp_all add: task_ok_def)
  moreover from this obtain r where r: "hm_get (sys_vms s) u = Some (Creating r)"
    by (auto simp: is_creating_def split: option.splits vm_entry.splits)
  moreover have "res_ok (entry_resources (Creating r))"
    using inv_facts(8) [OF assms(1,2)] r unfolding entries_ok_def by blast
  ultimately show ?thesis by simp
qed

lemma work_SettingUp:
  assumes inv: "inv tight s" and t: "tasks s t = Some (SettingUp j a)"
    and adv: "advance E (SettingUp j a) (sys_world s) = (pc', w')"
  shows "inv tight (moved s t (SettingUp j a) pc' w')"
proof -
  obtain r w1 where r: "run_state (create_setup E (j_id j) (j_vcpus j) (j_memory_mb j) a) (sys_world s) = (r, w1)"
    by fastforce
  have "app w1 = app (sys_world s)" using app_keptD [OF app_kept_handlers(5) r] .
  with adv r inv t show ?thesis
    by (cases r) (auto intro!: inv_host_step)
qed

lemma work_Failing:
  assumes inv: "inv tight s" and t: "tasks s t = Some (Failing j)" and free: "vms_owner s = None"
    and adv: "advance E (Failing j) (sys_world s) = (pc', w')"
  shows "inv tight (moved s t (Failing j) pc' w')"
proof -
  let ?w = "sys_world s" and ?u = "j_id j"
  note f = inv_facts [OF inv t]
  from placedD [OF inv t] obtain r where r: "hm_get (sys_vms s) ?u = Some (Creating r)" "res_ok r" "?u \<in> drawn s"
    by auto
  from r(2) obtain i where i: "vr_subnet_index r = Some i" by (auto simp: res_ok_def)
  let ?m = "hm_remove ?u (sys_vms s)"
  have eq: "pc' = FailReleasing j r" "app w' = (app ?w)\<lparr>st_vms := ?m, st_pool := sys_pool s\<rparr>"
    using adv create_fail_begin_app [of E ?u ?w] r(1)
    by (auto simp: sys_vms_def sys_pool_def split: prod.splits option.splits)
  have "holder_index (sys_vms s) (tasks s) (InMap ?u) = Some i" using r(1) i by simp
  from own_move [OF f(4) this, of "InTask t"] f(7) i
  have "own_ok tight ((holder_index (sys_vms s) (tasks s))
      (InMap ?u := entry_index None, InTask t := pc_subnet (FailReleasing j r))) (pool_used (sys_pool s))" by simp
  moreover have "task_ok ?m (drawn s) (FailReleasing j r)" using r(2,3) by (simp add: task_ok_def hmap)
  ultimately show ?thesis
    unfolding eq(1) using eq(2) f(1,2,3) free others_other_id [OF inv t, of ?u]
    by (intro inv_task_step_moved [OF inv t, where m = ?m and u = ?u and x = None and p = "sys_pool s"])
      (auto simp: hmap fits_remove)
qed

lemma work_FailReleasing:
  assumes inv: "inv tight s" and t: "tasks s t = Some (FailReleasing j r)"
    and adv: "advance E (FailReleasing j r) (sys_world s) = (pc', w')"
  shows "inv tight (moved s t (FailReleasing j r) pc' w')"
proof -
  from inv_facts(6) [OF inv t] obtain i where i: "vr_subnet_index r = Some i" "i \<in> pool_range"
    by (auto simp: res_ok_def)
  from release_exists [OF inv t i(2)] obtain p where p: "pool_release i (sys_pool s) = Some p" by blast
  obtain q w1 where q: "run_state (release_resources E r) (sys_world s) = (q, w1)" by fastforce
  from release_resources_app [OF q] i p adv q
  have "pc' = Done" "app w' = (app (sys_world s))\<lparr>st_pool := p\<rparr>" by (auto simp: sys_pool_def)
  with inv_release_step [OF inv t _ p _ i(2)] i(1) show ?thesis by simp
qed

lemma work_Upgrading:
  assumes inv: "inv tight s" and t: "tasks s t = Some (Upgrading j a inst desc)"
    and adv: "advance E (Upgrading j a inst desc) (sys_world s) = (pc', w')"
  shows "inv tight (moved s t (Upgrading j a inst desc) pc' w') \<and> pc' = Reporting j a inst desc True"
proof -
  let ?w = "sys_world s" and ?u = "j_id j"
  note f = inv_facts [OF inv t]
  from placedD [OF inv t] obtain r where r: "hm_get (sys_vms s) ?u = Some (Creating r)" "res_ok r" "?u \<in> drawn s"
    by auto
  let ?m = "hm_insert ?u (Running inst r) (hm_remove ?u (sys_vms s))"
  have eq: "pc' = Reporting j a inst desc True" "app w' = (app ?w)\<lparr>st_vms := ?m, st_pool := sys_pool s\<rparr>"
    using adv create_upgrade_app [of ?u inst ?w] r(1)
    by (auto simp: sys_vms_def sys_pool_def split: prod.splits)
  have "holder_index (sys_vms s) (tasks s) (InMap ?u) = vr_subnet_index r" using r(1) by simp
  with f(4,7) have "own_ok tight ((holder_index (sys_vms s) (tasks s))
      (InMap ?u := entry_index (Some (Running inst r)), InTask t := pc_subnet (Reporting j a inst desc True)))
      (pool_used (sys_pool s))" by (simp add: fun_upd_idem)
  moreover have "fits (st_capacity (app ?w)) ?m" by (rule fits_reinsert [OF f(1,3) r(1)]) simp
  moreover have "task_ok ?m (drawn s) (Reporting j a inst desc True)" using r(3) by (simp add: task_ok_def)
  ultimately show ?thesis
    unfolding eq(1) using eq(2) f(1,2) r(2,3) others_other_id [OF inv t, of ?u]
    by (intro conjI inv_task_step_moved [OF inv t, where m = ?m and u = ?u and x = "Some (Running inst r)" and p = "sys_pool s"])
      (auto simp: hmap)
qed

lemma work_Reporting:
  assumes "inv tight s" "tasks s t = Some (Reporting j a inst desc b)"
    and "advance E (Reporting j a inst desc b) (sys_world s) = (pc', w')"
  shows "inv tight (moved s t (Reporting j a inst desc b) pc' w')"
proof -
  have "app w' = app (sys_world s)"
    using assms(3) app_kept_handlers(8) by (auto simp: app_kept_def)
  then show ?thesis using assms by (auto intro!: inv_host_step)
qed

lemma others_running:
  assumes inv: "inv tight s" and u: "hm_get (sys_vms s) u = Some (Running inst r)"
    and t: "tasks s t' = Some pc2" "pc_id pc2 = Some u"
  shows "\<not> placed pc2 \<and> \<not> absent pc2"
  using inv_facts(5) [OF inv t(1)] t(2) u by (auto simp: task_ok_def is_creating_def)

lemma work_Deleting:
  assumes inv: "inv tight s" and t: "tasks s t = Some (Deleting u)" and free: "vms_owner s = None"
    and adv: "advance E (Deleting u) (sys_world s) = (pc', w')"
  shows "inv tight (moved s t (Deleting u) pc' w')"
proof -
  let ?w = "sys_world s"
  note f = inv_facts [OF inv t]
  obtain b w1 where b: "run_state (delete_take u) ?w = (b, w1)" by fastforce
  note eff = delete_take_app [OF b, folded sys_vms_def]
  consider (absent) "hm_get (sys_vms s) u = None"
    | (creating) r where "hm_get (sys_vms s) u = Some (Creating r)"
    | (running) inst r where "hm_get (sys_vms s) u = Some (Running inst r)"
    by (cases "hm_get (sys_vms s) u"; cases "the (hm_get (sys_vms s) u)") auto
  then show ?thesis
  proof cases
    case absent
    with eff adv b have "pc' = Done" "app w' = app ?w"
      by (auto simp: hm_remove_absent sys_vms_def)
    with inv t show ?thesis by (auto intro!: inv_host_step)
  next
    case creating
    let ?m = "hm_insert u (Creating r) (hm_remove u (sys_vms s))"
    have eq: "pc' = Done" "app w' = (app ?w)\<lparr>st_vms := ?m, st_pool := sys_pool s\<rparr>"
      using eff adv b creating by (auto simp: sys_vms_def sys_pool_def)
    have same: "hm_get ?m = hm_get (sys_vms s)" using creating by (simp add: hmap fun_upd_idem)
    have get: "hm_get ?m = (hm_get (sys_vms s))(u := Some (Creating r))" by (simp add: hmap)
    have "holder_index (sys_vms s) (tasks s) (InMap u) = vr_subnet_index r" using creating by simp
    with f(4,7) have "own_ok tight ((holder_index (sys_vms s) (tasks s))
        (InMap u := entry_index (Some (Creating r)), InTask t := pc_subnet Done)) (pool_used (sys_pool s))"
      by (simp add: fun_upd_idem)
    moreover have "fits (st_capacity (app ?w)) ?m" by (rule fits_reinsert [OF f(1,3) creating]) simp
    moreover have "u \<in> drawn s" "res_ok r" using f(8) creating unfolding entries_ok_def by fastforce+
    moreover have "tasks_ok ?m (drawn s) ((tasks s)(t \<mapsto> Done))"
      using f(10) unfolding tasks_ok_def task_ok_def same by (simp add: option.case_eq_if)
    moreover have "holder_index ?m ((tasks s)(t \<mapsto> Done)) =
        (holder_index (sys_vms s) (tasks s))(InMap u := entry_index (Some (Creating r)), InTask t := pc_subnet Done)"
      by (simp only: holder_index_task holder_index_map [OF get])
    moreover have "entries_ok ?m (drawn s)" using f(8) unfolding entries_ok_def same .
    ultimately show ?thesis
      using inv eq f(1,2) ids_unique_update [OF f(9) t, of Done] lock_ok_update [of "vms_owner s" "tasks s" t _ Done, OF _ t]
      by (simp add: inv_def moved_def store_ok_def sys_vms_def sys_pool_def hm_ok_insert hm_ok_remove)
  next
    case running
    let ?m = "hm_remove u (sys_vms s)"
    have eq: "pc' = Stopping u inst r" "app w' = (app ?w)\<lparr>st_vms := ?m, st_pool := sys_pool s\<rparr>"
      using eff adv b running by (auto simp: sys_vms_def sys_pool_def)
    have ok: "res_ok r" using f(8) running unfolding entries_ok_def by fastforce
    then obtain i where i: "vr_subnet_index r = Some i" by (auto simp: res_ok_def)
    have "holder_index (sys_vms s) (tasks s) (InMap u) = Some i" using running i by simp
    from own_move [OF f(4) this, of "InTask t"] f(7) i
    have "own_ok tight ((holder_index (sys_vms s) (tasks s))
        (InMap u := entry_index None, InTask t := pc_subnet (Stopping u inst r))) (pool_used (sys_pool s))" by simp
    moreover have "task_ok ?m (drawn s) (Stopping u inst r)" using ok by (simp add: task_ok_def)
    ultimately show ?thesis
      unfolding eq(1) using eq(2) f(1,2,3) free others_running [OF inv running]
      by (intro inv_task_step_moved [OF inv t, where m = ?m and u = u and x = None and p = "sys_pool s"])
        (auto simp: hmap fits_remove)
  qed
qed

lemma work_host:
  assumes "inv tight s" "tasks s t = Some pc" "advance E pc (sys_world s) = (pc', w')"
    and "pc = Stopping u inst r \<or> pc = DetachedCopy j \<or> pc = DetachedNetwork a"
  shows "inv tight (moved s t pc pc' w')"
proof -
  have "app w' = app (sys_world s)"
    using assms(3,4) app_kept_handlers(3,4,9) by (auto simp: app_kept_def)
  then show ?thesis using assms inv_facts(6) [OF assms(1,2)] by (auto intro!: inv_host_step)
qed

lemma work_DeleteReleasing:
  assumes inv: "inv tight s" and t: "tasks s t = Some (DeleteReleasing u r)"
    and adv: "advance E (DeleteReleasing u r) (sys_world s) = (pc', w')"
  shows "inv tight (moved s t (DeleteReleasing u r) pc' w')"
proof -
  from inv_facts(6) [OF inv t] obtain i where i: "vr_subnet_index r = Some i" "i \<in> pool_range"
    by (auto simp: res_ok_def)
  from release_exists [OF inv t i(2)] obtain p where p: "pool_release i (sys_pool s) = Some p" by blast
  obtain q w1 where q: "run_state (delete_finish E u r) (sys_world s) = (q, w1)" by fastforce
  from delete_finish_app [OF q] i p adv q
  have "pc' = Done" "app w' = (app (sys_world s))\<lparr>st_pool := p\<rparr>" by (auto simp: sys_pool_def split: outcome.splits)
  with inv_release_step [OF inv t _ p _ i(2)] i(1) show ?thesis by simp
qed

lemma work_preserves:
  assumes "inv tight s" and "tasks s t = Some pc" and "\<not> finished pc"
    and "needs_lock pc \<Longrightarrow> vms_owner s = None"
    and "advance E pc (sys_world s) = (pc', w')"
    and "tight \<Longrightarrow> env_spawn_blocking E (hist (sys_world s))"
  shows "inv tight (moved s t pc pc' w')"
proof (cases pc)
  case (Copying j)
  then show ?thesis using work_Copying [OF assms(1), of t] assms(2,5) by blast
next
  case (Allocating j)
  then show ?thesis using work_Allocating [OF assms(1), of t] assms(2,5) by blast
next
  case (Networking j a)
  then show ?thesis using work_Networking [OF assms(1), of t] assms(2,5,6) by blast
next
  case (Unwinding j a e)
  then show ?thesis using work_Unwinding [OF assms(1), of t] assms(2,5) by blast
next
  case (Reserving j a hs)
  then show ?thesis using work_Reserving [OF assms(1), of t] assms(2,5) by blast
next
  case (SettingUp j a)
  then show ?thesis using work_SettingUp [OF assms(1), of t] assms(2,5) by blast
next
  case (Failing j)
  moreover have "vms_owner s = None" using assms(4) Failing by simp
  ultimately show ?thesis using work_Failing [OF assms(1), of t] assms(2,5) by blast
next
  case (FailReleasing j r)
  then show ?thesis using work_FailReleasing [OF assms(1), of t] assms(2,5) by blast
next
  case (Upgrading j a inst desc)
  then show ?thesis using work_Upgrading [OF assms(1), of t] assms(2,5) by blast
next
  case (Reporting j a inst desc b)
  then show ?thesis using work_Reporting [OF assms(1), of t] assms(2,5) by blast
next
  case (Deleting u)
  moreover have "vms_owner s = None" using assms(4) Deleting by simp
  ultimately show ?thesis using work_Deleting [OF assms(1), of t] assms(2,5) by blast
next
  case (Stopping u inst r)
  then show ?thesis using work_host [OF assms(1,2,5)] by blast
next
  case (DetachedCopy j)
  then show ?thesis using work_host [OF assms(1,2,5)] by blast
next
  case (DetachedNetwork a)
  then show ?thesis using work_host [OF assms(1,2,5)] by blast
next
  case (DeleteReleasing u r)
  then show ?thesis using work_DeleteReleasing [OF assms(1), of t] assms(2,5) by blast
next
  case Done
  then show ?thesis using assms(3) by simp
next
  case Crashed
  then show ?thesis using assms(3) by simp
qed

text \<open>Dropping a task: the guard removes the placeholder, or the subnet is lost.\<close>

lemma own_weaken: "own_ok tight hi used \<Longrightarrow> own_ok False hi used"
  by (simp add: own_ok_def)

lemma inv_weaken: "inv tight s \<Longrightarrow> inv False s"
  by (auto simp: inv_def store_ok_def intro: own_weaken)

lemma drop_task_app:
  "app (drop_task E vms_free pool_free pc w) =
     (case guarded pc of
        None \<Rightarrow> app w
      | Some u \<Rightarrow> app (snd (run_state (create_guard_drop E vms_free pool_free u)
          (w\<lparr>hist := hist (drop_task E False pool_free pc w)\<rparr>))))"
  by (cases "local_instance pc"; cases "guarded pc")
    (simp_all add: drop_task_def prims drop_instance_def create_guard_drop_def)

lemma guarded_cases:
  "guarded pc = Some u \<Longrightarrow> pc_id pc = Some u \<and> (placed pc \<or> absent pc \<and> holds_lock pc)"
  by (cases pc) simp_all

lemma leak_step:
  assumes inv: "inv False s" and t: "tasks s t = Some pc" and app: "app w' = app (sys_world s)"
  shows "inv False (moved s t pc Done w')"
  using own_leak [OF inv_facts(4) [OF inv t], of "InTask t"] inv_facts(2) [OF inv t] app
  by (auto intro!: inv_pool_step_moved [OF inv t] simp: sys_pool_def)

lemma detach_preserves:
  assumes inv: "inv False s" and t: "tasks s t = Some pc" and d: "detached pc = Some pc'"
  shows "inv False (s\<lparr>tasks := (tasks s)(t \<mapsto> pc')\<rparr>)"
proof -
  have p: "pc_subnet pc' = None" "pc_ok pc'" "pc_id pc' = None" "\<not> holds_lock pc'" "\<not> holds_lock pc"
    using d inv_facts(6) [OF inv t] by (cases pc; auto)+
  have "inv False (moved s t pc pc' (sys_world s))"
    using own_leak [OF inv_facts(4) [OF inv t], of "InTask t"] inv_facts(2) [OF inv t] p
    by (intro inv_pool_step_moved [OF inv t, where p = "sys_pool s"]) (auto simp: sys_pool_def)
  then show ?thesis using p by (simp add: moved_def)
qed

lemma abandon_preserves:
  assumes inv: "inv False s" and t: "tasks s t = Some pc"
  shows "inv False (moved s t pc Done (drop_task E vms_free pool_free pc (sys_world s)))"
proof (cases "guarded pc")
  case None
  then show ?thesis by (intro leak_step [OF inv t]) (simp add: drop_task_app)
next
  case (Some u)
  let ?w = "(sys_world s)\<lparr>hist := hist (drop_task E False pool_free pc (sys_world s))\<rparr>"
  let ?w' = "drop_task E vms_free pool_free pc (sys_world s)"
  note f = inv_facts [OF inv t]
  obtain q w1 where g: "run_state (create_guard_drop E vms_free pool_free u) ?w = (q, w1)" by fastforce
  have app: "app ?w' = app w1" using Some g by (simp add: drop_task_app)
  note eff = create_guard_drop_app [OF g, folded sys_vms_def]
  have vms: "st_vms (app ?w) = sys_vms s" "st_pool (app ?w) = sys_pool s" by (simp_all add: sys_vms_def sys_pool_def)
  show ?thesis
  proof (cases "vms_free \<and> placed pc")
    case False
    then have "hm_get (sys_vms s) u = None" if vms_free
      using that guarded_cases [OF Some] f(5) by (auto simp: task_ok_def)
    then have "app w1 = app (sys_world s)"
      using eff vms by (cases vms_free) (simp_all add: Let_def hm_remove_absent sys_vms_def)
    with app leak_step [OF inv t] show ?thesis by simp
  next
    case True
    from placedD [OF inv t, of u] True guarded_cases [OF Some] obtain r where
      r: "hm_get (sys_vms s) u = Some (Creating r)" "res_ok r" by blast
    then obtain i where i: "vr_subnet_index r = Some i" "i \<in> pool_range" by (auto simp: res_ok_def)
    obtain p where p: "pool_release i (sys_pool s) = Some p" "pool_ok p" "pool_used p = pool_used (sys_pool s) - {i}"
      using subnets.release_ok [OF f(2) i(2)] by blast
    let ?m = "hm_remove u (sys_vms s)"
    let ?p = "if pool_free then p else sys_pool s"
    have hi: "holder_index (sys_vms s) (tasks s) (InMap u) = Some i" using r(1) i by simp
    have a: "app ?w' = (app (sys_world s))\<lparr>st_vms := ?m, st_pool := ?p\<rparr>"
      using eff True r(1) i p(1) app vms by (simp add: Let_def sys_vms_def sys_pool_def split: if_splits)
    have "own_ok False ((holder_index (sys_vms s) (tasks s))(InMap u := None)) (pool_used ?p)"
      using own_release [OF f(4) hi] own_leak [OF f(4)] p(3) by simp
    then have "own_ok False ((holder_index (sys_vms s) (tasks s))
        (InMap u := entry_index None, InTask t := pc_subnet Done)) (pool_used ?p)"
      using own_leak by fastforce
    moreover have "task_ok ?m (drawn s) Done" by (simp add: task_ok_def)
    ultimately show ?thesis
      using a f(1,2,3) p(2) others_other_id [OF inv t, of u] guarded_cases [OF Some]
      by (intro inv_task_step_moved [OF inv t, where m = ?m and u = u and x = None and p = ?p])
        (auto simp: hmap fits_remove)
  qed
qed

text \<open>New requests, queries and the passing of time.\<close>

lemma inv_new_task:
  assumes inv: "inv tight s" and t: "tasks s t = None" and pc: "task_ok (sys_vms s) ids pc"
    and sub: "pc_subnet pc = None" "\<not> holds_lock pc" and ids: "drawn s \<subseteq> ids"
    and new: "pc_id pc = None \<or> (\<exists>u. pc_id pc = Some u \<and> u \<notin> drawn s)"
  shows "inv tight (s\<lparr>tasks := (tasks s)(t \<mapsto> pc), drawn := ids\<rparr>)"
proof -
  have hi: "holder_index (sys_vms s) ((tasks s)(t \<mapsto> pc)) = holder_index (sys_vms s) (tasks s)"
    using t sub(1) by (simp add: holder_index_task fun_upd_idem)
  have d: "u \<in> drawn s" if "tasks s t' = Some pc2" "pc_id pc2 = Some u" for t' pc2 u
    using inv that unfolding inv_def tasks_ok_def task_ok_def by fastforce
  have "ids_unique ((tasks s)(t \<mapsto> pc))"
    using inv new d unfolding inv_def ids_unique_def by (metis fun_upd_apply option.distinct(1) option.inject)
  moreover have "tasks_ok (sys_vms s) ids ((tasks s)(t \<mapsto> pc))"
    using inv pc ids unfolding inv_def tasks_ok_def task_ok_def by (auto split: option.splits)
  moreover have "lock_ok (vms_owner s) ((tasks s)(t \<mapsto> pc))"
    using inv t sub(2) unfolding inv_def lock_ok_def by auto
  moreover have "entries_ok (sys_vms s) ids"
    using inv ids unfolding inv_def entries_ok_def by blast
  ultimately show ?thesis
    using inv hi by (simp add: inv_def store_ok_def sys_vms_def sys_pool_def)
qed

lemma inv_same_app:
  "inv tight s \<Longrightarrow> app w' = app (sys_world s) \<Longrightarrow> inv tight (s\<lparr>sys_world := w'\<rparr>)"
  by (simp add: inv_def sys_vms_def sys_pool_def)

definition is_abandon :: "label \<Rightarrow> bool" where
  "is_abandon l = (case l of Abandon _ \<Rightarrow> True | _ \<Rightarrow> False)"

lemma step_preserves:
  assumes "sys_step E s l s'" and "inv tight s"
    and "tight \<Longrightarrow> \<not> is_abandon l" and "tight \<Longrightarrow> (\<forall>h. env_spawn_blocking E h)"
  shows "inv tight s'"
  using assms
proof (induction rule: sys_step.cases)
  case (create_request req v m s t u)
  have "entries_ok (sys_vms s) (drawn s)" using create_request by (simp add: inv_def)
  then have "hm_get (sys_vms s) u = None"
    using create_request by (cases "hm_get (sys_vms s) u") (auto simp: entries_ok_def)
  then have "task_ok (sys_vms s) (insert u (drawn s))
      (Copying \<lparr>j_id = u, j_vcpus = v, j_memory_mb = m, j_keys = request_keys req\<rparr>)"
    by (simp add: task_ok_def)
  with create_request show ?case by (auto intro!: inv_new_task)
next
  case (delete_request s t u)
  then have "inv tight (s\<lparr>tasks := (tasks s)(t \<mapsto> Deleting u), drawn := drawn s\<rparr>)"
    by (intro inv_new_task) (simp_all add: task_ok_def)
  with delete_request show ?case by simp
next
  case (work s t pc pc' w')
  then have "inv tight (moved s t pc pc' w')"
    by (intro work_preserves) auto
  with work show ?case by (simp only: moved_def)
next
  case (abandon s t pc vms_free pool_free)
  then have "\<not> tight" by (auto simp: is_abandon_def)
  with abandon abandon_preserves [of s t pc E vms_free pool_free] show ?case by (simp add: moved_def)
next
  case (detach s t pc pc')
  then have "\<not> tight" by (auto simp: is_abandon_def)
  with detach detach_preserves [of s t pc pc'] show ?case by simp
next
  case (list_query s)
  with app_kept_handlers(1) show ?case by (auto intro!: inv_same_app simp: app_kept_def)
next
  case (get_query s u)
  with app_kept_handlers(2) show ?case by (auto intro!: inv_same_app simp: app_kept_def)
next
  case (elapse s es)
  then show ?case by (auto intro!: inv_same_app)
qed

lemma reachable_inv: "reachable E allowed s \<Longrightarrow> inv False s"
  by (induction rule: reachable.induct) (auto intro: inv_initial step_preserves)

lemma reachable_inv_tight:
  assumes "reachable E (\<lambda>l. \<not> is_abandon l) s" and "\<And>h. env_spawn_blocking E h"
  shows "inv True s"
  using assms(1) by (induction rule: reachable.induct) (auto intro: inv_initial step_preserves simp: assms(2))

section \<open>What every reachable state satisfies\<close>

text \<open>C1: The host is never overcommitted, whatever requests are in flight, in whatever order their
  steps interleave, and whichever of them are abandoned: the vCPUs and the memory of all
  entries, those being created included, fit the host. So the sums the handlers compute in 8
  and 64 bits never overflow.\<close>

theorem no_overcommit:
  assumes "reachable E allowed s"
  shows "hm_total entry_vcpus (sys_vms s) \<le> unat (cap_vcpus (st_capacity (app (sys_world s))))
    \<and> hm_total entry_memory (sys_vms s) \<le> unat (allocatable_memory_mb (st_capacity (app (sys_world s))))
    \<and> (\<exists>av. allocated_vcpus E (sys_vms s) = Some av \<and> unat av = hm_total entry_vcpus (sys_vms s))
    \<and> (\<exists>am. allocated_memory E (sys_vms s) = Some am \<and> unat am = hm_total entry_memory (sys_vms s))"
proof -
  have f: "fits (st_capacity (app (sys_world s))) (sys_vms s)"
    using reachable_inv [OF assms] by (simp add: inv_def store_ok_def)
  then show ?thesis using allocated_vcpus_exact [OF f] allocated_memory_exact [OF f] by (simp add: fits_def)
qed

lemma ipv4_no_dot: "CHR ''.'' \<notin> set (show_nat n)"
  by (simp add: show_nat_no_char is_ascii_digit_def digit_val_def)

lemma split_on_last: "d \<notin> set w \<Longrightarrow> split_on d w = [w]"
proof -
  have "split_char d cur w = [rev cur @ w]" if "d \<notin> set w" for cur
    using that by (induction w arbitrary: cur) auto
  then show "d \<notin> set w \<Longrightarrow> split_on d w = [w]" by (simp add: split_on_def)
qed

lemma split_ipv4:
  "split_on CHR ''.'' (ipv4_to_string (Ipv4 a b c d)) =
     [show_nat (unat a), show_nat (unat b), show_nat (unat c), show_nat (unat d)]"
  by (simp add: split_on_step [OF ipv4_no_dot] split_on_last [OF ipv4_no_dot])

lemma ipv4_to_string_inj: "ipv4_to_string x = ipv4_to_string y \<Longrightarrow> x = y"
proof -
  obtain a b c d where x: "x = Ipv4 a b c d" by (cases x)
  obtain a' b' c' d' where y: "y = Ipv4 a' b' c' d'" by (cases y)
  assume "ipv4_to_string x = ipv4_to_string y"
  then have "split_on CHR ''.'' (ipv4_to_string x) = split_on CHR ''.'' (ipv4_to_string y)" by simp
  then show "x = y" unfolding x y split_ipv4 by (simp add: word_unat_eq_iff)
qed

lemma subnet_guest_ip_inj:
  "i \<in> pool_range \<Longrightarrow> j \<in> pool_range \<Longrightarrow> subnet_guest_ip i = subnet_guest_ip j \<Longrightarrow> i = j"
  using subnet_ip_value(2) [of i] subnet_ip_value(2) [of j] by (simp add: word_unat_eq_iff)

text \<open>C2: VMs never share a network: in every reachable state, two different entries of the map
  have different subnets, tap devices and guest addresses, each subnet is marked as used, and
  the next allocation hands out none of them.\<close>

theorem vms_isolated:
  assumes "reachable E allowed s" and "hm_get (sys_vms s) u = Some e"
    and "hm_get (sys_vms s) u' = Some e'" and "u \<noteq> u'"
  shows "vr_subnet_index (entry_resources e) \<noteq> vr_subnet_index (entry_resources e')
    \<and> vr_tap_name (entry_resources e) \<noteq> vr_tap_name (entry_resources e')
    \<and> vr_guest_ip (entry_resources e) \<noteq> vr_guest_ip (entry_resources e')
    \<and> (\<exists>i. vr_subnet_index (entry_resources e) = Some i \<and> i \<in> pool_used (sys_pool s)
        \<and> (\<forall>a p. pool_allocate (sys_pool s) = Some (a, p) \<longrightarrow> sub_index a \<noteq> i))"
proof -
  from reachable_inv [OF assms(1)] have i: "entries_ok (sys_vms s) (drawn s)" "pool_ok (sys_pool s)"
    "own_ok False (holder_index (sys_vms s) (tasks s)) (pool_used (sys_pool s))"
    by (simp_all add: inv_def store_ok_def)
  from i(1) assms(2,3) obtain m n where m: "m \<in> pool_range" "vr_subnet_index (entry_resources e) = Some m"
      "vr_tap_name (entry_resources e) = Some (tap_name m)"
      "vr_guest_ip (entry_resources e) = Some (ipv4_to_string (subnet_guest_ip m))"
    and n: "n \<in> pool_range" "vr_subnet_index (entry_resources e') = Some n"
      "vr_tap_name (entry_resources e') = Some (tap_name n)"
      "vr_guest_ip (entry_resources e') = Some (ipv4_to_string (subnet_guest_ip n))"
    unfolding entries_ok_def res_ok_def by metis
  have hm: "holder_index (sys_vms s) (tasks s) (InMap u) = Some m"
    and hn: "holder_index (sys_vms s) (tasks s) (InMap u') = Some n" using assms(2,3) m(2) n(2) by simp_all
  have "m \<noteq> n"
  proof
    assume "m = n"
    with hn have "InMap u = InMap u'" using own_okD(2) [OF i(3) hm, of "InMap u'"] by blast
    with assms(4) show False by simp
  qed
  moreover have "tap_name m \<noteq> tap_name n"
    using \<open>m \<noteq> n\<close> by (simp add: tap_name_def word_unat_eq_iff)
  moreover have "ipv4_to_string (subnet_guest_ip m) \<noteq> ipv4_to_string (subnet_guest_ip n)"
    using \<open>m \<noteq> n\<close> subnet_guest_ip_inj [OF m(1) n(1)] ipv4_to_string_inj by blast
  moreover have "m \<in> pool_used (sys_pool s)" by (rule own_okD(1) [OF i(3) hm])
  moreover have "sub_index a \<noteq> m" if "pool_allocate (sys_pool s) = Some (a, p)" for a p
    using subnets.alloc_fresh [OF i(2) that] \<open>m \<in> pool_used (sys_pool s)\<close> by auto
  ultimately show ?thesis using m n by auto
qed

text \<open>C8: A create always finds its placeholder: from its reservation to its second lock window no
  other request can remove or replace the entry, so a successful setup always ends with the
  instance in the map as a running VM, never with an instance dropped after the fact. No
  request panics on the subnet pool or on an overflowing sum.\<close>

theorem placeholder_survives:
  assumes "reachable E allowed s" and "tasks s t = Some pc"
  shows "pc \<noteq> Crashed
    \<and> (\<forall>u. placed pc \<longrightarrow> pc_id pc = Some u \<longrightarrow> (\<exists>r. hm_get (sys_vms s) u = Some (Creating r)))
    \<and> (\<forall>j a inst desc pc' w'. pc = Upgrading j a inst desc \<longrightarrow> advance E pc (sys_world s) = (pc', w') \<longrightarrow>
        pc' = Reporting j a inst desc True
        \<and> (\<exists>r. hm_get (st_vms (app w')) (j_id j) = Some (Running inst r)))"
proof -
  note inv = reachable_inv [OF assms(1)]
  have "pc \<noteq> Crashed" using inv_facts(6) [OF inv assms(2)] by auto
  moreover have "\<exists>r. hm_get (sys_vms s) u = Some (Creating r)" if "placed pc" "pc_id pc = Some u" for u
    using placedD [OF inv assms(2) that] by blast
  moreover have "pc' = Reporting j a inst desc True
        \<and> (\<exists>r. hm_get (st_vms (app w')) (j_id j) = Some (Running inst r))"
    if pc: "pc = Upgrading j a inst desc" and adv: "advance E pc (sys_world s) = (pc', w')" for j a inst desc pc' w'
  proof -
    from placedD [OF inv assms(2), of "j_id j"] pc obtain r where
      "hm_get (sys_vms s) (j_id j) = Some (Creating r)" by auto
    then show ?thesis
      using adv create_upgrade_app [of "j_id j" inst "sys_world s"] pc
      by (auto simp: sys_vms_def hmap split: prod.splits)
  qed
  ultimately show ?thesis by blast
qed

lemma settled_pool:
  assumes "reachable E (\<lambda>l. \<not> is_abandon l) s" and "\<And>h. env_spawn_blocking E h"
    and "\<And>t pc. tasks s t = Some pc \<Longrightarrow> finished pc"
  shows "pool_used (sys_pool s) =
      {i. \<exists>u e. hm_get (sys_vms s) u = Some e \<and> vr_subnet_index (entry_resources e) = Some i}"
proof -
  have own: "own_ok True (holder_index (sys_vms s) (tasks s)) (pool_used (sys_pool s))"
    using reachable_inv_tight [OF assms(1,2)] by (simp add: inv_def store_ok_def)
  have none: "holder_index (sys_vms s) (tasks s) (InTask t) = None" for t
  proof (cases "tasks s t")
    case (Some pc)
    then have "finished pc" by (rule assms(3))
    with Some show ?thesis by (cases pc) simp_all
  qed simp
  show ?thesis
  proof (rule set_eqI)
    fix i
    have "i \<in> pool_used (sys_pool s) \<longleftrightarrow> (\<exists>h. holder_index (sys_vms s) (tasks s) h = Some i)"
      using own_okD(1) [OF own] own_okD(3) [OF own] by blast
    also have "\<dots> \<longleftrightarrow> (\<exists>u. holder_index (sys_vms s) (tasks s) (InMap u) = Some i)"
      using none by (metis holder.exhaust option.distinct(1))
    also have "\<dots> \<longleftrightarrow> (\<exists>u e. hm_get (sys_vms s) u = Some e \<and> vr_subnet_index (entry_resources e) = Some i)"
      by (auto split: option.splits)
    finally show "i \<in> pool_used (sys_pool s) \<longleftrightarrow>
        i \<in> {i. \<exists>u e. hm_get (sys_vms s) u = Some e \<and> vr_subnet_index (entry_resources e) = Some i}"
      by simp
  qed
qed

text \<open>C9: Nothing leaks while no request is abandoned: once all requests have been answered, the
  subnets in use are exactly those of the entries in the map, one each.\<close>

theorem no_leak_without_abandonment:
  assumes "reachable E (\<lambda>l. \<not> is_abandon l) s" and "\<And>h. env_spawn_blocking E h"
    and "\<And>t pc. tasks s t = Some pc \<Longrightarrow> finished pc"
  shows "pool_used (sys_pool s) =
      {i. \<exists>u e. hm_get (sys_vms s) u = Some e \<and> vr_subnet_index (entry_resources e) = Some i}"
  by (rule settled_pool [OF assms])

lemma detached_holds_nothing: "detached pc = Some pc' \<Longrightarrow> pc_subnet pc' = None \<and> pc_id pc' = None"
  by (cases pc) auto

lemma drop_task_keeps_app:
  assumes inv: "inv tight s" and t: "tasks s t = Some pc" and sub: "pc_subnet pc = Some i"
  shows "app (drop_task E vms_free pool_free pc (sys_world s)) = app (sys_world s)"
proof (cases "guarded pc")
  case None
  then show ?thesis by (simp add: drop_task_app)
next
  case (Some u)
  with sub guarded_cases [OF Some] have "absent pc" "pc_id pc = Some u" by (cases pc; simp)+
  with inv_facts(5) [OF inv t] have none: "hm_get (sys_vms s) u = None" by (simp add: task_ok_def)
  let ?w = "(sys_world s)\<lparr>hist := hist (drop_task E False pool_free pc (sys_world s))\<rparr>"
  obtain q w1 where g: "run_state (create_guard_drop E vms_free pool_free u) ?w = (q, w1)" by fastforce
  from create_guard_drop_app [OF g] none Some g show ?thesis
    by (cases vms_free) (simp_all add: drop_task_app Let_def hm_remove_absent sys_vms_def)
qed

lemma abandon_loses:
  assumes inv: "inv tight s" and "tasks s t = Some pc" and "pc_subnet pc = Some i"
    and "sys_step E s (Abandon t) s'"
  shows "i \<in> pool_used (sys_pool s')
    \<and> (\<forall>h. holder_index (sys_vms s') (tasks s') h \<noteq> Some i)"
proof -
  note f = inv_facts [OF inv assms(2)]
  from assms(2,4) drop_task_keeps_app [OF inv assms(2,3)] detached_holds_nothing [of pc]
  obtain pc' where s': "app (sys_world s') = app (sys_world s)" "tasks s' = (tasks s)(t \<mapsto> pc')" "pc_subnet pc' = None"
    by (auto simp: abandon_iff)
  have i: "holder_index (sys_vms s) (tasks s) (InTask t) = Some i" using f(7) assms(3) by simp
  have "i \<in> pool_used (sys_pool s')" using own_okD(1) [OF f(4) i] s'(1) by (simp add: sys_pool_def)
  moreover have "holder_index (sys_vms s') (tasks s') h \<noteq> Some i" for h
  proof
    assume h: "holder_index (sys_vms s') (tasks s') h = Some i"
    have "holder_index (sys_vms s') (tasks s') = (holder_index (sys_vms s) (tasks s))(InTask t := None)"
      using s' by (simp add: sys_vms_def holder_index_task)
    with h have "h \<noteq> InTask t" "holder_index (sys_vms s) (tasks s) h = Some i" by (auto split: if_splits)
    with own_okD(2) [OF f(4) i] show False by blast
  qed
  ultimately show ?thesis by blast
qed

section \<open>Progress\<close>

text \<open>How many segments a task still has at most.\<close>

fun rank :: "pc \<Rightarrow> nat" where
  "rank (Copying _) = 7"
| "rank (Allocating _) = 6"
| "rank (Networking _ _) = 5"
| "rank (Unwinding _ _ _) = 1"
| "rank (Reserving _ _ _) = 4"
| "rank (SettingUp _ _) = 3"
| "rank (Failing _) = 2"
| "rank (FailReleasing _ _) = 1"
| "rank (Upgrading _ _ _ _) = 2"
| "rank (Reporting _ _ _ _ _) = 1"
| "rank (Deleting _) = 3"
| "rank (Stopping _ _ _) = 2"
| "rank (DetachedCopy _) = 1"
| "rank (DetachedNetwork _) = 1"
| "rank (DeleteReleasing _ _) = 1"
| "rank Done = 0"
| "rank Crashed = 0"

lemma advance_rank: "\<not> finished pc \<Longrightarrow> rank (fst (advance E pc w)) < rank pc"
  by (cases pc) (auto split: prod.split sum.split option.split outcome.split)

lemma advance_rank_le: "rank (fst (advance E pc w)) \<le> rank pc - 1"
  using advance_rank [of pc E w] by (cases pc) auto

lemma rank_0_iff: "rank pc = 0 \<longleftrightarrow> finished pc"
  by (cases pc) simp_all

text \<open>C11: No request hangs on the others: every step of a task brings it closer to its end, which
  is at most 7 segments away, and as long as any task is unfinished some unfinished task can
  take a step. The lock on the VM map is never waited for in a circle.\<close>

theorem progress:
  assumes "reachable E allowed s" and "tasks s t = Some pc" and "\<not> finished pc"
  shows "rank pc \<le> 7
    \<and> (\<forall>s' pc'. sys_step E s (Work t) s' \<longrightarrow> tasks s' t = Some pc' \<longrightarrow> rank pc' < rank pc)
    \<and> (\<exists>t' s'. sys_step E s (Work t') s' \<and> (needs_lock pc \<and> vms_owner s \<noteq> None \<or> t' = t))"
proof -
  have "rank pc' < rank pc" if st: "sys_step E s (Work t) s'" and t': "tasks s' t = Some pc'" for s' pc'
  proof -
    from st obtain q w' where "advance E pc (sys_world s) = (q, w')" "tasks s' = (tasks s)(t \<mapsto> q)"
      using assms(2) by (auto simp: work_iff)
    with t' advance_rank [OF assms(3), of E "sys_world s"] show ?thesis by simp
  qed
  moreover have "\<exists>t' s'. sys_step E s (Work t') s' \<and> (needs_lock pc \<and> vms_owner s \<noteq> None \<or> t' = t)"
  proof (cases "needs_lock pc \<and> vms_owner s \<noteq> None")
    case False
    with work [OF assms(2,3), of E] show ?thesis by (metis surj_pair)
  next
    case True
    then obtain t' where o: "vms_owner s = Some t'" by auto
    with reachable_inv [OF assms(1)] obtain q where q: "tasks s t' = Some q" "holds_lock q"
      by (auto simp: inv_def lock_ok_def)
    then have "\<not> finished q" "\<not> needs_lock q" by (cases q; simp)+
    with work [OF q(1), of E] True show ?thesis by (metis surj_pair)
  qed
  moreover have "rank pc \<le> 7" by (cases pc) simp_all
  ultimately show ?thesis by blast
qed

section \<open>A task that runs alone is its handler\<close>

fun run_task :: "env \<Rightarrow> nat \<Rightarrow> pc \<Rightarrow> world \<Rightarrow> pc \<times> world" where
  "run_task E 0 pc w = (pc, w)"
| "run_task E (Suc n) pc w = (case advance E pc w of (pc', w') \<Rightarrow> run_task E n pc' w')"

lemma run_task_finished: "finished pc \<Longrightarrow> run_task E n pc w = (pc, w)"
  by (induction n) (cases pc; simp)+

text \<open>Seven rounds are always enough.\<close>

lemma run_task_rank: "rank pc \<le> n \<Longrightarrow> finished (fst (run_task E n pc w))"
proof (induction n arbitrary: pc w)
  case 0
  then show ?case using rank_0_iff [of pc] by simp
next
  case (Suc n)
  obtain pc' w' where a: "advance E pc w = (pc', w')" by fastforce
  have "rank pc' \<le> n" using advance_rank_le [of E pc w] a Suc.prems by simp
  from Suc.IH [OF this] a show ?case by simp
qed

definition end_pc :: "'a outcome \<Rightarrow> pc" where
  "end_pc r = (case r of Panicked \<Rightarrow> Crashed | Finished _ \<Rightarrow> Done)"

lemma end_pc_simps [simp]: "end_pc Panicked = Crashed" "end_pc (Finished x) = Done"
  by (simp_all add: end_pc_def)

lemma run_task_Done [simp]: "run_task E n Done w = (Done, w)" "run_task E n Crashed w = (Crashed, w)"
  by (simp_all add: run_task_finished)

lemma run_guarded:
  assumes "run_state (create_guarded E (j_id j) (j_vcpus j) (j_memory_mb j) a) w = (r, w')"
  shows "run_task E 3 (SettingUp j a) w = (end_pc r, w')"
  using assms
  by (auto simp: create_guarded_def create_fail_def numeral_eq_Suc split: prod.splits sum.splits option.splits outcome.splits)

lemma run_task_step:
  "0 < n \<Longrightarrow> advance E pc w = (pc', w') \<Longrightarrow> run_task E n pc w = run_task E (n - 1) pc' w'"
  by (cases n) simp_all

lemma run_task_unwinding:
  "run_task E 4 (Unwinding j a e) w =
     (case run_state (create_unwind a e) w of (r, w') \<Rightarrow> (end_pc r, w'))"
proof -
  obtain r w' where r: "run_state (create_unwind a e) w = (r, w')" by fastforce
  with run_task_step [of 4 E "Unwinding j a e" w] show ?thesis by (cases r) simp_all
qed

lemma run_networked:
  assumes "run_state (create_networked E (j_id j) (j_vcpus j) (j_memory_mb j) (j_keys j) a) w = (r, w')"
  shows "run_task E 5 (Networking j a) w = (end_pc r, w')"
proof -
  obtain n w1 where n: "run_state (create_network E a) w = (n, w1)" by fastforce
  consider (none) "n = None" | (failed) e where "n = Some (Inl e)" | (ready) hs where "n = Some (Inr hs)"
    by (cases n; cases "the n") auto
  then show ?thesis
  proof cases
    case ready
    obtain q w2 where q: "run_state (create_reserve E (j_id j) (j_vcpus j) (j_memory_mb j) (j_keys j) a hs) w1 = (q, w2)"
      by fastforce
    have eq: "run_task E 5 (Networking j a) w = run_task E 4 (Reserving j a hs) w1"
      using run_task_step [of 5 E "Networking j a" w] n ready by simp
    have r: "run_state (create_networked E (j_id j) (j_vcpus j) (j_memory_mb j) (j_keys j) a) w =
        (case q of Panicked \<Rightarrow> (Panicked, w2)
         | Finished (Inl e) \<Rightarrow> (Finished (Inl e), w2)
         | Finished (Inr _) \<Rightarrow> run_state (create_guarded E (j_id j) (j_vcpus j) (j_memory_mb j) a) w2)"
      using n ready q by (simp add: create_networked_def split: outcome.split sum.split)
    consider (panic) "q = Panicked" | (refused) e where "q = Finished (Inl e)" | (reserved) "q = Finished (Inr ())"
      by (cases q) (auto, metis old.unit.exhaust sum.exhaust)
    then show ?thesis
    proof cases
      case reserved
      have "run_task E 4 (Reserving j a hs) w1 = run_task E 3 (SettingUp j a) w2"
        using run_task_step [of 4 E "Reserving j a hs" w1] q reserved by simp
      with eq run_guarded [of E j a w2] r reserved assms show ?thesis by simp
    qed (use run_task_step [of 4 E "Reserving j a hs" w1] q eq r assms in simp_all)
  qed (use run_task_step [of 5 E "Networking j a" w] assms n in
      \<open>auto simp: create_networked_def run_task_unwinding split: prod.splits outcome.splits\<close>)
qed


section \<open>Concrete runs\<close>

lemma reach_run:
  assumes "reachable E A s" and "A (Work t)" and "tasks s t = Some pc"
    and "vms_owner s = (if holds_lock pc then Some t else None)"
    and "run_task E n pc (sys_world s) = (pc', w')"
  shows "reachable E A (s\<lparr>sys_world := w', tasks := (tasks s)(t \<mapsto> pc'),
      vms_owner := (if holds_lock pc' then Some t else None)\<rparr>)"
  using assms
proof (induction n arbitrary: s pc)
  case 0
  then have "s\<lparr>sys_world := w', tasks := (tasks s)(t \<mapsto> pc'),
      vms_owner := (if holds_lock pc' then Some t else None)\<rparr> = s"
    by (cases s) (auto simp: fun_upd_idem)
  with "0.prems"(1) show ?case by (simp only:)
next
  case (Suc n)
  show ?case
  proof (cases "finished pc")
    case True
    with Suc.prems(5) run_task_finished [OF True, of E "Suc n" "sys_world s"]
    have "pc' = pc" "w' = sys_world s" by (simp_all del: run_task.simps)
    with Suc.prems(3,4) have "s\<lparr>sys_world := w', tasks := (tasks s)(t \<mapsto> pc'),
        vms_owner := (if holds_lock pc' then Some t else None)\<rparr> = s"
      by (cases s) (auto simp: fun_upd_idem)
    with Suc.prems(1) show ?thesis by (simp only:)
  next
    case False
    obtain q w1 where q: "advance E pc (sys_world s) = (q, w1)" by fastforce
    let ?s = "s\<lparr>sys_world := w1, tasks := (tasks s)(t \<mapsto> q),
      vms_owner := (if holds_lock q then Some t else None)\<rparr>"
    have "needs_lock pc \<Longrightarrow> vms_owner s = None" using Suc.prems(4) by (cases pc) simp_all
    from work [OF Suc.prems(3) False this q] Suc.prems(4) have "sys_step E s (Work t) ?s"
      by (auto split: if_splits)
    from step [OF Suc.prems(1) this Suc.prems(2)] have "reachable E A ?s" .
    have "run_task E n q (sys_world ?s) = (pc', w')" using Suc.prems(5) q by simp
    moreover have "tasks ?s t = Some q" "vms_owner ?s = (if holds_lock q then Some t else None)" by simp_all
    ultimately have "reachable E A (?s\<lparr>sys_world := w', tasks := (tasks ?s)(t \<mapsto> pc'),
        vms_owner := (if holds_lock pc' then Some t else None)\<rparr>)"
      using Suc.IH [OF \<open>reachable E A ?s\<close> Suc.prems(2)] by blast
    moreover have "?s\<lparr>sys_world := w', tasks := (tasks ?s)(t \<mapsto> pc'),
        vms_owner := (if holds_lock pc' then Some t else None)\<rparr> =
      s\<lparr>sys_world := w', tasks := (tasks s)(t \<mapsto> pc'),
        vms_owner := (if holds_lock pc' then Some t else None)\<rparr>" by (cases s) simp
    ultimately show ?thesis by (simp only:)
  qed
qed

text \<open>In the calm environment a request with room for it gets as far as its second window.\<close>

definition calm_job_for :: "string list \<Rightarrow> uuid \<Rightarrow> job" where
  "calm_job_for keys u = \<lparr>j_id = u, j_vcpus = 1, j_memory_mb = 128, j_keys = keys\<rparr>"

definition calm_job :: "uuid \<Rightarrow> job" where
  "calm_job u = \<lparr>j_id = u, j_vcpus = 1, j_memory_mb = 128, j_keys = request_keys None\<rparr>"

lemma calm_job_default: "calm_job_for (request_keys None) = calm_job"
  by (rule ext) (simp add: calm_job_def calm_job_for_def)

definition room :: "world \<Rightarrow> bool" where
  "room w \<longleftrightarrow> fits (st_capacity (app w)) (st_vms (app w))
     \<and> hm_total entry_vcpus (st_vms (app w)) + 1 \<le> unat (cap_vcpus (st_capacity (app w)))
     \<and> hm_total entry_memory (st_vms (app w)) + 128 \<le> unat (allocatable_memory_mb (st_capacity (app w)))
     \<and> pool_allocate (st_pool (app w)) \<noteq> None"

lemma calm_run_to_upgrade:
  assumes room: "room w"
  shows "\<exists>a inst desc w' res. run_task calm_env 5 (Copying (calm_job_for keys u)) w = (Upgrading (calm_job_for keys u) a inst desc, w')
    \<and> st_vms (app w') = hm_insert u (Creating res) (st_vms (app w))
    \<and> vr_vcpus res = 1 \<and> vr_memory_mb res = 128 \<and> vr_ssh_keys res = keys \<and> st_capacity (app w') = st_capacity (app w)
    \<and> (\<exists>a0. pool_allocate (st_pool (app w)) = Some (a0, st_pool (app w')))"
proof -
  let ?j = "calm_job_for keys u"
  have j: "j_id ?j = u" "j_vcpus ?j = 1" "j_memory_mb ?j = 128" "j_keys ?j = keys" by (simp_all add: calm_job_for_def)
  obtain h1 where c: "run_state (create_copy_rootfs calm_env u) w = (Inr (), w\<lparr>hist := h1\<rparr>)" using calm_copy by blast
  obtain a p where ap: "pool_allocate (st_pool (app w)) = Some (a, p)" using room by (auto simp: room_def)
  let ?w2 = "w\<lparr>hist := h1, app := (app w)\<lparr>st_pool := p\<rparr>\<rparr>"
  obtain h3 hs where n: "run_state (create_network calm_env a) ?w2 = (Some (Inr hs), ?w2\<lparr>hist := h3\<rparr>)"
    using calm_network by blast
  let ?w3 = "?w2\<lparr>hist := h3\<rparr>"
  have f: "fits (st_capacity (app w)) (st_vms (app w))" using room by (simp add: room_def)
  obtain av where av: "allocated_vcpus calm_env (st_vms (app w)) = Some av"
    "unat av = hm_total entry_vcpus (st_vms (app w))" using allocated_vcpus_exact f by blast
  obtain am where am: "allocated_memory calm_env (st_vms (app w)) = Some am"
    "unat am = hm_total entry_memory (st_vms (app w))" using allocated_memory_exact f by blast
  have ck: "capacity_check (st_capacity (app w)) av am 1 128 = None"
    using capacity_check_None [OF f av(2) am(2), of 1 128] room by (simp add: room_def)
  obtain r w4 where r: "run_state (create_reserve calm_env u 1 128 (j_keys ?j) a hs) ?w3 = (r, w4)" by fastforce
  let ?res = "new_resources calm_env (st_jailer (app w)) u 1 128 (j_keys ?j) a hs"
  from create_reserve_app [where av = av and am = am, OF r] av(1) am(1) ck have r': "r = Finished (Inr ())"
    "app w4 = (app w)\<lparr>st_pool := p, st_vms := hm_insert u (Creating ?res) (st_vms (app w))\<rparr>" by simp_all
  obtain h inst desc where s: "run_state (create_setup calm_env u 1 128 a) w4 = (Inr (inst, desc), w4\<lparr>hist := h\<rparr>)"
    using calm_setup by blast
  have "run_task calm_env 5 (Copying ?j) w = run_task calm_env 4 (Allocating ?j) (w\<lparr>hist := h1\<rparr>)"
    using run_task_step [of 5 calm_env "Copying ?j" w] c j by simp
  also have "\<dots> = run_task calm_env 3 (Networking ?j a) ?w2"
    using run_task_step [of 4 calm_env "Allocating ?j" "w\<lparr>hist := h1\<rparr>"] ap by (simp add: run_create_alloc)
  also have "\<dots> = run_task calm_env 2 (Reserving ?j a hs) ?w3"
    using run_task_step [of 3 calm_env "Networking ?j a" ?w2] n by simp
  also have "\<dots> = run_task calm_env 1 (SettingUp ?j a) w4"
    using run_task_step [of 2 calm_env "Reserving ?j a hs" ?w3] r r' j by simp
  also have "\<dots> = (Upgrading ?j a inst desc, w4\<lparr>hist := h\<rparr>)"
    using run_task_step [of 1 calm_env "SettingUp ?j a" w4] s j by simp
  finally show ?thesis using r' ap by (auto simp: new_resources_def j)
qed

text \<open>A whole create in the calm environment, seen before and after its second window.\<close>

lemma calm_extend:
  assumes s: "reachable calm_env A s" and A: "A (Request t)" "A (Work t)"
    and t: "tasks s t = None" and u: "u \<notin> drawn s" and free: "vms_owner s = None"
    and room: "room (sys_world s)" and req: "create_validate req = Inr (1, 128)"
  shows "\<exists>s1 s2 a inst desc r. reachable calm_env A s1 \<and> tasks s1 t = Some (Upgrading (calm_job_for (request_keys req) u) a inst desc)
    \<and> reachable calm_env A s2 \<and> tasks s2 = (tasks s)(t \<mapsto> Done) \<and> vms_owner s2 = None
    \<and> drawn s2 = insert u (drawn s)
    \<and> st_capacity (app (sys_world s2)) = st_capacity (app (sys_world s))
    \<and> hm_get (sys_vms s2) = (hm_get (sys_vms s))(u \<mapsto> Running inst r)
    \<and> vr_ssh_keys r = request_keys req
    \<and> hm_total entry_vcpus (sys_vms s2) = hm_total entry_vcpus (sys_vms s) + 1
    \<and> hm_total entry_memory (sys_vms s2) = hm_total entry_memory (sys_vms s) + 128
    \<and> (\<exists>i. pool_used (sys_pool s2) = insert i (pool_used (sys_pool s)))"
proof -
  let ?s0 = "s\<lparr>tasks := (tasks s)(t \<mapsto> Copying (calm_job_for (request_keys req) u)), drawn := insert u (drawn s)\<rparr>"
  have "sys_step calm_env s (Request t) ?s0"
    using create_request [OF req t u] by (simp add: calm_job_for_def)
  from step [OF s this A(1)] have r0: "reachable calm_env A ?s0" .
  obtain a inst desc w1 res a0 where run: "run_task calm_env 5 (Copying (calm_job_for (request_keys req) u)) (sys_world s) = (Upgrading (calm_job_for (request_keys req) u) a inst desc, w1)"
    and w1: "st_vms (app w1) = hm_insert u (Creating res) (sys_vms s)" "vr_vcpus res = 1" "vr_memory_mb res = 128" "vr_ssh_keys res = request_keys req"
      "st_capacity (app w1) = st_capacity (app (sys_world s))"
      "pool_allocate (sys_pool s) = Some (a0, st_pool (app w1))"
    using calm_run_to_upgrade [OF room, of "request_keys req" u] by (auto simp: sys_vms_def sys_pool_def)
  let ?s1 = "?s0\<lparr>sys_world := w1, tasks := (tasks s)(t \<mapsto> Upgrading (calm_job_for (request_keys req) u) a inst desc), vms_owner := None\<rparr>"
  have r1: "reachable calm_env A ?s1"
    using reach_run [OF r0 A(2), of "Copying (calm_job_for (request_keys req) u)" 5] run free by simp
  obtain w2 where up: "advance calm_env (Upgrading (calm_job_for (request_keys req) u) a inst desc) w1 =
      (Reporting (calm_job_for (request_keys req) u) a inst desc True, w2)"
    and w2: "app w2 = (app w1)\<lparr>st_vms := hm_insert u (Running inst res) (hm_remove u (st_vms (app w1)))\<rparr>"
    using create_upgrade_app [of u inst w1] w1(1)
    by (cases "run_state (create_upgrade u inst) w1") (auto simp: calm_job_for_def hmap)
  obtain w3 where fin: "advance calm_env (Reporting (calm_job_for (request_keys req) u) a inst desc True) w2 = (Done, w3)" by simp
  have w3: "app w3 = app w2" using fin app_kept_handlers(8) by (auto simp: app_kept_def)
  have "run_task calm_env 2 (Upgrading (calm_job_for (request_keys req) u) a inst desc) w1 = (Done, w3)"
    using run_task_step [OF _ up, of 2] run_task_step [OF _ fin, of 1] by simp
  with reach_run [OF r1 A(2), of "Upgrading (calm_job_for (request_keys req) u) a inst desc" 2 Done w3] free
  have r2: "reachable calm_env A (?s0\<lparr>sys_world := w3, tasks := (tasks s)(t \<mapsto> Done), vms_owner := None\<rparr>)" by simp
  let ?s2 = "?s0\<lparr>sys_world := w3, tasks := (tasks s)(t \<mapsto> Done), vms_owner := None\<rparr>"
  note inv = reachable_inv [OF s]
  have hm: "hm_ok (sys_vms s)" and ok: "pool_ok (sys_pool s)" and new: "hm_get (sys_vms s) u = None"
    using inv u by (auto simp: inv_def store_ok_def entries_ok_def) (metis option.exhaust)
  let ?m = "hm_insert u (Creating res) (sys_vms s)"
  have vms: "sys_vms ?s2 = hm_insert u (Running inst res) (hm_remove u ?m)"
    using w1(1) w2 w3 by (simp add: sys_vms_def)
  have total: "hm_total f (sys_vms ?s2) = hm_total f (sys_vms s) + f (Creating res)"
    if "f (Running inst res) = f (Creating res)" for f
    using hm_total_reinsert [where f = f and m = ?m and k = u and v = "Creating res" and v' = "Running inst res",
        OF hm_ok_insert [OF hm]] that new unfolding vms by (simp add: hmap)
  have "hm_get (sys_vms ?s2) = (hm_get (sys_vms s))(u \<mapsto> Running inst res)"
    unfolding vms by (simp add: hmap)
  moreover have "pool_used (sys_pool ?s2) = insert (sub_index a0) (pool_used (sys_pool s))"
    using pool_allocate_Some(4) [OF ok w1(6)] w2 w3 by (simp add: sys_pool_def)
  moreover have "st_capacity (app (sys_world ?s2)) = st_capacity (app (sys_world s))"
    using w1(5) w2 w3 by simp
  ultimately show ?thesis
    using r1 r2 free total [of entry_vcpus] total [of entry_memory] w1(2,3,4)
    by (intro exI [of _ ?s1] exI [of _ ?s2] exI [of _ a] exI [of _ inst] exI [of _ desc] exI [of _ res])
      (auto simp: entry_vcpus_def entry_memory_def)
qed

definition calm_start :: system where
  "calm_start = initial [] \<lparr>cap_memory_mb = 1024, cap_vcpus = 4\<rparr> calm_jailer None"

text \<open>Two VMs created one after the other, without any abandonment.\<close>

lemma calm_two_vms_for:
  assumes A: "\<And>t. A (Request t)" "\<And>t. A (Work t)"
  shows "\<exists>s1 s2 a inst desc i1 r1 i2 r2. reachable calm_env A s1
    \<and> tasks s1 1 = Some (Upgrading (calm_job 6) a inst desc)
    \<and> reachable calm_env A s2 \<and> tasks s2 = [0 \<mapsto> Done, 1 \<mapsto> Done]
    \<and> hm_get (sys_vms s2) = [5 \<mapsto> Running i1 r1, 6 \<mapsto> Running i2 r2]
    \<and> hm_total entry_vcpus (sys_vms s2) = 2"
proof -
  have r0: "reachable calm_env A calm_start" unfolding calm_start_def by (rule start) simp
  have p0: "tasks calm_start = (\<lambda>_. None)" "vms_owner calm_start = None" "drawn calm_start = {}"
    "sys_vms calm_start = []" "sys_pool calm_start = pool_new"
    "st_capacity (app (sys_world calm_start)) = \<lparr>cap_memory_mb = 1024, cap_vcpus = 4\<rparr>"
    by (simp_all add: calm_start_def initial_def create_app_def sys_vms_def sys_pool_def)
  have room0: "room (sys_world calm_start)"
    using p0 by (simp add: room_def sys_vms_def sys_pool_def unat_allocatable allocate_from_new)
  obtain m i1 r1 k where m: "reachable calm_env A m" "tasks m = [0 \<mapsto> Done]" "vms_owner m = None" "drawn m = {5}"
      "st_capacity (app (sys_world m)) = \<lparr>cap_memory_mb = 1024, cap_vcpus = 4\<rparr>"
      "hm_get (sys_vms m) = [5 \<mapsto> Running i1 r1]" "hm_total entry_vcpus (sys_vms m) = 1"
      "hm_total entry_memory (sys_vms m) = 128" "pool_used (sys_pool m) = {k}"
    using calm_extend [OF r0 A _ _ _ _ calm_validate, of 0 5] p0 room0
    by (auto simp: pool_used_new fun_eq_iff calm_job_default)
  have "pool_ok (sys_pool m)" using reachable_inv [OF m(1)] by (simp add: inv_def store_ok_def)
  moreover have "pool_range \<noteq> {k}"
  proof
    assume "pool_range = {k}"
    moreover have "(0 :: u16) \<in> pool_range" "(1 :: u16) \<in> pool_range"
      by (simp_all add: pool_range_def MAX_SUBNETS_def)
    ultimately show False by (metis singletonD zero_neq_one)
  qed
  ultimately have "pool_allocate (sys_pool m) \<noteq> None" using subnets.alloc_full m(9) by metis
  with m(5,7,8) have room1: "room (sys_world m)"
    by (simp add: room_def sys_vms_def sys_pool_def unat_allocatable fits_def)
  have pre: "tasks m 1 = None" "6 \<notin> drawn m" using m(2,4) by simp_all
  from calm_extend [OF m(1) A pre m(3) room1 calm_validate, unfolded calm_job_default] obtain s1 s2 a inst desc r2 where
    e: "reachable calm_env A s1" "tasks s1 1 = Some (Upgrading (calm_job 6) a inst desc)"
      "reachable calm_env A s2" "tasks s2 = (tasks m)(1 \<mapsto> Done)"
      "hm_get (sys_vms s2) = (hm_get (sys_vms m))(6 \<mapsto> Running inst r2)"
      "hm_total entry_vcpus (sys_vms s2) = hm_total entry_vcpus (sys_vms m) + 1"
    by blast
  have "tasks s2 = [0 \<mapsto> Done, 1 \<mapsto> Done]" unfolding e(4) m(2) ..
  moreover have "hm_get (sys_vms s2) = [5 \<mapsto> Running i1 r1, 6 \<mapsto> Running inst r2]" unfolding e(5) m(6) ..
  moreover have "hm_total entry_vcpus (sys_vms s2) = 2" using e(6) m(7) by simp
  ultimately show ?thesis using e(1-3) by blast
qed

lemma calm_two_vms:
  "\<exists>s1 s2 a inst desc i1 r1 i2 r2. reachable calm_env (\<lambda>l. \<not> is_abandon l) s1
    \<and> tasks s1 1 = Some (Upgrading (calm_job 6) a inst desc)
    \<and> reachable calm_env (\<lambda>l. \<not> is_abandon l) s2 \<and> tasks s2 = [0 \<mapsto> Done, 1 \<mapsto> Done]
    \<and> hm_get (sys_vms s2) = [5 \<mapsto> Running i1 r1, 6 \<mapsto> Running i2 r2]
    \<and> hm_total entry_vcpus (sys_vms s2) = 2"
  by (rule calm_two_vms_for) (simp_all add: is_abandon_def)

theorem no_overcommit_witness:
  "\<exists>s. reachable calm_env (\<lambda>l. \<not> is_abandon l) s \<and> hm_total entry_vcpus (sys_vms s) = 2
    \<and> (\<exists>av. allocated_vcpus calm_env (sys_vms s) = Some av \<and> unat av = 2)"
proof -
  obtain s where "reachable calm_env (\<lambda>l. \<not> is_abandon l) s" "hm_total entry_vcpus (sys_vms s) = 2"
    using calm_two_vms by blast
  with no_overcommit [OF this(1)] show ?thesis by auto
qed

theorem vms_isolated_witness:
  "\<exists>s e e'. reachable calm_env (\<lambda>l. \<not> is_abandon l) s
    \<and> hm_get (sys_vms s) 5 = Some e \<and> hm_get (sys_vms s) 6 = Some e'
    \<and> vr_guest_ip (entry_resources e) \<noteq> vr_guest_ip (entry_resources e')"
proof -
  obtain s i1 r1 i2 r2 where s: "reachable calm_env (\<lambda>l. \<not> is_abandon l) s"
    "hm_get (sys_vms s) = [5 \<mapsto> Running i1 r1, 6 \<mapsto> Running i2 r2]"
    using calm_two_vms by blast
  then have "hm_get (sys_vms s) 5 = Some (Running i1 r1)" "hm_get (sys_vms s) 6 = Some (Running i2 r2)"
    by simp_all
  from vms_isolated [OF s(1) this] s(1) this show ?thesis by auto
qed

theorem placeholder_survives_witness:
  "\<exists>s a inst desc. reachable calm_env (\<lambda>l. \<not> is_abandon l) s
    \<and> tasks s 1 = Some (Upgrading (calm_job 6) a inst desc)
    \<and> (\<exists>r. hm_get (sys_vms s) 6 = Some (Creating r))"
proof -
  obtain s a inst desc where s: "reachable calm_env (\<lambda>l. \<not> is_abandon l) s"
    "tasks s 1 = Some (Upgrading (calm_job 6) a inst desc)"
    using calm_two_vms by blast
  from placeholder_survives [OF s] have "\<exists>r. hm_get (sys_vms s) 6 = Some (Creating r)"
    by (simp add: calm_job_def)
  with s show ?thesis by blast
qed

theorem no_leak_without_abandonment_witness:
  "\<exists>s. reachable calm_env (\<lambda>l. \<not> is_abandon l) s \<and> (\<exists>i. i \<in> pool_used (sys_pool s))
    \<and> pool_used (sys_pool s) =
      {i. \<exists>u e. hm_get (sys_vms s) u = Some e \<and> vr_subnet_index (entry_resources e) = Some i}"
proof -
  obtain s i1 r1 i2 r2 where s: "reachable calm_env (\<lambda>l. \<not> is_abandon l) s" "tasks s = [0 \<mapsto> Done, 1 \<mapsto> Done]"
    "hm_get (sys_vms s) = [5 \<mapsto> Running i1 r1, 6 \<mapsto> Running i2 r2]"
    using calm_two_vms by blast
  have "finished pc" if "tasks s t = Some pc" for t pc
    using that s(2) by (auto split: if_splits)
  from no_leak_without_abandonment [OF s(1) _ this] have
    eq: "pool_used (sys_pool s) =
      {i. \<exists>u e. hm_get (sys_vms s) u = Some e \<and> vr_subnet_index (entry_resources e) = Some i}" by simp
  have "hm_get (sys_vms s) 5 = Some (Running i1 r1)" using s(3) by simp
  moreover from this reachable_inv [OF s(1)] obtain i where "vr_subnet_index r1 = Some i"
    by (fastforce simp: inv_def entries_ok_def res_ok_def)
  ultimately have "\<exists>i. i \<in> pool_used (sys_pool s)"
    unfolding eq by (intro exI [of _ i] CollectI exI [of _ 5] exI [of _ "Running i1 r1"]) simp
  with s(1) eq show ?thesis by blast
qed

theorem progress_witness:
  "\<exists>s a inst desc t' s'. reachable calm_env (\<lambda>l. \<not> is_abandon l) s
    \<and> tasks s 1 = Some (Upgrading (calm_job 6) a inst desc) \<and> sys_step calm_env s (Work t') s'"
proof -
  obtain s a inst desc where s: "reachable calm_env (\<lambda>l. \<not> is_abandon l) s"
    "tasks s 1 = Some (Upgrading (calm_job 6) a inst desc)"
    using calm_two_vms by blast
  have "\<not> finished (Upgrading (calm_job 6) a inst desc)" by simp
  from progress [OF s this] s show ?thesis by blast
qed


end
