(* ===== verification/Health.thy ===== *)
theory Health
  imports Control_Plane
begin

text \<open>
  \<open>src/handlers/healthcheck.rs\<close>: the liveness and readiness probes. The argument of \<open>ready\<close>
  says whether \<open>try_lock\<close> on the VM map succeeded.
\<close>

definition health :: json where
  "health = JObj [(''status'', JStr ''ok'')]"

record capacity_info =
  ci_total_memory_mb :: u64
  ci_allocatable_memory_mb :: u64
  ci_total_vcpus :: u8

record vm_info =
  vi_count :: nat
  vi_allocated_vcpus :: u8
  vi_allocated_memory_mb :: u64

record ready_response =
  rr_status :: string
  rr_version :: string
  rr_capacity :: "capacity_info option"
  rr_vms :: "vm_info option"
  rr_copy_strategy :: "string option"

fun strategy_label :: "copy_strategy \<Rightarrow> string" where
  "strategy_label Reflink = ''reflink''"
| "strategy_label Sparse = ''sparse''"

definition ready_vms :: "env \<Rightarrow> vm_map \<Rightarrow> vm_info outcome" where
  "ready_vms E vms =
     (case allocated_vcpus E vms of
        None \<Rightarrow> Panicked
      | Some av \<Rightarrow>
          (case allocated_memory E vms of
             None \<Rightarrow> Panicked
           | Some am \<Rightarrow> Finished \<lparr>vi_count = length vms, vi_allocated_vcpus = av,
               vi_allocated_memory_mb = am\<rparr>))"

definition ready :: "env \<Rightarrow> bool \<Rightarrow> ready_response outcome handler" where
  "ready E locked = do {
     s \<leftarrow> get_app;
     let base = \<lparr>rr_status = ''ready'', rr_version = ''0.1.0'',
       rr_capacity = Some \<lparr>ci_total_memory_mb = cap_memory_mb (st_capacity s),
         ci_allocatable_memory_mb = allocatable_memory_mb (st_capacity s),
         ci_total_vcpus = cap_vcpus (st_capacity s)\<rparr>,
       rr_vms = None,
       rr_copy_strategy = Some (strategy_label (jc_copy_strategy (st_jailer s)))\<rparr>
     in ret (if \<not> locked then Finished base
             else case ready_vms E (st_vms s) of
                    Panicked \<Rightarrow> Panicked
                  | Finished info \<Rightarrow> Finished (base\<lparr>rr_vms := Some info\<rparr>))
   }"

definition ready_to_json :: "ready_response \<Rightarrow> json" where
  "ready_to_json r = JObj
     ([(''status'', JStr (rr_status r)), (''version'', JStr (rr_version r))]
      @ opt_field ''capacity'' (\<lambda>c. JObj
          [(''total_memory_mb'', JNum (unat (ci_total_memory_mb c))),
           (''allocatable_memory_mb'', JNum (unat (ci_allocatable_memory_mb c))),
           (''total_vcpus'', JNum (unat (ci_total_vcpus c)))]) (rr_capacity r)
      @ opt_field ''vms'' (\<lambda>v. JObj
          [(''count'', JNum (vi_count v)),
           (''allocated_vcpus'', JNum (unat (vi_allocated_vcpus v))),
           (''allocated_memory_mb'', JNum (unat (vi_allocated_memory_mb v)))]) (rr_vms r)
      @ opt_field ''copy_strategy'' JStr (rr_copy_strategy r))"



end
