(* ===== verification/Host_Resources.thy ===== *)
theory Host_Resources
  imports Control_Plane
begin

text \<open>
  What the host has, in every state the concurrent server can reach. First, what every segment
  of a handler does to the map and to the host; then the invariant that every entry names the
  disk and the socket of its own VM, and the one that the tap devices and the rules are those of
  the VMs in the map and of the creates about to reserve. The ledgers are read off the history
  the tasks share.
\<close>

section \<open>Handlers that leave the host alone\<close>

definition unmoved :: "'a handler \<Rightarrow> bool" where
  "unmoved m \<longleftrightarrow> (\<forall>w. host_view (hist (snd (run_state m w))) = host_view (hist w))"

named_theorems still \<open>introduction rules for handlers that leave the host alone\<close>

lemma unmovedD: "unmoved m \<Longrightarrow> run_state m w = (r, w') \<Longrightarrow> host_view (hist w') = host_view (hist w)"
  unfolding unmoved_def by (metis snd_conv)

lemma unmoved_prims [still]:
  "unmoved (ret x)" "unmoved get_app" "unmoved (put_vms m)" "unmoved (vms_remove u)"
  "unmoved (vms_insert u e)"
  by (simp_all add: unmoved_def prims)

lemma unmoved_pool [still]: "unmoved pool_lock_allocate" "unmoved (pool_lock_release i)"
  by (simp_all add: unmoved_def prims split: option.split)

lemma unmoved_lift_io [still]: "appends ledger_neutral m \<Longrightarrow> unmoved (lift_io m)"
  by (simp add: unmoved_def prims neutral_view)

lemma unmoved_bind [still]: "unmoved m \<Longrightarrow> (\<And>x. unmoved (f x)) \<Longrightarrow> unmoved (State_Monad.bind m f)"
  unfolding unmoved_def by (simp split: prod.split) (metis snd_conv)

lemma unmoved_if [still]: "unmoved m \<Longrightarrow> unmoved n \<Longrightarrow> unmoved (if b then m else n)"
  by simp

lemma unmoved_cases [still]:
  "(\<And>x. unmoved (f x)) \<Longrightarrow> (\<And>y. unmoved (g y)) \<Longrightarrow> unmoved (case r of Inl x \<Rightarrow> f x | Inr y \<Rightarrow> g y)"
  "unmoved n \<Longrightarrow> (\<And>y. unmoved (g y)) \<Longrightarrow> unmoved (case r' of None \<Rightarrow> n | Some y \<Rightarrow> g y)"
  "(\<And>x. unmoved (h x)) \<Longrightarrow> (\<And>i x. unmoved (k i x)) \<Longrightarrow>
   unmoved (case e of Creating x \<Rightarrow> h x | Running i x \<Rightarrow> k i x)"
  "unmoved n \<Longrightarrow> (\<And>y. unmoved (g y)) \<Longrightarrow> unmoved (case q of Panicked \<Rightarrow> n | Finished y \<Rightarrow> g y)"
  by (simp_all split: sum.split option.split vm_entry.split outcome.split)

lemma appends_single:
  "appends ledger_neutral (sdk_describe E inst)" "appends ledger_neutral (drop_instance inst)"
  unfolding sdk_describe_def drop_instance_def by (intro footprint ledger_neutral_events)+

lemma unmoved_list_entries [still]: "unmoved (list_entries E m)"
  using list_entries_matches unfolding unmoved_def by (metis surj_pair snd_conv)

lemma unmoved_handlers [still]:
  "unmoved (list_vms E)" "unmoved (get_vm E u)" "unmoved create_alloc" "unmoved (create_unwind a e)"
  "unmoved (create_setup E u v m a)" "unmoved (create_upgrade u inst)" "unmoved (report_vm E u v m)"
  "unmoved (deregister_vm E u)"
  unfolding list_vms_def get_vm_def create_alloc_def create_unwind_def create_setup_def
    create_upgrade_def report_vm_def deregister_vm_def
  by (intro still appends_single appends_setup appends_gw_neutral)+

lemma unmoved_create_finish [still]: "unmoved (create_finish E u v m a inst desc installed)"
  unfolding create_finish_def by (intro still appends_single)

section \<open>Every entry belongs to its own VM\<close>

definition wired :: "env \<Rightarrow> jailer_config \<Rightarrow> uuid \<Rightarrow> vm_resources \<Rightarrow> bool" where
  "wired E jc u r \<longleftrightarrow> vr_nat_handles r \<noteq> None
     \<and> vr_rootfs_copy r = Some (vm_rootfs_path E jc u)
     \<and> vr_vsock_uds_path r = Some (vsock_runtime_path E u)"

lemma wired_new [simp]: "wired E jc u (new_resources E jc u v m keys a hs)"
  by (simp add: wired_def new_resources_def)

definition map_wired :: "env \<Rightarrow> app_state \<Rightarrow> bool" where
  "map_wired E st \<longleftrightarrow>
     (\<forall>u e. hm_get (st_vms st) u = Some e \<longrightarrow> wired E (st_jailer st) u (entry_resources e))"

fun pc_wired :: "env \<Rightarrow> jailer_config \<Rightarrow> pc \<Rightarrow> bool" where
  "pc_wired E jc (FailReleasing j r) = wired E jc (j_id j) r"
| "pc_wired E jc (Stopping u _ r) = wired E jc u r"
| "pc_wired E jc (DeleteReleasing u r) = wired E jc u r"
| "pc_wired E jc _ = True"

lemma map_wiredD: "map_wired E st \<Longrightarrow> hm_get (st_vms st) u = Some e \<Longrightarrow> wired E (st_jailer st) u (entry_resources e)"
  unfolding map_wired_def by blast

lemma map_wired_upd:
  assumes "map_wired E st" and "hm_get (st_vms st') = (hm_get (st_vms st))(u := x)"
    and "st_jailer st' = st_jailer st" and "\<And>e. x = Some e \<Longrightarrow> wired E (st_jailer st) u (entry_resources e)"
  shows "map_wired E st'"
  using assms unfolding map_wired_def by (auto split: if_splits)

lemma map_wired_same:
  "map_wired E st \<Longrightarrow> st_vms st' = st_vms st \<Longrightarrow> st_jailer st' = st_jailer st \<Longrightarrow> map_wired E st'"
  by (simp add: map_wired_def)


definition jailer :: "system \<Rightarrow> jailer_config" where
  "jailer s = st_jailer (app (sys_world s))"

text \<open>What the segments do, in the form the invariants below use: those that leave the map alone,
  and the four that do not.\<close>

fun map_segment :: "pc \<Rightarrow> bool" where
  "map_segment (Reserving _ _ _) = True"
| "map_segment (Failing _) = True"
| "map_segment (Upgrading _ _ _ _) = True"
| "map_segment (Deleting _) = True"
| "map_segment _ = False"

lemma spawn_blocking_kept: "app (snd (run_state (create_copy_rootfs E u) w)) = app w"
    "app (snd (run_state (create_network E a) w)) = app w"
    "app (snd (run_state (create_setup E u v m a) w)) = app w"
    "app (snd (run_state (create_finish E u v m a inst desc b) w)) = app w"
    "app (snd (run_state (delete_stop E inst r) w)) = app w"
  using app_kept_handlers(3,4,5,8,9) by (simp_all add: app_kept_def)

definition map_kept :: "app_state \<Rightarrow> app_state \<Rightarrow> bool" where
  "map_kept st st' \<longleftrightarrow> st_vms st' = st_vms st \<and> st_jailer st' = st_jailer st"

lemma map_kept_simps [simp]: "map_kept st st" "map_kept st (st\<lparr>st_pool := p\<rparr>)"
  by (simp_all add: map_kept_def)

lemma release_kept: "map_kept (app w) (app (snd (run_state (release_resources E r) w)))"
proof -
  obtain q w' where q: "run_state (release_resources E r) w = (q, w')" by fastforce
  with release_resources_app [OF q] show ?thesis by (auto split: option.splits)
qed

lemma delete_finish_kept: "map_kept (app w) (app (snd (run_state (delete_finish E u r) w)))"
proof -
  obtain q w' where q: "run_state (delete_finish E u r) w = (q, w')" by fastforce
  with delete_finish_app [OF q] show ?thesis by (auto split: option.splits)
qed

lemma release_finishes:
  assumes "res_ok r" and "pool_ok (st_pool (app w))"
  shows "fst (run_state (release_resources E r) w) = Finished ()"
proof -
  from assms(1) obtain i where i: "vr_subnet_index r = Some i" "i \<in> pool_range" by (auto simp: res_ok_def)
  obtain q w1 where q: "run_state (release_resources E r) w = (q, w1)" by fastforce
  obtain p where "pool_release i (st_pool (app w)) = Some p" using subnets.release_ok [OF assms(2) i(2)] by blast
  with release_resources_app [OF q] i(1) q show ?thesis by simp
qed

lemma advance_kept:
  assumes "\<not> map_segment pc" and "pc_ok pc" and ok: "pool_ok (st_pool (app w))"
    and adv: "advance E pc w = (pc', w')"
  shows "map_kept (app w) (app w')"
proof (cases pc)
  case (Copying j)
  obtain r w1 where r: "run_state (create_copy_rootfs E (j_id j)) w = (r, w1)" by fastforce
  from spawn_blocking_kept(1) [of E "j_id j" w, unfolded r] adv r Copying show ?thesis by (cases r) auto
next
  case (Allocating j)
  with adv show ?thesis by (auto simp: run_create_alloc split: option.splits)
next
  case (Networking j a)
  obtain r w1 where r: "run_state (create_network E a) w = (r, w1)" by fastforce
  from spawn_blocking_kept(2) [of E a w, unfolded r] adv r Networking show ?thesis
    by (cases r; cases "the r") auto
next
  case (Unwinding j a e)
  with adv show ?thesis by (auto simp: run_create_unwind split: option.splits)
next
  case (SettingUp j a)
  obtain r w1 where r: "run_state (create_setup E (j_id j) (j_vcpus j) (j_memory_mb j) a) w = (r, w1)" by fastforce
  from spawn_blocking_kept(3) [of E "j_id j" "j_vcpus j" "j_memory_mb j" a w, unfolded r] adv r SettingUp
  show ?thesis by (cases r) auto
next
  case (FailReleasing j r)
  with assms(2) release_finishes [OF _ ok, of r E] adv release_kept [of w E r] show ?thesis
    by (auto split: prod.splits)
next
  case (Reporting j a inst desc b)
  with adv spawn_blocking_kept(4) [of E "j_id j" "j_vcpus j" "j_memory_mb j" a inst desc b w] show ?thesis by auto
next
  case (Stopping u inst r)
  with adv spawn_blocking_kept(5) [of E inst r w] show ?thesis by auto
next
  case (DetachedCopy j)
  with adv spawn_blocking_kept(1) [of E "j_id j" w] show ?thesis by auto
next
  case (DetachedNetwork a)
  with adv spawn_blocking_kept(2) [of E a w] show ?thesis by auto
next
  case (DeleteReleasing u r)
  with adv delete_finish_kept [of w E u r] show ?thesis by (auto split: prod.splits outcome.splits)
qed (use assms(1) adv in auto)

lemma advance_Reserving:
  assumes inv: "inv False s" and t: "tasks s t = Some (Reserving j a hs)"
    and adv: "advance E (Reserving j a hs) (sys_world s) = (pc', w')"
  shows "(\<exists>p. pc' = Done \<and> app w' = (app (sys_world s))\<lparr>st_pool := p\<rparr>
      \<and> pool_release (sub_index a) (sys_pool s) = Some p
      \<and> hist w' = hist (snd (run_state (rollback_network E a hs) (sys_world s))))
    \<or> pc' = SettingUp j a \<and> hist w' = hist (sys_world s) \<and> app w' = (app (sys_world s))\<lparr>st_vms := hm_insert (j_id j)
        (Creating (new_resources E (jailer s) (j_id j) (j_vcpus j) (j_memory_mb j) (j_keys j) a hs)) (sys_vms s)\<rparr>"
proof -
  let ?w = "sys_world s"
  have f: "fits (st_capacity (app ?w)) (st_vms (app ?w))" using inv_facts(3) [OF inv t] by (simp add: sys_vms_def)
  obtain av where av: "allocated_vcpus E (st_vms (app ?w)) = Some av" using allocated_vcpus_exact [OF f] by blast
  obtain am where am: "allocated_memory E (st_vms (app ?w)) = Some am" using allocated_memory_exact [OF f] by blast
  obtain r w1 where r: "run_state (create_reserve E (j_id j) (j_vcpus j) (j_memory_mb j) (j_keys j) a hs) ?w = (r, w1)"
    by fastforce
  note eff = create_reserve_app [OF r av am]
  show ?thesis
  proof (cases "capacity_check (st_capacity (app ?w)) av am (j_vcpus j) (j_memory_mb j)")
    case None
    with eff adv r show ?thesis by (simp add: jailer_def sys_vms_def)
  next
    case (Some e)
    have "sub_index a \<in> pool_range" using inv_facts(6) [OF inv t] by (simp add: alloc_ok_def)
    then obtain p where p: "pool_release (sub_index a) (st_pool (app ?w)) = Some p"
      using release_exists [OF inv t] by (auto simp: sys_pool_def)
    obtain q w2 where q: "run_state (rollback_network E a hs) ?w = (q, w2)" by fastforce
    with rollback_network_app [OF q] p have "q = Finished ()" by simp
    with q r Some av am have "w1 = w2" by (simp add: create_reserve_def prims)
    with eff Some p adv r q show ?thesis by (auto simp: sys_pool_def)
  qed
qed

lemma advance_Failing:
  assumes inv: "inv False s" and t: "tasks s t = Some (Failing j)"
    and adv: "advance E (Failing j) (sys_world s) = (pc', w')"
  shows "\<exists>r. hm_get (sys_vms s) (j_id j) = Some (Creating r) \<and> res_ok r \<and> pc' = FailReleasing j r
    \<and> app w' = (app (sys_world s))\<lparr>st_vms := hm_remove (j_id j) (sys_vms s)\<rparr>
    \<and> hist w' = snd (run_state (teardown_network E r) (hist (sys_world s)))"
proof -
  from placedD [OF inv t] obtain r where "hm_get (sys_vms s) (j_id j) = Some (Creating r)" "res_ok r" by auto
  with adv show ?thesis by (auto simp: create_fail_begin_def prims sys_vms_def teardown_entry_def)
qed

lemma advance_Upgrading:
  assumes inv: "inv False s" and t: "tasks s t = Some (Upgrading j a inst desc)"
    and adv: "advance E (Upgrading j a inst desc) (sys_world s) = (pc', w')"
  shows "\<exists>r. hm_get (sys_vms s) (j_id j) = Some (Creating r) \<and> pc' = Reporting j a inst desc True
    \<and> app w' = (app (sys_world s))\<lparr>st_vms := hm_insert (j_id j) (Running inst r) (hm_remove (j_id j) (sys_vms s))\<rparr>
    \<and> hist w' = hist (sys_world s)"
proof -
  from placedD [OF inv t] obtain r where "hm_get (sys_vms s) (j_id j) = Some (Creating r)" by auto
  with adv show ?thesis by (auto simp: create_upgrade_def prims sys_vms_def)
qed

lemma advance_Deleting:
  assumes adv: "advance E (Deleting u) (sys_world s) = (pc', w')"
  shows "pc' = Done \<and> hm_get (st_vms (app w')) = hm_get (sys_vms s) \<and> jailer s = st_jailer (app w')
      \<and> hist w' = hist (sys_world s)
    \<or> (\<exists>inst r. hm_get (sys_vms s) u = Some (Running inst r) \<and> pc' = Stopping u inst r
      \<and> app w' = (app (sys_world s))\<lparr>st_vms := hm_remove u (sys_vms s)\<rparr> \<and> hist w' = hist (sys_world s))"
proof -
  consider (absent) "hm_get (sys_vms s) u = None"
    | (creating) r where "hm_get (sys_vms s) u = Some (Creating r)"
    | (running) inst r where "hm_get (sys_vms s) u = Some (Running inst r)"
    by (cases "hm_get (sys_vms s) u"; cases "the (hm_get (sys_vms s) u)") auto
  then show ?thesis
    using adv by cases
      (auto simp: delete_take_def prims sys_vms_def jailer_def hmap fun_upd_idem)
qed


lemma advance_holds:
  assumes "\<not> map_segment pc" and "advance E pc w = (pc', w')" and "pc_wired E jc pc"
  shows "pc_wired E jc pc'"
  using assms by (cases pc) (auto split: prod.splits sum.splits option.splits outcome.splits)

text \<open>So what holds of every entry, and of the one a reservation makes, is kept by every segment.\<close>

lemma advance_entries:
  assumes inv: "inv False s" and t: "tasks s t = Some pc" and adv: "advance E pc (sys_world s) = (pc', w')"
    and all: "\<And>u e. hm_get (sys_vms s) u = Some e \<Longrightarrow> P u (entry_resources e)"
    and new: "\<And>j a hs. pc = Reserving j a hs \<Longrightarrow>
      P (j_id j) (new_resources E (jailer s) (j_id j) (j_vcpus j) (j_memory_mb j) (j_keys j) a hs)"
    and e: "hm_get (st_vms (app w')) u = Some e"
  shows "P u (entry_resources e)"
proof (cases "map_segment pc")
  case False
  have "pool_ok (st_pool (app (sys_world s)))" using inv_facts(2) [OF inv t] by (simp add: sys_pool_def)
  from advance_kept [OF False inv_facts(6) [OF inv t] this adv] all e show ?thesis by (simp add: map_kept_def sys_vms_def)
next
  case True
  from True consider (Reserving) j a hs where "pc = Reserving j a hs" | (Failing) j where "pc = Failing j"
    | (Upgrading) j a inst desc where "pc = Upgrading j a inst desc" | (Deleting) v where "pc = Deleting v"
    by (cases pc) auto
  then show ?thesis
  proof cases
    case (Reserving j a hs)
    from advance_Reserving [OF inv t [unfolded Reserving] adv [unfolded Reserving]] all e new [OF Reserving]
    show ?thesis by (auto simp: hmap sys_vms_def split: if_splits)
  next
    case (Failing j)
    from advance_Failing [OF inv t [unfolded Failing] adv [unfolded Failing]] all e show ?thesis
      by (auto simp: hmap split: if_splits)
  next
    case (Upgrading j a inst desc)
    from advance_Upgrading [OF inv t [unfolded Upgrading] adv [unfolded Upgrading]] all [of "j_id j"] all [of u] e
    show ?thesis by (auto simp: hmap split: if_splits)
  next
    case (Deleting v)
    from advance_Deleting [OF adv [unfolded Deleting]] all e show ?thesis by (auto simp: hmap split: if_splits)
  qed
qed

lemma advance_jailer:
  assumes inv: "inv False s" and t: "tasks s t = Some pc" and adv: "advance E pc (sys_world s) = (pc', w')"
  shows "st_jailer (app w') = jailer s"
proof (cases "map_segment pc")
  case False
  have "pool_ok (st_pool (app (sys_world s)))" using inv_facts(2) [OF inv t] by (simp add: sys_pool_def)
  from advance_kept [OF False inv_facts(6) [OF inv t] this adv] show ?thesis by (simp add: map_kept_def jailer_def)
next
  case True
  with t adv show ?thesis
    using advance_Reserving [OF inv, of t] advance_Failing [OF inv, of t] advance_Upgrading [OF inv, of t] advance_Deleting
    by (cases pc) (fastforce simp: jailer_def)+
qed

lemma advance_pc_wired:
  assumes inv: "inv False s" and t: "tasks s t = Some pc" and adv: "advance E pc (sys_world s) = (pc', w')"
    and mw: "map_wired E (app (sys_world s))" and pw: "pc_wired E (jailer s) pc"
  shows "pc_wired E (jailer s) pc'"
proof (cases "map_segment pc")
  case False
  from advance_holds [OF False adv pw] show ?thesis .
next
  case True
  note own = map_wiredD [OF mw, folded sys_vms_def jailer_def]
  from True show ?thesis
  proof (cases pc)
    case (Reserving j a hs)
    from advance_Reserving [OF inv t [unfolded Reserving] adv [unfolded Reserving]] show ?thesis by auto
  next
    case (Failing j)
    from advance_Failing [OF inv t [unfolded Failing] adv [unfolded Failing]] own [of "j_id j"] show ?thesis by fastforce
  next
    case (Upgrading j a inst desc)
    from advance_Upgrading [OF inv t [unfolded Upgrading] adv [unfolded Upgrading]] show ?thesis by auto
  next
    case (Deleting u)
    from advance_Deleting [OF adv [unfolded Deleting]] own [of u] show ?thesis by fastforce
  qed simp_all
qed

lemma advance_wired:
  assumes "inv False s" and "tasks s t = Some pc" and "advance E pc (sys_world s) = (pc', w')"
    and "map_wired E (app (sys_world s))" and "pc_wired E (jailer s) pc"
  shows "map_wired E (app w') \<and> st_jailer (app w') = jailer s \<and> pc_wired E (jailer s) pc'"
proof -
  have "wired E (jailer s) u (entry_resources e)" if "hm_get (st_vms (app w')) u = Some e" for u e
    by (rule advance_entries [OF assms(1-3) _ _ that, where P = "wired E (jailer s)"])
      (use assms(4) in \<open>auto simp: map_wired_def sys_vms_def jailer_def\<close>)
  with advance_jailer [OF assms(1-3)] advance_pc_wired [OF assms] show ?thesis by (simp add: map_wired_def)
qed

lemma drop_task_map:
  "st_jailer (app (drop_task E vms_free pool_free pc w)) = st_jailer (app w)
   \<and> (st_vms (app (drop_task E vms_free pool_free pc w)) = st_vms (app w)
      \<or> (\<exists>u. guarded pc = Some u \<and> st_vms (app (drop_task E vms_free pool_free pc w)) = hm_remove u (st_vms (app w))))"
proof (cases "guarded pc")
  case None
  then show ?thesis by (simp add: drop_task_app)
next
  case (Some u)
  let ?w = "w\<lparr>hist := hist (drop_task E False pool_free pc w)\<rparr>"
  obtain q w1 where g: "run_state (create_guard_drop E vms_free pool_free u) ?w = (q, w1)" by fastforce
  have eq: "app (drop_task E vms_free pool_free pc w) = app w1" using Some g by (simp add: drop_task_app)
  from create_guard_drop_app [OF g] Some show ?thesis
    unfolding eq by (auto simp: Let_def split: if_split_asm option.split_asm vm_entry.split_asm)
qed

lemma detached_wired: "detached pc = Some pc' \<Longrightarrow> pc_wired E jc pc'"
  by (cases pc) auto

definition all_wired :: "env \<Rightarrow> system \<Rightarrow> bool" where
  "all_wired E s \<longleftrightarrow> map_wired E (app (sys_world s))
     \<and> (\<forall>t pc. tasks s t = Some pc \<longrightarrow> pc_wired E (jailer s) pc)"

lemma step_wired:
  assumes "sys_step E s l s'" and "inv False s" and "all_wired E s"
  shows "all_wired E s'"
  using assms
proof (induction rule: sys_step.cases)
  case (work s t pc pc' w')
  from work advance_wired [of s t pc E pc' w'] show ?case by (simp add: all_wired_def jailer_def)
next
  case (abandon s t pc vms_free pool_free)
  let ?w = "drop_task E vms_free pool_free pc (sys_world s)"
  have mw: "map_wired E (app (sys_world s))" using abandon by (simp add: all_wired_def)
  have d: "st_jailer (app ?w) = jailer s"
    "st_vms (app ?w) = st_vms (app (sys_world s)) \<or> (\<exists>u. st_vms (app ?w) = hm_remove u (st_vms (app (sys_world s))))"
    using drop_task_map [of E vms_free pool_free pc "sys_world s"] by (auto simp: jailer_def)
  from d(2) have "map_wired E (app ?w)"
  proof (elim disjE exE)
    fix u
    assume "st_vms (app ?w) = hm_remove u (st_vms (app (sys_world s)))"
    then show ?thesis using d(1) by (intro map_wired_upd [OF mw, of _ u None]) (simp_all add: hmap jailer_def)
  qed (use d(1) map_wired_same [OF mw] in \<open>simp add: jailer_def\<close>)
  with abandon d(1) show ?case by (simp add: all_wired_def jailer_def)
next
  case (detach s t pc pc')
  then show ?case by (auto simp: all_wired_def jailer_def dest: detached_wired)
next
  case (list_query s)
  with app_kept_handlers(1) show ?case by (simp add: all_wired_def jailer_def app_kept_def)
next
  case (get_query s u)
  with app_kept_handlers(2) show ?case by (simp add: all_wired_def jailer_def app_kept_def)
qed (simp_all add: all_wired_def jailer_def)

lemma reachable_wired: "reachable E allowed s \<Longrightarrow> all_wired E s"
proof (induction rule: reachable.induct)
  case start
  then show ?case by (simp add: all_wired_def map_wired_def initial_def create_app_def)
next
  case (step s l s')
  with step_wired reachable_inv show ?case by blast
qed

lemma step_jailer:
  assumes "sys_step E s l s'" and "inv False s" and "all_wired E s"
  shows "jailer s' = jailer s"
  using assms(1)
proof (cases rule: sys_step.cases)
  case (work t pc pc' w')
  have "map_wired E (app (sys_world s))" "pc_wired E (jailer s) pc"
    using assms(3) work(3) unfolding all_wired_def by blast+
  from advance_wired [OF assms(2) work(3,6) this] work(2) show ?thesis by (simp add: jailer_def)
next
  case (abandon t pc vms_free pool_free)
  with drop_task_map [of E vms_free pool_free pc "sys_world s"] show ?thesis by (simp add: jailer_def)
next
  case list_query
  with app_kept_handlers(1) [of E] show ?thesis by (simp add: jailer_def app_kept_def)
next
  case (get_query u)
  with app_kept_handlers(2) [of E u] show ?thesis by (simp add: jailer_def app_kept_def)
qed (simp_all add: jailer_def)

section \<open>Tap devices and rules\<close>

text \<open>
  Who owns a device: an entry, a create between its network setup and its reservation, or a
  delete that has taken its entry out and waits for the instance to stop.
\<close>

fun pc_tap :: "pc \<Rightarrow> u16 option" where
  "pc_tap (Reserving _ a _) = Some (sub_index a)"
| "pc_tap (Stopping _ _ r) = vr_subnet_index r"
| "pc_tap _ = None"

fun tap_index :: "vm_map \<Rightarrow> (nat \<Rightarrow> pc option) \<Rightarrow> holder \<Rightarrow> u16 option" where
  "tap_index vms ts (InMap u) = entry_index (hm_get vms u)"
| "tap_index vms ts (InTask t) = (case ts t of None \<Rightarrow> None | Some pc \<Rightarrow> pc_tap pc)"

lemma tap_index_task: "tap_index vms (ts(t \<mapsto> pc)) = (tap_index vms ts)(InTask t := pc_tap pc)"
proof
  fix h
  show "tap_index vms (ts(t \<mapsto> pc)) h = ((tap_index vms ts)(InTask t := pc_tap pc)) h" by (cases h) auto
qed

lemma tap_index_map:
  "hm_get vms' = (hm_get vms)(u := x) \<Longrightarrow> tap_index vms' ts = (tap_index vms ts)(InMap u := entry_index x)"
proof
  fix h
  assume "hm_get vms' = (hm_get vms)(u := x)"
  then show "tap_index vms' ts h = ((tap_index vms ts)(InMap u := entry_index x)) h" by (cases h) simp_all
qed

lemma tap_index_owned: "tap_index vms ts h = Some i \<Longrightarrow> holder_index vms ts h = Some i"
proof (cases h)
  case (InTask t)
  assume "tap_index vms ts h = Some i"
  with InTask show ?thesis by (auto split: option.splits elim!: pc_tap.elims)
qed (auto simp: entry_index_def)

text \<open>
  \<open>equipped f h\<close>: the devices on the host are those of the owners in \<open>f\<close>, one each, and each
  comes with its two rules. How it changes mirrors how ownership changes hands.
\<close>

definition equipped :: "('h \<Rightarrow> u16 option) \<Rightarrow> history \<Rightarrow> bool" where
  "equipped f h \<longleftrightarrow>
     (\<exists>U. own_ok True f U \<and> live_taps h = tap_name ` U \<and> live_rules h = 2 * int (card U))"

lemma tap_name_inj: "inj tap_name"
  by (auto intro: injI simp: tap_name_def word_unat_eq_iff)

lemma tap_name_image: "tap_name i \<in> tap_name ` U \<longleftrightarrow> i \<in> U"
  by (rule inj_image_mem_iff [OF tap_name_inj])

lemma finite_u16: "finite (U :: u16 set)"
  by (rule finite)

lemma equipped_same: "equipped f h \<Longrightarrow> live_taps h' = live_taps h \<Longrightarrow> live_rules h' = live_rules h \<Longrightarrow> equipped f h'"
  by (simp add: equipped_def)

lemma equipped_live: "equipped f h \<Longrightarrow> f k = Some i \<Longrightarrow> tap_name i \<in> live_taps h"
  unfolding equipped_def by (auto dest: own_okD(1))

lemma equipped_fresh: "equipped f h \<Longrightarrow> (\<And>k. f k \<noteq> Some i) \<Longrightarrow> tap_name i \<notin> live_taps h"
  unfolding equipped_def using own_okD(3) by (fastforce simp: tap_name_image)

lemma equipped_add:
  assumes "equipped f h" and "f k = None" and "\<And>k. f k \<noteq> Some i"
    and "live_taps h' = insert (tap_name i) (live_taps h)" and "live_rules h' = live_rules h + 2"
  shows "equipped (f(k \<mapsto> i)) h'"
proof -
  from assms(1) obtain U where U: "own_ok True f U" "live_taps h = tap_name ` U" "live_rules h = 2 * int (card U)"
    unfolding equipped_def by blast
  have "i \<notin> U" using own_okD(3) [OF U(1)] assms(3) by blast
  with own_acquire [OF U(1) this assms(2)] U assms(4,5) show ?thesis
    unfolding equipped_def by (intro exI [of _ "insert i U"]) (simp add: finite_u16)
qed

lemma equipped_drop:
  assumes "equipped f h" and "f k = Some i"
    and "live_taps h' = live_taps h - {tap_name i}" and "live_rules h' = live_rules h - 2"
  shows "equipped (f(k := None)) h'"
proof -
  from assms(1) obtain U where U: "own_ok True f U" "live_taps h = tap_name ` U" "live_rules h = 2 * int (card U)"
    unfolding equipped_def by blast
  have i: "i \<in> U" using own_okD(1) [OF U(1) assms(2)] .
  then have "card U = Suc (card (U - {i}))" by (simp only: card_Suc_Diff1 finite_u16)
  moreover have "tap_name ` (U - {i}) = tap_name ` U - {tap_name i}"
    using image_set_diff [OF tap_name_inj, of U "{i}"] by simp
  ultimately show ?thesis
    using own_release [OF U(1) assms(2)] U assms(3,4) unfolding equipped_def
    by (intro exI [of _ "U - {i}"]) simp
qed

lemma equipped_move:
  assumes "equipped f h" and "f k = Some i" and "f k' = None"
    and "live_taps h' = live_taps h" and "live_rules h' = live_rules h"
  shows "equipped (f(k := None, k' \<mapsto> i)) h'"
  using assms own_move [of True f _ k i k'] unfolding equipped_def by metis


text \<open>The devices after each segment that touches them.\<close>

lemma unmoved_net:
  "unmoved m \<Longrightarrow> run_state m w = (r, w') \<Longrightarrow>
   live_taps (hist w') = live_taps (hist w) \<and> live_rules (hist w') = live_rules (hist w)"
  using unmovedD by (fastforce simp: host_view_def)

lemma release_net:
  "live_taps (hist (snd (run_state (release_resources E r) w))) = live_taps (hist w)
   \<and> live_rules (hist (snd (run_state (release_resources E r) w))) = live_rules (hist w)"
  by (auto simp: release_resources_def prims files_keep_network split: option.split outcome.split)

lemma delete_finish_net:
  "live_taps (hist (snd (run_state (delete_finish E u r) w))) = live_taps (hist w)
   \<and> live_rules (hist (snd (run_state (delete_finish E u r) w))) = live_rules (hist w)"
proof -
  obtain q w1 where q: "run_state (release_resources E r) w = (q, w1)" by fastforce
  obtain x w2 where d: "run_state (deregister_vm E u) w1 = (x, w2)" by (cases "run_state (deregister_vm E u) w1")
  from release_net [of E r w] q unmoved_net [OF unmoved_handlers(8) d] d show ?thesis
    by (simp add: delete_finish_def split: outcome.split)
qed

lemma entry_tap:
  assumes "res_ok r" and "vr_subnet_index r = Some i"
  shows "vr_tap_name r = Some (tap_name i)"
  using assms by (auto simp: res_ok_def)

lemma teardown_net:
  assumes tidy: "tidy_host E" and r: "res_ok r" "wired E jc u r" and i: "vr_subnet_index r = Some i"
    and live: "tap_name i \<in> live_taps h"
  shows "live_taps (snd (run_state (teardown_network E r) h)) = live_taps h - {tap_name i}
    \<and> live_rules (snd (run_state (teardown_network E r) h)) = live_rules h - 2"
proof -
  from r(2) obtain hs where "vr_nat_handles r = Some hs" by (auto simp: wired_def)
  from tidy_teardown [OF tidy entry_tap [OF r(1) i] this live] show ?thesis by (simp add: host_view_def)
qed

lemma entry_facts:
  assumes "inv False s" and "all_wired E s" and "hm_get (sys_vms s) u = Some e"
  shows "res_ok (entry_resources e)" "wired E (jailer s) u (entry_resources e)"
  using assms map_wiredD [of E "app (sys_world s)" u e]
  by (auto simp: inv_def entries_ok_def all_wired_def sys_vms_def jailer_def)

lemma equipped_torn_down:
  assumes tidy: "tidy_host E" and e: "inv False s" "all_wired E s" "hm_get (sys_vms s) u = Some e"
    and eq: "equipped (tap_index (sys_vms s) ts) h"
    and h0: "live_taps h0 = live_taps h" "live_rules h0 = live_rules h"
  shows "equipped ((tap_index (sys_vms s) ts)(InMap u := None))
    (snd (run_state (teardown_network E (entry_resources e)) h0))"
proof -
  note r = entry_facts [OF e]
  obtain i where i: "vr_subnet_index (entry_resources e) = Some i" using r(1) by (auto simp: res_ok_def)
  have f: "tap_index (sys_vms s) ts (InMap u) = Some i" using e(3) i by simp
  from equipped_live [OF eq f] h0 have "tap_name i \<in> live_taps h0" by simp
  from teardown_net [OF tidy r i this] h0 equipped_drop [OF eq f] show ?thesis by simp
qed

lemma equipped_Reserving:
  assumes inv: "inv False s" and t: "tasks s t = Some (Reserving j a hs)" and tidy: "tidy_host E"
    and adv: "advance E (Reserving j a hs) (sys_world s) = (pc', w')"
    and eq: "equipped (tap_index (sys_vms s) (tasks s)) (hist (sys_world s))"
  shows "equipped (tap_index (st_vms (app w')) ((tasks s)(t \<mapsto> pc'))) (hist w')"
proof -
  let ?f = "tap_index (sys_vms s) (tasks s)" and ?h = "hist (sys_world s)"
  have a: "sub_tap_name a = tap_name (sub_index a)" "hm_get (sys_vms s) (j_id j) = None"
    using inv_facts(5) [OF inv t] by (auto simp: alloc_ok_def task_ok_def)
  have me: "?f (InTask t) = Some (sub_index a)" using t by simp
  from advance_Reserving [OF inv t adv] show ?thesis
  proof (elim disjE exE conjE, goal_cases)
    case (1 p)
    from rollback_network_view [OF tidy, of a "sys_world s" hs] equipped_live [OF eq me] a(1) 1
    have "live_taps (hist w') = live_taps ?h - {tap_name (sub_index a)}" "live_rules (hist w') = live_rules ?h - 2"
      by (simp_all add: host_view_def)
    from equipped_drop [OF eq me this] 1 show ?case by (simp add: tap_index_task sys_vms_def)
  next
    case 2
    let ?e = "Creating (new_resources E (jailer s) (j_id j) (j_vcpus j) (j_memory_mb j) (j_keys j) a hs)"
    have "hm_get (st_vms (app w')) = (hm_get (sys_vms s))(j_id j := Some ?e)" using 2 by (simp add: hmap)
    moreover have "?f (InMap (j_id j)) = None" using a(2) by simp
    ultimately show ?case
      using equipped_move [OF eq me, of "InMap (j_id j)" "hist w'"] 2
      by (simp add: tap_index_task tap_index_map [of _ "sys_vms s"] new_resources_def fun_upd_twist)
  qed
qed

lemma equipped_map_segment:
  assumes inv: "inv False s" and t: "tasks s t = Some pc" and adv: "advance E pc (sys_world s) = (pc', w')"
    and seg: "map_segment pc" and tidy: "tidy_host E" and mw: "all_wired E s"
    and eq: "equipped (tap_index (sys_vms s) (tasks s)) (hist (sys_world s))"
  shows "equipped (tap_index (st_vms (app w')) ((tasks s)(t \<mapsto> pc'))) (hist w')"
proof -
  let ?f = "tap_index (sys_vms s) (tasks s)" and ?h = "hist (sys_world s)"
  have idx: "tap_index vms' ((tasks s)(t \<mapsto> pc')) = ?f(InMap u := entry_index x, InTask t := pc_tap pc')"
    if "hm_get vms' = (hm_get (sys_vms s))(u := x)" for vms' u x
    by (simp add: tap_index_task tap_index_map [OF that])
  have me: "?f (InTask t) = pc_tap pc" using t by simp
  from seg consider (Reserving) j a hs where "pc = Reserving j a hs" | (Failing) j where "pc = Failing j"
    | (Upgrading) j a inst desc where "pc = Upgrading j a inst desc" | (Deleting) u where "pc = Deleting u"
    by (cases pc) auto
  then show ?thesis
  proof cases
    case (Reserving j a hs)
    with equipped_Reserving [OF inv _ tidy _ eq] t adv show ?thesis by blast
  next
    case (Failing j)
    from advance_Failing [OF inv t [unfolded Failing] adv [unfolded Failing]] obtain r where
      r: "hm_get (sys_vms s) (j_id j) = Some (Creating r)" "pc' = FailReleasing j r"
      "app w' = (app (sys_world s))\<lparr>st_vms := hm_remove (j_id j) (sys_vms s)\<rparr>"
      "hist w' = snd (run_state (teardown_network E r) ?h)" by blast
    from equipped_torn_down [OF tidy inv mw r(1) eq, of ?h] r(4)
    have "equipped (?f(InMap (j_id j) := None)) (hist w')" by simp
    then show ?thesis using idx [of "st_vms (app w')" "j_id j" None] r(2,3) me Failing by (simp add: hmap fun_upd_idem)
  next
    case (Upgrading j a inst desc)
    from advance_Upgrading [OF inv t [unfolded Upgrading] adv [unfolded Upgrading]] obtain r where
      r: "hm_get (sys_vms s) (j_id j) = Some (Creating r)" "pc' = Reporting j a inst desc True"
      "app w' = (app (sys_world s))\<lparr>st_vms := hm_insert (j_id j) (Running inst r) (hm_remove (j_id j) (sys_vms s))\<rparr>"
      "hist w' = ?h" by blast
    then have "?f(InMap (j_id j) := entry_index (Some (Running inst r)), InTask t := pc_tap pc') = ?f"
      using me Upgrading by (simp add: fun_upd_idem)
    with idx [of "st_vms (app w')" "j_id j" "Some (Running inst r)"] r(3,4) eq show ?thesis by (simp add: hmap)
  next
    case (Deleting u)
    from advance_Deleting [OF adv [unfolded Deleting]] show ?thesis
    proof (elim disjE exE conjE, goal_cases)
      case 1
      then have "tap_index (st_vms (app w')) ((tasks s)(t \<mapsto> pc')) = ?f"
        using idx [of "st_vms (app w')" u "hm_get (sys_vms s) u"] me Deleting by (simp add: fun_upd_idem)
      with 1 eq show ?case by simp
    next
      case (2 inst r)
      from entry_facts(1) [OF inv mw 2(1)] obtain i where i: "vr_subnet_index r = Some i" by (auto simp: res_ok_def)
      with 2 have "?f (InMap u) = Some i" by simp
      from equipped_move [OF eq this, of "InTask t" "hist w'"] me Deleting 2(4)
      have "equipped (?f(InMap u := None, InTask t \<mapsto> i)) (hist w')" by simp
      then show ?case using idx [of "st_vms (app w')" u None] 2(2,3) i by (simp add: hmap)
    qed
  qed
qed

text \<open>A delete takes its VM's device away once the instance has stopped.\<close>

lemma delete_stop_hist:
  "hist (snd (run_state (delete_stop E inst r) w)) =
   snd (run_state (teardown_network E r) (snd (run_state (stop_and_drop E inst) (hist w))))"
  by (simp add: delete_stop_def prims split: prod.split)

lemma equipped_Stopping:
  assumes inv: "inv False s" and t: "tasks s t = Some (Stopping u inst r)" and tidy: "tidy_host E"
    and adv: "advance E (Stopping u inst r) (sys_world s) = (pc', w')" and mw: "all_wired E s"
    and eq: "equipped (tap_index (sys_vms s) (tasks s)) (hist (sys_world s))"
  shows "equipped (tap_index (sys_vms s) ((tasks s)(t \<mapsto> pc'))) (hist w')"
proof -
  let ?h = "hist (sys_world s)"
  have "pc_wired E (jailer s) (Stopping u inst r)" using mw t unfolding all_wired_def by blast
  with inv_facts(6) [OF inv t] have r: "res_ok r" "wired E (jailer s) u r" by simp_all
  obtain i where i: "vr_subnet_index r = Some i" using r(1) by (auto simp: res_ok_def)
  have me: "tap_index (sys_vms s) (tasks s) (InTask t) = Some i" using t i by simp
  obtain x h1 where x: "run_state (stop_and_drop E inst) ?h = (x, h1)" by (cases "run_state (stop_and_drop E inst) ?h")
  with neutral_view [OF appends_stop_and_drop, of E inst ?h]
  have v: "live_taps h1 = live_taps ?h" "live_rules h1 = live_rules ?h" by (simp_all add: host_view_def)
  from teardown_net [OF tidy r i, of h1] equipped_live [OF eq me] v
  have "live_taps (hist w') = live_taps ?h - {tap_name i}" "live_rules (hist w') = live_rules ?h - 2"
    using adv delete_stop_hist [of E inst r "sys_world s", unfolded x] by auto
  from equipped_drop [OF eq me this] adv show ?thesis by (auto simp: tap_index_task)
qed

text \<open>The network setup adds one, and the other segments change nothing.\<close>

lemma create_copy_hist:
  assumes "run_state (create_copy_rootfs E u) w = (r, w')"
  shows "hist w' = hist w @ [EvSpawnBlocking False] \<and> (\<exists>e. r = Inl e)
    \<or> (\<exists>q. run_state (copy_rootfs E (jc_copy_strategy (st_jailer (app w))) (jc_rootfs_path (st_jailer (app w)))
          (vm_rootfs_path E (st_jailer (app w)) u) JAILER_UID JAILER_GID) (hist w @ [EvSpawnBlocking True]) = (q, hist w')
        \<and> (r = Inr () \<longleftrightarrow> q = Inr ()))"
  using assms
  by (auto simp: create_copy_rootfs_def prims spawn_blocking_def split: prod.splits option.splits sum.splits if_splits)

lemma spawn_event [simp]:
  "live_taps (h @ [EvSpawnBlocking b]) = live_taps h" "live_rules (h @ [EvSpawnBlocking b]) = live_rules h"
  "live_copies (h @ [EvSpawnBlocking b]) = live_copies h"
  by (simp_all add: live_taps_def live_rules_def live_copies_def tap_step_def rule_step_def copy_step_def)

lemma create_copy_net:
  assumes "run_state (create_copy_rootfs E u) w = (r, w')"
  shows "live_taps (hist w') = live_taps (hist w) \<and> live_rules (hist w') = live_rules (hist w)"
  using create_copy_hist [OF assms] copy_rootfs_view by (elim disjE conjE exE) (simp, fastforce)

lemma equipped_Networking:
  assumes inv: "inv False s" and t: "tasks s t = Some (Networking j a)" and tidy: "tidy_host E"
    and join: "env_spawn_blocking E (hist (sys_world s))"
    and adv: "advance E (Networking j a) (sys_world s) = (pc', w')"
    and eq: "equipped (tap_index (sys_vms s) (tasks s)) (hist (sys_world s))"
  shows "equipped (tap_index (sys_vms s) ((tasks s)(t \<mapsto> pc'))) (hist w')"
proof -
  let ?f = "tap_index (sys_vms s) (tasks s)" and ?i = "sub_index a"
  have me: "?f (InTask t) = None" using t by simp
  have fresh: "?f k \<noteq> Some ?i" for k
  proof
    assume k: "?f k = Some ?i"
    from own_okD(2) [OF inv_facts(4) [OF inv t] tap_index_owned [OF k], of "InTask t"] inv_facts(7) [OF inv t]
    have "k = InTask t" by simp
    with k me show False by simp
  qed
  have tap: "sub_tap_name a = tap_name ?i" using inv_facts(6) [OF inv t] by (simp add: alloc_ok_def)
  obtain r w1 where r: "run_state (create_network E a) (sys_world s) = (r, w1)" by fastforce
  from create_network_view [OF tidy join _ r] equipped_fresh [OF eq fresh] tap
  consider (failed) e where "r = Some (Inl e)" "host_view (hist w1) = host_view (hist (sys_world s))"
    | (ready) hs where "r = Some (Inr hs)" "live_taps (hist w1) = insert (tap_name ?i) (live_taps (hist (sys_world s)))"
        "live_rules (hist w1) = live_rules (hist (sys_world s)) + 2"
    by (auto simp: host_view_def)
  then show ?thesis
  proof cases
    case failed
    from failed adv r have "pc' = Unwinding j a e" "w' = w1" by simp_all
    moreover from this me have "?f(InTask t := pc_tap pc') = ?f" by (simp add: fun_upd_idem)
    ultimately show ?thesis
      using failed(2) equipped_same [OF eq, of "hist w1"] by (simp add: tap_index_task host_view_def)
  next
    case (ready hs)
    from ready(1) adv r have "pc' = Reserving j a hs" "w' = w1" by simp_all
    with equipped_add [OF eq me fresh ready(2,3)] show ?thesis by (simp add: tap_index_task)
  qed
qed

lemma unmoved_world: "unmoved m \<Longrightarrow> live_taps (hist (snd (run_state m w))) = live_taps (hist w)
    \<and> live_rules (hist (snd (run_state m w))) = live_rules (hist w)"
  by (simp add: unmoved_def host_view_def)

text \<open>The segments that make or remove a device outside the map.\<close>

fun net_segment :: "pc \<Rightarrow> bool" where
  "net_segment (Networking _ _) = True"
| "net_segment (Stopping _ _ _) = True"
| "net_segment (DetachedNetwork _) = True"
| "net_segment _ = False"

lemma advance_net_kept:
  assumes "\<not> map_segment pc" and "\<not> net_segment pc" and "pc_ok pc" and "pool_ok (st_pool (app w))"
    and adv: "advance E pc w = (pc', w')"
  shows "live_taps (hist w') = live_taps (hist w) \<and> live_rules (hist w') = live_rules (hist w)
    \<and> pc_tap pc' = None \<and> pc_tap pc = None"
proof (cases pc)
  case (Copying j)
  obtain r w1 where r: "run_state (create_copy_rootfs E (j_id j)) w = (r, w1)" by fastforce
  from create_copy_net [OF r] adv r Copying show ?thesis by (cases r) auto
next
  case (Allocating j)
  obtain r w1 where r: "run_state create_alloc w = (r, w1)" by fastforce
  from unmoved_net [OF unmoved_handlers(3) r] adv r Allocating show ?thesis by (cases r) auto
next
  case (Unwinding j a e)
  obtain r w1 where r: "run_state (create_unwind a e) w = (r, w1)" by fastforce
  from unmoved_net [OF unmoved_handlers(4) r] adv r Unwinding show ?thesis by (cases r) auto
next
  case (SettingUp j a)
  obtain r w1 where r: "run_state (create_setup E (j_id j) (j_vcpus j) (j_memory_mb j) a) w = (r, w1)" by fastforce
  from unmoved_net [OF unmoved_handlers(5) r] adv r SettingUp show ?thesis by (cases r) auto
next
  case (FailReleasing j r)
  with assms(3) release_finishes [OF _ assms(4), of r E] adv release_net [of E r w] show ?thesis
    by (auto split: prod.splits)
next
  case (Reporting j a inst desc b)
  with adv unmoved_world [OF unmoved_create_finish, of E "j_id j" "j_vcpus j" "j_memory_mb j" a inst desc b w]
  show ?thesis by auto
next
  case (DetachedCopy j)
  obtain r w1 where r: "run_state (create_copy_rootfs E (j_id j)) w = (r, w1)" by fastforce
  from create_copy_net [OF r] adv r DetachedCopy show ?thesis by simp
next
  case (DeleteReleasing u r)
  with adv delete_finish_net [of E u r w] show ?thesis by (auto split: prod.splits outcome.splits)
qed (use assms in auto)

lemma equipped_work:
  assumes inv: "inv False s" and t: "tasks s t = Some pc" and adv: "advance E pc (sys_world s) = (pc', w')"
    and tidy: "tidy_host E" and join: "env_spawn_blocking E (hist (sys_world s))" and mw: "all_wired E s"
    and waits: "\<And>a. pc \<noteq> DetachedNetwork a"
    and eq: "equipped (tap_index (sys_vms s) (tasks s)) (hist (sys_world s))"
  shows "equipped (tap_index (st_vms (app w')) ((tasks s)(t \<mapsto> pc'))) (hist w')"
proof (cases "map_segment pc")
  case True
  show ?thesis by (rule equipped_map_segment [OF inv t adv True tidy mw eq])
next
  case False
  have ok: "pool_ok (st_pool (app (sys_world s)))" using inv_facts(2) [OF inv t] by (simp add: sys_pool_def)
  have vms: "st_vms (app w') = sys_vms s"
    using advance_kept [OF False inv_facts(6) [OF inv t] ok adv] by (simp add: map_kept_def sys_vms_def)
  show ?thesis
  proof (cases "net_segment pc")
    case True
    with waits consider (Networking) j a where "pc = Networking j a" | (Stopping) u inst r where "pc = Stopping u inst r"
      by (cases pc) auto
    then show ?thesis
    proof cases
      case (Networking j a)
      from equipped_Networking [OF inv t [unfolded Networking] tidy join adv [unfolded Networking] eq] vms
      show ?thesis by simp
    next
      case (Stopping u inst r)
      from equipped_Stopping [OF inv t [unfolded Stopping] tidy adv [unfolded Stopping] mw eq] vms
      show ?thesis by simp
    qed
  next
    case noNet: False
    from advance_net_kept [OF False noNet inv_facts(6) [OF inv t] ok adv] eq t vms show ?thesis
      by (simp add: tap_index_task fun_upd_idem equipped_def)
  qed
qed


text \<open>
  Nobody abandons a request, and nobody but this program touches its devices, rules and copies.
\<close>

definition quiet :: "label \<Rightarrow> bool" where
  "quiet l = (case l of Abandon _ \<Rightarrow> False | Other es \<Rightarrow> list_all ledger_neutral es | _ \<Rightarrow> True)"

lemma quiet_not_abandon: "quiet l \<Longrightarrow> \<not> is_abandon l"
  by (simp add: quiet_def is_abandon_def split: label.splits)

lemma neutral_events:
  assumes "list_all ledger_neutral es"
  shows "host_view (h @ es) = host_view h"
proof -
  have "ledger tap_step s es = s" "ledger rule_step n es = n" "ledger copy_step f es = f" for s n f
    using assms by (auto intro!: ledger_ignored [where P = ledger_neutral] simp: ledger_neutral_def list_all_iff)
  then show ?thesis by (simp add: host_view_def live_taps_def live_rules_def live_copies_def)
qed

abbreviation sys_equipped :: "system \<Rightarrow> bool" where
  "sys_equipped s \<equiv> equipped (tap_index (sys_vms s) (tasks s)) (hist (sys_world s))"

lemma equipped_view:
  "sys_equipped s \<Longrightarrow> host_view h = host_view (hist (sys_world s)) \<Longrightarrow>
   equipped (tap_index (sys_vms s) (tasks s)) h"
  by (simp add: equipped_def host_view_def)

text \<open>Then every blocking call is waited for.\<close>

definition waited :: "pc \<Rightarrow> bool" where
  "waited pc \<longleftrightarrow> (\<forall>j. pc \<noteq> DetachedCopy j) \<and> (\<forall>a. pc \<noteq> DetachedNetwork a)"

lemma waited_simps [simp]:
  "waited (Copying j)" "waited (Deleting u)" "waited Done" "\<not> waited (DetachedCopy j)" "\<not> waited (DetachedNetwork a)"
  by (simp_all add: waited_def)

lemma advance_waited: "advance E pc w = (pc', w') \<Longrightarrow> waited pc'"
  by (cases pc) (auto simp: waited_def split: prod.splits sum.splits option.splits outcome.splits)

lemma step_waited:
  assumes "sys_step E s l s'" and "\<not> is_abandon l" and "\<forall>t pc. tasks s t = Some pc \<longrightarrow> waited pc"
  shows "\<forall>t pc. tasks s' t = Some pc \<longrightarrow> waited pc"
  using assms by (cases rule: sys_step.cases) (auto simp: is_abandon_def dest: advance_waited)

lemma reachable_waited:
  assumes "reachable E allowed s" and "\<And>l. allowed l \<Longrightarrow> \<not> is_abandon l" and "tasks s t = Some pc"
  shows "waited pc"
proof -
  from assms(1) have "\<forall>t pc. tasks s t = Some pc \<longrightarrow> waited pc"
  proof (induction rule: reachable.induct)
    case (start h cap jc gw)
    then show ?case by (simp add: initial_def)
  next
    case (step s l s')
    with step_waited assms(2) show ?case by blast
  qed
  with assms(3) show ?thesis by blast
qed

lemma step_equipped:
  assumes "sys_step E s l s'" and "quiet l" and "inv False s" and "all_wired E s" and "tidy_host E"
    and "\<And>h. env_spawn_blocking E h" and "\<And>t pc. tasks s t = Some pc \<Longrightarrow> waited pc" and "sys_equipped s"
  shows "sys_equipped s'"
  using assms
proof (induction rule: sys_step.cases)
  case (create_request req v m s t u)
  then have "tap_index (sys_vms s) (tasks s) (InTask t) = None" by simp
  with create_request show ?case by (simp add: tap_index_task fun_upd_idem sys_vms_def)
next
  case (delete_request s t u)
  then have "tap_index (sys_vms s) (tasks s) (InTask t) = None" by simp
  with delete_request show ?case by (simp add: tap_index_task fun_upd_idem sys_vms_def)
next
  case (work s t pc pc' w')
  then have "waited pc" by blast
  then have "pc \<noteq> DetachedNetwork a" for a by auto
  with work equipped_work [of s t pc E pc' w'] show ?case by (simp add: sys_vms_def)
next
  case (abandon s t pc vms_free pool_free)
  then show ?case by (simp add: quiet_def)
next
  case (detach s t pc pc')
  then show ?case by (simp add: quiet_def)
next
  case (list_query s)
  have "host_view (hist (snd (run_state (list_vms E) (sys_world s)))) = host_view (hist (sys_world s))"
    using unmoved_handlers(1) [of E] by (simp add: unmoved_def)
  with list_query equipped_view app_kept_handlers(1) [of E] show ?case by (simp add: sys_vms_def app_kept_def)
next
  case (get_query s u)
  have "host_view (hist (snd (run_state (get_vm E u) (sys_world s)))) = host_view (hist (sys_world s))"
    using unmoved_handlers(2) [of E u] by (simp add: unmoved_def)
  with get_query equipped_view app_kept_handlers(2) [of E u] show ?case by (simp add: sys_vms_def app_kept_def)
next
  case (elapse s es)
  then have "host_view (hist (sys_world s) @ es) = host_view (hist (sys_world s))"
    by (intro neutral_events) (simp add: quiet_def)
  with elapse equipped_view show ?case by (simp add: sys_vms_def)
qed

lemma reachable_equipped:
  assumes "reachable E quiet s" and "tidy_host E" and "\<And>h. env_spawn_blocking E h"
  shows "sys_equipped s"
  using assms(1)
proof (induction rule: reachable.induct)
  case (start h cap jc gw)
  have "tap_index [] (\<lambda>_. None) k = None" for k by (cases k) simp_all
  with start have "equipped (tap_index [] (\<lambda>_. None)) h"
    by (auto simp: equipped_def own_ok_def host_view_def intro!: exI [of _ "{}"])
  then show ?case by (simp add: initial_def create_app_def sys_vms_def)
next
  case (step s l s')
  show ?case
    by (rule step_equipped [OF step(2,3) reachable_inv [OF step(1)] reachable_wired [OF step(1)] assms(2,3) _ step.IH])
      (rule reachable_waited [OF step(1) quiet_not_abandon])
qed

lemma tap_index_ran:
  assumes inv: "inv False s"
  shows "{tap_name i |i. \<exists>h. tap_index (sys_vms s) (tasks s) h = Some i} =
    {n. \<exists>u e. hm_get (sys_vms s) u = Some e \<and> vr_tap_name (entry_resources e) = Some n}
    \<union> {sub_tap_name a |a t j hs. tasks s t = Some (Reserving j a hs)}
    \<union> {n. \<exists>t u inst r. tasks s t = Some (Stopping u inst r) \<and> vr_tap_name r = Some n}" (is "?L = ?R")
proof (rule set_eqI)
  fix n
  have map: "(\<exists>i. n = tap_name i \<and> tap_index (sys_vms s) (tasks s) (InMap u) = Some i) \<longleftrightarrow>
      (\<exists>e. hm_get (sys_vms s) u = Some e \<and> vr_tap_name (entry_resources e) = Some n)" for u
  proof (cases "hm_get (sys_vms s) u")
    case (Some e)
    with inv have "res_ok (entry_resources e)" unfolding inv_def entries_ok_def by blast
    with Some show ?thesis by (auto simp: res_ok_def)
  qed simp
  have task: "(\<exists>i. n = tap_name i \<and> tap_index (sys_vms s) (tasks s) (InTask t) = Some i) \<longleftrightarrow>
      (\<exists>j a hs. tasks s t = Some (Reserving j a hs) \<and> n = sub_tap_name a)
      \<or> (\<exists>u inst r. tasks s t = Some (Stopping u inst r) \<and> vr_tap_name r = Some n)" for t
  proof (cases "tasks s t")
    case (Some pc)
    with inv_facts(6) [OF inv Some] show ?thesis by (cases pc) (auto simp: alloc_ok_def res_ok_def)
  qed simp
  have "n \<in> ?L \<longleftrightarrow> (\<exists>u i. n = tap_name i \<and> tap_index (sys_vms s) (tasks s) (InMap u) = Some i)
      \<or> (\<exists>t i. n = tap_name i \<and> tap_index (sys_vms s) (tasks s) (InTask t) = Some i)"
    using holder.exhaust by (auto simp del: tap_index.simps) metis
  then show "n \<in> ?L \<longleftrightarrow> n \<in> ?R" unfolding map task by blast
qed

lemma taps_owned:
  assumes "tidy_host E" and "\<And>h. env_spawn_blocking E h" and "reachable E quiet s"
  shows "live_taps (hist (sys_world s)) =
      {n. \<exists>u e. hm_get (sys_vms s) u = Some e \<and> vr_tap_name (entry_resources e) = Some n}
      \<union> {sub_tap_name a |a t j hs. tasks s t = Some (Reserving j a hs)}
      \<union> {n. \<exists>t u inst r. tasks s t = Some (Stopping u inst r) \<and> vr_tap_name r = Some n}
    \<and> live_rules (hist (sys_world s)) = 2 * int (card (live_taps (hist (sys_world s))))"
proof -
  from reachable_equipped [OF assms(3,1,2)] obtain U where
    U: "own_ok True (tap_index (sys_vms s) (tasks s)) U" "live_taps (hist (sys_world s)) = tap_name ` U"
      "live_rules (hist (sys_world s)) = 2 * int (card U)"
    unfolding equipped_def by blast
  have "U = {i. \<exists>h. tap_index (sys_vms s) (tasks s) h = Some i}"
    using own_okD(1,3) [OF U(1)] by blast
  then have "tap_name ` U = {tap_name i |i. \<exists>h. tap_index (sys_vms s) (tasks s) h = Some i}" by blast
  moreover have "card (tap_name ` U) = card U" by (rule card_image [OF inj_on_subset [OF tap_name_inj subset_UNIV]])
  ultimately show ?thesis using U tap_index_ran [OF reachable_inv [OF assms(3)]] by simp
qed


lemma reachable_mono: "reachable E A s \<Longrightarrow> (\<And>l. A l \<Longrightarrow> B l) \<Longrightarrow> reachable E B s"
  by (induction rule: reachable.induct) (auto intro: start step)

lemma calm_quiet:
  "\<exists>s i1 r1 i2 r2. reachable calm_env quiet s \<and> tasks s = [0 \<mapsto> Done, 1 \<mapsto> Done]
    \<and> hm_get (sys_vms s) = [5 \<mapsto> Running i1 r1, 6 \<mapsto> Running i2 r2]"
proof -
  have "quiet (Request t)" "quiet (Work t)" for t by (simp_all add: quiet_def)
  from calm_two_vms_for [of quiet, OF this] show ?thesis by blast
qed


end
