(* ===== verification/Host_Disks.thy ===== *)
theory Host_Disks
  imports Host_Resources
begin

text \<open>
  The copies of the root file system, in every state the concurrent server can reach: the copy
  of every VM in the map, and of every create that has made its own, is on disk. Unlike the
  devices, this survives abandoned requests and a host on which any command may fail.
\<close>

section \<open>Disks\<close>

text \<open>
  \<open>Uuid\<close>'s \<open>Display\<close>: different ids print differently, in hexadecimal digits and hyphens.
\<close>

definition uuid_text :: "env \<Rightarrow> bool" where
  "uuid_text E \<longleftrightarrow> inj (env_uuid_to_string E) \<and> (\<forall>u. CHR ''/'' \<notin> set (env_uuid_to_string E u))"

lemma not_absolute: "CHR ''/'' \<notin> set s \<Longrightarrow> \<not> is_absolute (s @ ''.ext4'')"
  by (cases s) (auto simp: is_absolute_def)

lemma rootfs_path_inj:
  assumes "uuid_text E" and "vm_rootfs_path E jc u = vm_rootfs_path E jc u'"
  shows "u = u'"
proof -
  have "\<not> is_absolute (env_uuid_to_string E v @ ''.ext4'')" for v
    using assms(1) by (intro not_absolute) (simp add: uuid_text_def)
  with assms(2) have "env_uuid_to_string E u = env_uuid_to_string E u'"
    by (auto simp: vm_rootfs_path_def path_join_def split: if_splits)
  with assms(1) show ?thesis by (simp add: uuid_text_def inj_eq)
qed

text \<open>Which copies an operation can take away, whatever the host answers.\<close>

lemma teardown_keeps_copies: "live_copies (snd (run_state (teardown_network E r) h)) = live_copies h"
proof -
  obtain u h1 where d: "run_state (case vr_tap_name r of None \<Rightarrow> ret () | Some n \<Rightarrow> delete_tap E n) h = (u, h1)"
    by (cases "run_state (case vr_tap_name r of None \<Rightarrow> ret () | Some n \<Rightarrow> delete_tap E n) h")
  have "live_copies h1 = live_copies h"
    using d network_keeps_copies(2) [of E "the (vr_tap_name r)" h] by (cases "vr_tap_name r") simp_all
  then show ?thesis
    using d network_keeps_copies(4) [of E _ h1] by (cases "vr_nat_handles r") (simp_all add: teardown_network_def)
qed

lemma rollback_keeps_copies: "live_copies (hist (snd (run_state (rollback_network E a hs) w))) = live_copies (hist w)"
  by (simp add: rollback_network_def prims network_keeps_copies split: option.split)

lemma setup_network_keeps_copies: "live_copies (snd (run_state (setup_network E n ta ga iface) h)) = live_copies h"
proof -
  obtain r1 h1 where c1: "run_state (create_tap E n ta) h = (r1, h1)" by fastforce
  obtain r2 h2 where c2: "run_state (add_nat_rules E ga n iface) h1 = (r2, h2)" by fastforce
  obtain u h3 where c3: "run_state (delete_tap E n) h2 = (u, h3)" by (cases "run_state (delete_tap E n) h2")
  have "live_copies h1 = live_copies h" using network_keeps_copies(1) [of E n ta h] c1 by simp
  moreover have "live_copies h2 = live_copies h1" using network_keeps_copies(3) [of E ga n iface h1] c2 by simp
  moreover have "live_copies h3 = live_copies h2" using network_keeps_copies(2) [of E n h2] c3 by simp
  ultimately show ?thesis using c1 c2 c3 by (cases r1; cases r2) (simp_all add: setup_network_def)
qed

lemma create_network_keeps_copies:
  "run_state (create_network E a) w = (r, w') \<Longrightarrow> live_copies (hist w') = live_copies (hist w)"
  using setup_network_keeps_copies
  by (auto simp: create_network_def prims spawn_blocking_def split: prod.splits if_splits) (metis snd_conv spawn_event(3))+

lemma release_copies:
  "live_copies (hist w) - set_option (vr_rootfs_copy r) \<subseteq> live_copies (hist (snd (run_state (release_resources E r) w)))"
  by (auto simp: release_resources_def prims live_copies_cleanup split: option.split outcome.split)

lemma unmoved_copies:
  "unmoved m \<Longrightarrow> live_copies (hist (snd (run_state m w))) = live_copies (hist w)"
  by (simp add: unmoved_def host_view_def)

lemma delete_finish_copies:
  "live_copies (hist w) - set_option (vr_rootfs_copy r) \<subseteq> live_copies (hist (snd (run_state (delete_finish E u r) w)))"
proof -
  obtain q w1 where q: "run_state (release_resources E r) w = (q, w1)" by fastforce
  obtain x w2 where d: "run_state (deregister_vm E u) w1 = (x, w2)" by (cases "run_state (deregister_vm E u) w1")
  from release_copies [of w r E] q unmoved_copies [OF unmoved_handlers(8), of E u w1] d show ?thesis
    by (cases q) (simp_all add: delete_finish_def)
qed

fun pc_drops :: "pc \<Rightarrow> string set" where
  "pc_drops (FailReleasing _ r) = set_option (vr_rootfs_copy r)"
| "pc_drops (DeleteReleasing _ r) = set_option (vr_rootfs_copy r)"
| "pc_drops _ = {}"

lemma create_copy_grows:
  assumes "run_state (create_copy_rootfs E u) w = (r, w')"
  shows "live_copies (hist w) \<subseteq> live_copies (hist w')"
  using create_copy_hist [OF assms] copy_rootfs_view by (elim disjE conjE exE) (simp, fastforce)

lemma advance_copies:
  assumes inv: "inv False s" and t: "tasks s t = Some pc" and adv: "advance E pc (sys_world s) = (pc', w')"
  shows "live_copies (hist (sys_world s)) - pc_drops pc \<subseteq> live_copies (hist w')"
proof -
  let ?w = "sys_world s"
  have ok: "pool_ok (st_pool (app ?w))" using inv_facts(2) [OF inv t] by (simp add: sys_pool_def)
  have same: ?thesis if "live_copies (hist w') = live_copies (hist ?w)" using that by blast
  show ?thesis
  proof (cases pc)
    case (Copying j)
    obtain r w1 where r: "run_state (create_copy_rootfs E (j_id j)) ?w = (r, w1)" by fastforce
    from create_copy_grows [OF r] adv r Copying show ?thesis by (cases r) auto
  next
    case (Allocating j)
    obtain r w1 where r: "run_state create_alloc ?w = (r, w1)" by fastforce
    from unmoved_copies [OF unmoved_handlers(3), of ?w] adv r Allocating same show ?thesis by (cases r) auto
  next
    case (Networking j a)
    obtain r w1 where r: "run_state (create_network E a) ?w = (r, w1)" by fastforce
    from create_network_keeps_copies [OF r] adv r Networking same show ?thesis
      by (cases r; cases "the r") auto
  next
    case (Unwinding j a e)
    obtain r w1 where r: "run_state (create_unwind a e) ?w = (r, w1)" by fastforce
    from unmoved_copies [OF unmoved_handlers(4), of a e ?w] adv r Unwinding same show ?thesis by (cases r) auto
  next
    case (Reserving j a hs)
    from advance_Reserving [OF inv t [unfolded Reserving] adv [unfolded Reserving]] show ?thesis
      by (elim disjE exE conjE) (simp_all add: rollback_keeps_copies)
  next
    case (SettingUp j a)
    obtain r w1 where r: "run_state (create_setup E (j_id j) (j_vcpus j) (j_memory_mb j) a) ?w = (r, w1)" by fastforce
    from unmoved_copies [OF unmoved_handlers(5), of E "j_id j" "j_vcpus j" "j_memory_mb j" a ?w] adv r SettingUp same
    show ?thesis by (cases r) auto
  next
    case (Failing j)
    from advance_Failing [OF inv t [unfolded Failing] adv [unfolded Failing]] show ?thesis
      by (elim exE conjE) (simp add: teardown_keeps_copies)
  next
    case (FailReleasing j r)
    have "res_ok r" using inv_facts(6) [OF inv t] FailReleasing by simp
    from release_finishes [OF this ok, of E] release_copies [of ?w r E] adv FailReleasing show ?thesis
      by (auto split: prod.splits)
  next
    case (Upgrading j a inst desc)
    from advance_Upgrading [OF inv t [unfolded Upgrading] adv [unfolded Upgrading]] show ?thesis
      by (elim exE conjE) simp
  next
    case (Reporting j a inst desc b)
    with adv unmoved_copies [OF unmoved_create_finish, of E "j_id j" "j_vcpus j" "j_memory_mb j" a inst desc b ?w]
    show ?thesis by auto
  next
    case (Deleting u)
    from advance_Deleting [OF adv [unfolded Deleting]] show ?thesis by (elim disjE exE conjE) simp_all
  next
    case (Stopping u inst r)
    have "live_copies (snd (run_state (stop_and_drop E inst) (hist ?w))) = live_copies (hist ?w)"
      using neutral_view [OF appends_stop_and_drop, of E inst "hist ?w"] by (simp add: host_view_def)
    with delete_stop_hist [of E inst r ?w] adv Stopping show ?thesis by (auto simp: teardown_keeps_copies)
  next
    case (DetachedCopy j)
    obtain r w1 where r: "run_state (create_copy_rootfs E (j_id j)) ?w = (r, w1)" by fastforce
    from create_copy_grows [OF r] adv r DetachedCopy show ?thesis by auto
  next
    case (DetachedNetwork a)
    obtain r w1 where r: "run_state (create_network E a) ?w = (r, w1)" by fastforce
    from create_network_keeps_copies [OF r] adv r DetachedNetwork same show ?thesis by simp
  next
    case (DeleteReleasing u r)
    with adv delete_finish_copies [of ?w r E u] show ?thesis by (auto split: prod.splits outcome.splits)
  qed (use adv in auto)
qed

lemma copying_makes_copy:
  assumes "advance E (Copying j) w = (Allocating j', w')"
  shows "j' = j \<and> vm_rootfs_path E (st_jailer (app w)) (j_id j) \<in> live_copies (hist w')"
proof -
  obtain r w1 where r: "run_state (create_copy_rootfs E (j_id j)) w = (r, w1)" by fastforce
  with assms have "r = Inr ()" "j' = j" "w1 = w'" by (cases r; simp)+
  with create_copy_hist [OF r] copy_rootfs_view show ?thesis by fastforce
qed

lemma drop_copies:
  assumes wired: "map_wired E (app w)"
  shows "live_copies (hist w) \<subseteq> live_copies (hist (drop_task E vms_free pool_free pc w))
    \<or> (\<exists>u. guarded pc = Some u \<and> hm_get (st_vms (app (drop_task E vms_free pool_free pc w))) u = None
        \<and> live_copies (hist w) - {vm_rootfs_path E (st_jailer (app w)) u}
            \<subseteq> live_copies (hist (drop_task E vms_free pool_free pc w)))"
proof -
  define w1 where "w1 = snd (run_state (case local_instance pc of None \<Rightarrow> ret ()
    | Some inst \<Rightarrow> lift_io (drop_instance inst)) w)"
  have w1: "app w1 = app w" "live_copies (hist w1) = live_copies (hist w)"
    using neutral_view [OF appends_single(2)]
    by (auto simp: w1_def prims host_view_def split: option.split)
  have d: "drop_task E vms_free pool_free pc w = (case guarded pc of None \<Rightarrow> w1
      | Some u \<Rightarrow> snd (run_state (create_guard_drop E vms_free pool_free u) w1))"
    by (simp add: drop_task_def w1_def split: option.split prod.split)
  show ?thesis
  proof (cases "guarded pc")
    case None
    with d w1 show ?thesis by simp
  next
    case (Some u)
    let ?w2 = "snd (run_state (create_guard_drop E vms_free pool_free u) w1)"
    have "hm_get (st_vms (app ?w2)) u = None \<and> live_copies (hist w) - {vm_rootfs_path E (st_jailer (app w)) u} \<subseteq> live_copies (hist ?w2)
        \<or> live_copies (hist w) \<subseteq> live_copies (hist ?w2)"
    proof (cases "vms_free")
      case False
      with w1 show ?thesis by (simp add: create_guard_drop_def)
    next
      case True
      show ?thesis
      proof (cases "\<exists>r. hm_get (st_vms (app w)) u = Some (Creating r)")
        case False
        with True w1 neutral_view [OF appends_single(2)] show ?thesis
          by (auto simp: create_guard_drop_def prims host_view_def split: option.split vm_entry.split)
      next
        case creating: True
        then obtain r where r: "hm_get (st_vms (app w)) u = Some (Creating r)" by blast
        have p: "vr_rootfs_copy r = Some (vm_rootfs_path E (st_jailer (app w)) u)"
          using map_wiredD [OF wired r] by (simp add: wired_def)
        let ?h = "snd (run_state (teardown_network E r) (hist w1))"
        have "live_copies ?h = live_copies (hist w)" by (simp add: teardown_keeps_copies w1)
        with True w1 r p show ?thesis
          by (auto simp: create_guard_drop_def prims fs_remove_file_def hmap split: option.split)
      qed
    qed
    with d Some show ?thesis by auto
  qed
qed


text \<open>Whose copy must be there, and the deletes that are about to remove theirs.\<close>

fun has_disk :: "pc \<Rightarrow> bool" where
  "has_disk (Allocating _) = True"
| "has_disk (Networking _ _) = True"
| "has_disk (Unwinding _ _ _) = True"
| "has_disk (Reserving _ _ _) = True"
| "has_disk _ = False"

definition keeps_disk :: "system \<Rightarrow> uuid \<Rightarrow> bool" where
  "keeps_disk s u \<longleftrightarrow> hm_get (sys_vms s) u \<noteq> None
     \<or> (\<exists>t pc. tasks s t = Some pc \<and> has_disk pc \<and> pc_id pc = Some u)"

definition retired :: "system \<Rightarrow> uuid \<Rightarrow> bool" where
  "retired s u \<longleftrightarrow> u \<in> drawn s \<and> hm_get (sys_vms s) u = None
     \<and> (\<forall>t pc. tasks s t = Some pc \<longrightarrow> pc_id pc = Some u \<longrightarrow> \<not> placed pc \<and> \<not> absent pc)"

fun pc_deletes :: "pc \<Rightarrow> uuid option" where
  "pc_deletes (Stopping u _ _) = Some u"
| "pc_deletes (DeleteReleasing u _) = Some u"
| "pc_deletes _ = None"

definition deletes_retired :: "system \<Rightarrow> bool" where
  "deletes_retired s \<longleftrightarrow> (\<forall>t pc u. tasks s t = Some pc \<longrightarrow> pc_deletes pc = Some u \<longrightarrow> retired s u)"

lemma advance_deletes:
  "advance E pc w = (pc', w') \<Longrightarrow> pc_deletes pc' = Some u \<Longrightarrow>
   pc_deletes pc = Some u \<or> pc = Deleting u \<and> (\<exists>inst r. pc' = Stopping u inst r)"
  by (cases pc) (auto split: prod.splits sum.splits option.splits outcome.splits)

lemma has_disk_absent: "has_disk pc \<Longrightarrow> absent pc"
  by (cases pc) simp_all

lemma retired_no_disk: "retired s u \<Longrightarrow> \<not> keeps_disk s u"
  using has_disk_absent by (auto simp: retired_def keeps_disk_def)

lemma advance_id:
  "advance E pc w = (pc', w') \<Longrightarrow> pc_id pc' = Some u \<Longrightarrow> pc_id pc = Some u \<and> (finished pc \<or> placed pc \<or> absent pc)"
  by (cases pc) (auto split: prod.splits sum.splits option.splits outcome.splits)

lemma advance_disk:
  "advance E pc w = (pc', w') \<Longrightarrow> has_disk pc' \<Longrightarrow>
   has_disk pc \<and> pc_id pc' = pc_id pc \<or> (\<exists>j. pc = Copying j \<and> pc' = Allocating j)"
  by (cases pc) (auto split: prod.splits sum.splits option.splits outcome.splits)

lemma advance_map_new:
  assumes inv: "inv False s" and t: "tasks s t = Some pc" and adv: "advance E pc (sys_world s) = (pc', w')"
    and v: "hm_get (st_vms (app w')) v \<noteq> None"
  shows "hm_get (sys_vms s) v \<noteq> None \<or> has_disk pc \<and> pc_id pc = Some v"
proof (cases "map_segment pc")
  case False
  have "pool_ok (st_pool (app (sys_world s)))" using inv_facts(2) [OF inv t] by (simp add: sys_pool_def)
  from advance_kept [OF False inv_facts(6) [OF inv t] this adv] v show ?thesis by (simp add: map_kept_def sys_vms_def)
next
  case True
  then consider (Reserving) j a hs where "pc = Reserving j a hs" | (Failing) j where "pc = Failing j"
    | (Upgrading) j a inst desc where "pc = Upgrading j a inst desc" | (Deleting) u where "pc = Deleting u"
    by (cases pc) auto
  then show ?thesis
  proof cases
    case (Reserving j a hs)
    from advance_Reserving [OF inv t [unfolded Reserving] adv [unfolded Reserving]] v Reserving show ?thesis
      by (elim disjE exE conjE) (auto simp: hmap sys_vms_def split: if_splits)
  next
    case (Failing j)
    from advance_Failing [OF inv t [unfolded Failing] adv [unfolded Failing]] v show ?thesis
      by (elim exE conjE) (simp add: hmap split: if_splits)
  next
    case (Upgrading j a inst desc)
    from advance_Upgrading [OF inv t [unfolded Upgrading] adv [unfolded Upgrading]] v show ?thesis
      by (elim exE conjE) (auto simp: hmap split: if_splits)
  next
    case (Deleting u)
    from advance_Deleting [OF adv [unfolded Deleting]] v show ?thesis
      by (elim disjE exE conjE) (auto simp: hmap split: if_splits)
  qed
qed

lemma retired_work:
  assumes inv: "inv False s" and t: "tasks s t = Some pc" and fin: "\<not> finished pc"
    and adv: "advance E pc (sys_world s) = (pc', w')" and u: "retired s u"
  shows "retired (s\<lparr>sys_world := w', tasks := (tasks s)(t \<mapsto> pc'), vms_owner := o'\<rparr>) u"
proof -
  have pc: "pc_id pc \<noteq> Some u \<or> \<not> placed pc \<and> \<not> absent pc" using u t by (auto simp: retired_def)
  have "hm_get (st_vms (app w')) u = None"
  proof (rule ccontr)
    assume "hm_get (st_vms (app w')) u \<noteq> None"
    from advance_map_new [OF inv t adv this] u pc has_disk_absent [of pc] show False by (auto simp: retired_def)
  qed
  moreover have "pc_id pc' \<noteq> Some u" using advance_id [OF adv, of u] pc fin by blast
  ultimately show ?thesis using u by (simp add: retired_def sys_vms_def)
qed

lemma deletes_retired_work:
  assumes inv: "inv False s" and t: "tasks s t = Some pc" and fin: "\<not> finished pc"
    and adv: "advance E pc (sys_world s) = (pc', w')" and ret: "deletes_retired s"
  shows "deletes_retired (s\<lparr>sys_world := w', tasks := (tasks s)(t \<mapsto> pc'), vms_owner := o'\<rparr>)" (is "deletes_retired ?s'")
  unfolding deletes_retired_def
proof (intro allI impI)
  fix t' pc2 u
  assume t': "tasks ?s' t' = Some pc2" "pc_deletes pc2 = Some u"
  have old: "retired ?s' u" if "tasks s t2 = Some pc3" "pc_deletes pc3 = Some u" for t2 pc3
    using ret that retired_work [OF inv t fin adv, of u] unfolding deletes_retired_def by blast
  show "retired ?s' u"
  proof (cases "t' = t")
    case False
    with t' old show ?thesis by simp
  next
    case True
    with t' have pc': "pc2 = pc'" by simp
    from advance_deletes [OF adv, of u] t'(2) pc' consider (before) "pc_deletes pc = Some u"
      | (now) inst r where "pc = Deleting u" "pc' = Stopping u inst r" by blast
    then show ?thesis
    proof cases
      case before
      with old t show ?thesis by blast
    next
      case (now inst r)
      with advance_Deleting [of E u s pc' w'] adv have
        run: "hm_get (sys_vms s) u = Some (Running inst r)" and w': "st_vms (app w') = hm_remove u (sys_vms s)" by auto
      have "u \<in> drawn s" using inv_facts(8) [OF inv t] run unfolding entries_ok_def by blast
      moreover have "\<not> placed pc4 \<and> \<not> absent pc4" if "tasks s t2 = Some pc4" "pc_id pc4 = Some u" for t2 pc4
        using others_running [OF inv run that] .
      ultimately show ?thesis using w' now(2) by (simp add: retired_def sys_vms_def hmap)
    qed
  qed
qed

lemma deletes_retired_task:
  assumes "deletes_retired s" and ts: "tasks s' = (tasks s)(t \<mapsto> pc)" and "pc_deletes pc = None"
    and pc: "\<And>u. pc_id pc = Some u \<Longrightarrow> u \<notin> drawn s" and drawn: "drawn s \<subseteq> drawn s'"
    and vms: "\<And>u. hm_get (sys_vms s) u = None \<Longrightarrow> hm_get (sys_vms s') u = None"
  shows "deletes_retired s'"
  unfolding deletes_retired_def
proof (intro allI impI)
  fix t' pc' u
  assume "tasks s' t' = Some pc'" "pc_deletes pc' = Some u"
  with assms(1,3) ts have "retired s u" unfolding deletes_retired_def by (auto split: if_splits)
  with pc drawn vms show "retired s' u" unfolding retired_def ts by (auto split: if_splits)
qed

lemma step_retired:
  assumes "sys_step E s l s'" and "inv False s" and "deletes_retired s"
  shows "deletes_retired s'"
  using assms
proof (induction rule: sys_step.cases)
  case (create_request req v m s t u)
  then show ?case by (intro deletes_retired_task [of s s' t]) (auto simp: sys_vms_def)
next
  case (delete_request s t u)
  then show ?case by (intro deletes_retired_task [of s s' t]) (auto simp: sys_vms_def)
next
  case (work s t pc pc' w')
  with deletes_retired_work [of s t pc E pc' w'] show ?case by simp
next
  case (abandon s t pc vms_free pool_free)
  let ?w = "drop_task E vms_free pool_free pc (sys_world s)"
  have gone: "hm_get (st_vms (app ?w)) u = None" if "hm_get (sys_vms s) u = None" for u
    using drop_task_map [of E vms_free pool_free pc "sys_world s"] that by (auto simp: sys_vms_def hmap)
  show ?case
    by (rule deletes_retired_task [of s _ t Done]) (use abandon gone in \<open>simp_all add: sys_vms_def\<close>)
next
  case (detach s t pc pc')
  from \<open>detached pc = Some pc'\<close> have "pc_deletes pc' = None" "pc_id pc' = None" by (cases pc; auto)+
  with detach show ?case by (intro deletes_retired_task [of s s' t]) (auto simp: sys_vms_def)
next
  case (list_query s)
  with app_kept_handlers(1) [of E] show ?case by (simp add: deletes_retired_def retired_def sys_vms_def app_kept_def)
next
  case (get_query s u)
  with app_kept_handlers(2) [of E u] show ?case by (simp add: deletes_retired_def retired_def sys_vms_def app_kept_def)
next
  case (elapse s es)
  then show ?case by (simp add: deletes_retired_def retired_def sys_vms_def)
qed

lemma reachable_retired: "reachable E allowed s \<Longrightarrow> deletes_retired s"
proof (induction rule: reachable.induct)
  case (step s l s')
  with step_retired reachable_inv show ?case by blast
qed (simp add: deletes_retired_def initial_def)


definition stocked :: "env \<Rightarrow> system \<Rightarrow> bool" where
  "stocked E s \<longleftrightarrow>
     (\<forall>u. keeps_disk s u \<longrightarrow> vm_rootfs_path E (jailer s) u \<in> live_copies (hist (sys_world s)))"

lemma stockedD: "stocked E s \<Longrightarrow> keeps_disk s u \<Longrightarrow> vm_rootfs_path E (jailer s) u \<in> live_copies (hist (sys_world s))"
  unfolding stocked_def by blast

lemma guarded_no_disk:
  assumes inv: "inv False s" and t: "tasks s t = Some pc" "pc_id pc = Some u" "\<not> has_disk pc"
    and map: "hm_get (sys_vms s) u = None"
  shows "\<not> keeps_disk s u"
  using ids_uniqueD [OF inv_facts(9) [OF inv t(1)] t(1)] t map unfolding keeps_disk_def by fastforce

lemma drops_unkept:
  assumes inv: "inv False s" and wired: "all_wired E s" and ret: "deletes_retired s" and t: "tasks s t = Some pc"
    and p: "p \<in> pc_drops pc"
  shows "\<exists>u. p = vm_rootfs_path E (jailer s) u \<and> \<not> keeps_disk s u"
proof -
  have w: "pc_wired E (jailer s) pc" using wired t by (simp add: all_wired_def)
  from p consider (fail) j r where "pc = FailReleasing j r" "vr_rootfs_copy r = Some p"
    | (delete) u r where "pc = DeleteReleasing u r" "vr_rootfs_copy r = Some p"
    by (cases pc) auto
  then show ?thesis
  proof cases
    case (fail j r)
    have "hm_get (sys_vms s) (j_id j) = None" using inv_facts(5) [OF inv t] fail(1) by (simp add: task_ok_def)
    with guarded_no_disk [OF inv t] fail w show ?thesis by (auto simp: wired_def)
  next
    case (delete u r)
    then have "retired s u" using ret t unfolding deletes_retired_def by (metis pc_deletes.simps(2))
    with delete retired_no_disk [of s u] w show ?thesis by (auto simp: wired_def)
  qed
qed

lemma keeps_disk_work:
  assumes inv: "inv False s" and t: "tasks s t = Some pc" and adv: "advance E pc (sys_world s) = (pc', w')"
    and v: "keeps_disk (s\<lparr>sys_world := w', tasks := (tasks s)(t \<mapsto> pc'), vms_owner := o'\<rparr>) v"
  shows "keeps_disk s v \<or> (\<exists>j. pc = Copying j \<and> pc' = Allocating j \<and> v = j_id j)"
proof -
  from v consider (map) "hm_get (st_vms (app w')) v \<noteq> None"
    | (me) "has_disk pc'" "pc_id pc' = Some v"
    | (other) t' pc2 where "tasks s t' = Some pc2" "has_disk pc2" "pc_id pc2 = Some v"
    by (auto simp: keeps_disk_def sys_vms_def split: if_splits)
  then show ?thesis
  proof cases
    case map
    from advance_map_new [OF inv t adv this] t show ?thesis by (auto simp: keeps_disk_def)
  next
    case me
    from advance_disk [OF adv me(1)] show ?thesis
    proof (elim disjE exE conjE)
      assume "has_disk pc" "pc_id pc' = pc_id pc"
      with me(2) t have "keeps_disk s v" unfolding keeps_disk_def by metis
      then show ?thesis ..
    qed (use me(2) in auto)
  next
    case other
    then show ?thesis by (auto simp: keeps_disk_def)
  qed
qed

lemma stocked_work:
  assumes names: "uuid_text E" and inv: "inv False s" and wired: "all_wired E s" and ret: "deletes_retired s"
    and t: "tasks s t = Some pc" and adv: "advance E pc (sys_world s) = (pc', w')" and st: "stocked E s"
  shows "stocked E (s\<lparr>sys_world := w', tasks := (tasks s)(t \<mapsto> pc'), vms_owner := o'\<rparr>)" (is "stocked E ?s'")
  unfolding stocked_def
proof (intro allI impI)
  fix v
  assume v: "keeps_disk ?s' v"
  have jc: "jailer ?s' = jailer s"
    using advance_wired [OF inv t adv] wired t unfolding all_wired_def jailer_def by auto
  from keeps_disk_work [OF inv t adv v]
  have "vm_rootfs_path E (jailer s) v \<in> live_copies (hist w')"
  proof (elim disjE exE conjE)
    assume k: "keeps_disk s v"
    have "vm_rootfs_path E (jailer s) v \<notin> pc_drops pc"
    proof
      assume "vm_rootfs_path E (jailer s) v \<in> pc_drops pc"
      from drops_unkept [OF inv wired ret t this] rootfs_path_inj [OF names] k show False by blast
    qed
    with stockedD [OF st k] advance_copies [OF inv t adv] show ?thesis by blast
  next
    fix j
    assume "pc = Copying j" "pc' = Allocating j" "v = j_id j"
    with copying_makes_copy [of E j "sys_world s" j w'] adv show ?thesis by (simp add: jailer_def)
  qed
  then show "vm_rootfs_path E (jailer ?s') v \<in> live_copies (hist (sys_world ?s'))" unfolding jc by simp
qed

lemma stocked_abandon:
  assumes names: "uuid_text E" and inv: "inv False s" and wired: "all_wired E s"
    and t: "tasks s t = Some pc" and st: "stocked E s"
  shows "stocked E (s\<lparr>sys_world := drop_task E vf pf pc (sys_world s), tasks := (tasks s)(t \<mapsto> Done), vms_owner := o'\<rparr>)"
    (is "stocked E ?s'")
  unfolding stocked_def
proof (intro allI impI)
  fix v
  assume v: "keeps_disk ?s' v"
  let ?w = "drop_task E vf pf pc (sys_world s)"
  have jc: "jailer ?s' = jailer s" using drop_task_map [of E vf pf pc "sys_world s"] by (simp add: jailer_def)
  have new: "hm_get (st_vms (app ?w)) v \<noteq> None \<Longrightarrow> hm_get (sys_vms s) v \<noteq> None"
    using drop_task_map [of E vf pf pc "sys_world s"] by (auto simp: sys_vms_def hmap split: if_splits)
  with v have k: "keeps_disk s v" by (auto simp: keeps_disk_def sys_vms_def split: if_splits)
  from stockedD [OF st k] have p: "vm_rootfs_path E (jailer s) v \<in> live_copies (hist (sys_world s))" .
  have mw: "map_wired E (app (sys_world s))" using wired by (simp add: all_wired_def)
  from drop_copies [OF mw, of vf pf pc] have "vm_rootfs_path E (jailer s) v \<in> live_copies (hist ?w)"
  proof (elim disjE exE conjE)
    fix u
    assume u: "guarded pc = Some u" "hm_get (st_vms (app ?w)) u = None"
      "live_copies (hist (sys_world s)) - {vm_rootfs_path E (st_jailer (app (sys_world s))) u} \<subseteq> live_copies (hist ?w)"
    have "v \<noteq> u"
    proof
      assume "v = u"
      with v u(2) obtain t' pc2 where "t' \<noteq> t" "tasks s t' = Some pc2" "pc_id pc2 = Some u"
        by (auto simp: keeps_disk_def sys_vms_def split: if_splits)
      with ids_uniqueD [OF inv_facts(9) [OF inv t] t] guarded_cases [OF u(1)] show False by blast
    qed
    with rootfs_path_inj [OF names] have "vm_rootfs_path E (jailer s) v \<noteq> vm_rootfs_path E (jailer s) u" by blast
    with u(3) p show ?thesis by (auto simp: jailer_def)
  qed (use p in blast)
  then show "vm_rootfs_path E (jailer ?s') v \<in> live_copies (hist (sys_world ?s'))" unfolding jc by simp
qed

definition undisturbed :: "label \<Rightarrow> bool" where
  "undisturbed l = (case l of Other es \<Rightarrow> list_all ledger_neutral es | _ \<Rightarrow> True)"

lemma stocked_same:
  assumes "stocked E s" and "sys_vms s' = sys_vms s" and "jailer s' = jailer s"
    and "live_copies (hist (sys_world s')) = live_copies (hist (sys_world s))"
    and "\<And>t pc. tasks s' t = Some pc \<Longrightarrow> has_disk pc \<Longrightarrow> tasks s t = Some pc"
  shows "stocked E s'"
  using assms unfolding stocked_def keeps_disk_def by metis

lemma step_stocked:
  assumes "sys_step E s l s'" and "undisturbed l" and "uuid_text E" and "inv False s" and "all_wired E s"
    and "deletes_retired s" and "stocked E s"
  shows "stocked E s'"
  using assms
proof (induction rule: sys_step.cases)
  case (create_request req v m s t u)
  then show ?case
    by (intro stocked_same [of E s s']) (auto simp: sys_vms_def jailer_def split: if_splits)
next
  case (delete_request s t u)
  then show ?case
    by (intro stocked_same [of E s s']) (auto simp: sys_vms_def jailer_def split: if_splits)
next
  case (work s t pc pc' w')
  with stocked_work [of E s t pc pc' w'] show ?case by simp
next
  case (abandon s t pc vms_free pool_free)
  with stocked_abandon [where vf = vms_free and pf = pool_free] show ?case by simp
next
  case (detach s t pc pc')
  then have "\<not> has_disk pc'" by (cases pc) auto
  with detach show ?case by (intro stocked_same [of E s s']) (auto simp: sys_vms_def jailer_def split: if_splits)
next
  case (list_query s)
  with app_kept_handlers(1) [of E] unmoved_copies [OF unmoved_handlers(1), of E "sys_world s"] show ?case
    by (intro stocked_same [of E s s']) (simp_all add: sys_vms_def jailer_def app_kept_def)
next
  case (get_query s u)
  with app_kept_handlers(2) [of E u] unmoved_copies [OF unmoved_handlers(2), of E u "sys_world s"] show ?case
    by (intro stocked_same [of E s s']) (simp_all add: sys_vms_def jailer_def app_kept_def)
next
  case (elapse s es)
  with neutral_events [of es "hist (sys_world s)"] show ?case
    by (intro stocked_same [of E s s']) (simp_all add: sys_vms_def jailer_def undisturbed_def host_view_def)
qed

lemma reachable_stocked:
  assumes "reachable E undisturbed s" and "uuid_text E"
  shows "stocked E s"
  using assms(1)
proof (induction rule: reachable.induct)
  case (start h cap jc gw)
  then show ?case by (simp add: stocked_def keeps_disk_def initial_def sys_vms_def create_app_def)
next
  case (step s l s')
  note r = step(1)
  show ?case
    by (rule step_stocked [OF step(2,3) assms(2) reachable_inv [OF r] reachable_wired [OF r] reachable_retired [OF r] step.IH])
qed

text \<open>C13: No VM loses its disk: whatever requests are in flight, however they interleave, fail or are
  abandoned, and whatever the host answers, the copy of the root file system that an entry
  names is its own, named after its id, and has been made and not been removed.\<close>

theorem disks_kept:
  assumes "uuid_text E" and "reachable E undisturbed s" and "hm_get (sys_vms s) u = Some e"
  shows "vr_rootfs_copy (entry_resources e) = Some (vm_rootfs_path E (jailer s) u)
    \<and> vm_rootfs_path E (jailer s) u \<in> live_copies (hist (sys_world s))"
  using stockedD [OF reachable_stocked [OF assms(2,1)], of u] assms(3)
    entry_facts(2) [OF reachable_inv [OF assms(2)] reachable_wired [OF assms(2)] assms(3)]
  by (auto simp: keeps_disk_def wired_def)

lemma calm_uuid_text: "uuid_text calm_env"
proof -
  have "CHR ''/'' \<notin> set (show_nat n)" for n
    by (rule show_nat_no_char) (simp add: is_ascii_digit_def digit_val_def)
  then show ?thesis by (auto simp: uuid_text_def inj_def word_unat_eq_iff)
qed

theorem disks_kept_witness:
  "\<exists>s e. reachable calm_env undisturbed s \<and> hm_get (sys_vms s) 5 = Some e
    \<and> vm_rootfs_path calm_env (jailer s) 5 \<in> live_copies (hist (sys_world s))"
proof -
  have "quiet l \<Longrightarrow> undisturbed l" for l by (simp add: quiet_def undisturbed_def split: label.splits)
  moreover obtain s i1 r1 i2 r2 where s: "reachable calm_env quiet s"
    "hm_get (sys_vms s) = [5 \<mapsto> Running i1 r1, 6 \<mapsto> Running i2 r2]" using calm_quiet by blast
  ultimately have "reachable calm_env undisturbed s" using reachable_mono by blast
  moreover have "hm_get (sys_vms s) 5 = Some (Running i1 r1)" using s(2) by simp
  ultimately show ?thesis using disks_kept [OF calm_uuid_text] by blast
qed

end
