(* ===== verification/Orphan.thy ===== *)
theory Orphan
  imports Rootfs Fc_Network
begin

text \<open>
  \<open>src/firecracker/orphan.rs\<close> (the Linux versions): the clean sweep at startup, which kills
  stale Firecracker processes and removes stale workspaces, rootfs copies, tap devices,
  nftables rules and logs. Every step tells whether it found something; none can fail. A
  directory is read as the list of its file names; \<open>entry.path()\<close> joins them to the
  directory.
\<close>

section \<open>Processes\<close>

definition kill_orphaned_processes :: "env \<Rightarrow> bool io" where
  "kill_orphaned_processes E = do {
     let uid = show_nat JAILER_UID in do {
     term_result \<leftarrow> command_output E ''pkill'' [''-15'', ''-u'', uid, ''firecracker''];
     case term_result of
       Inl _ \<Rightarrow> ret False
     | Inr out \<Rightarrow>
         if \<not> status_success out then ret False
         else do {
           _ \<leftarrow> thread_sleep 2;
           _ \<leftarrow> command_output E ''pkill'' [''-9'', ''-u'', uid, ''firecracker''];
           ret True
         }
   }}"

section \<open>Directories\<close>

fun workspace_loop :: "env \<Rightarrow> string \<Rightarrow> (io_error + string) list \<Rightarrow> nat \<Rightarrow> nat io" where
  "workspace_loop E dir [] cnt = ret cnt"
| "workspace_loop E dir (Inl e # es) cnt = workspace_loop E dir es cnt"
| "workspace_loop E dir (Inr name # es) cnt = do {
     is_dir \<leftarrow> path_is_dir E (path_join dir name);
     if \<not> is_dir then workspace_loop E dir es cnt
     else do {
       r \<leftarrow> fs_remove_dir_all E (path_join dir name);
       case r of
         Inl _ \<Rightarrow> workspace_loop E dir es cnt
       | Inr _ \<Rightarrow> workspace_loop E dir es (cnt + 1)
     }
   }"

definition jailer_workspace_dir :: string where
  "jailer_workspace_dir = ''/srv/jailer/firecracker''"

definition remove_stale_jailer_workspaces :: "env \<Rightarrow> bool io" where
  "remove_stale_jailer_workspaces E = do {
     entries \<leftarrow> fs_read_dir E jailer_workspace_dir;
     case entries of
       Inl _ \<Rightarrow> ret False
     | Inr es \<Rightarrow> do {
         cnt \<leftarrow> workspace_loop E jailer_workspace_dir es 0;
         ret (0 < cnt)
       }
   }"

definition is_ext4 :: "string \<Rightarrow> bool" where
  "is_ext4 name = (case file_extension name of None \<Rightarrow> False | Some ext \<Rightarrow> ext = ''ext4'')"

definition is_jailer_log :: "string \<Rightarrow> bool" where
  "is_jailer_log name = (starts_with name ''warlock-jailer-'' \<and> ends_with name ''.log'')"

text \<open>The loops over the images and over the logs differ in the names they select.\<close>

fun remove_loop :: "env \<Rightarrow> (string \<Rightarrow> bool) \<Rightarrow> string \<Rightarrow> (io_error + string) list \<Rightarrow> nat \<Rightarrow> nat io" where
  "remove_loop E sel dir [] cnt = ret cnt"
| "remove_loop E sel dir (Inl e # es) cnt = remove_loop E sel dir es cnt"
| "remove_loop E sel dir (Inr name # es) cnt =
     (if \<not> sel name then remove_loop E sel dir es cnt
      else do {
        r \<leftarrow> fs_remove_file E (path_join dir name);
        case r of
          Inl _ \<Rightarrow> remove_loop E sel dir es cnt
        | Inr _ \<Rightarrow> remove_loop E sel dir es (cnt + 1)
      })"

definition remove_stale_rootfs_copies :: "env \<Rightarrow> string \<Rightarrow> bool io" where
  "remove_stale_rootfs_copies E vm_images_dir = do {
     entries \<leftarrow> fs_read_dir E vm_images_dir;
     case entries of
       Inl _ \<Rightarrow> ret False
     | Inr es \<Rightarrow> do {
         cnt \<leftarrow> remove_loop E is_ext4 vm_images_dir es 0;
         ret (0 < cnt)
       }
   }"

definition remove_stale_jailer_logs :: "env \<Rightarrow> bool io" where
  "remove_stale_jailer_logs E = do {
     entries \<leftarrow> fs_read_dir E ''/tmp'';
     case entries of
       Inl _ \<Rightarrow> ret False
     | Inr es \<Rightarrow> do {
         cnt \<leftarrow> remove_loop E is_jailer_log ''/tmp'' es 0;
         ret (0 < cnt)
       }
   }"

section \<open>Tap devices and rules\<close>

definition is_fc_name :: "string \<Rightarrow> bool" where
  "is_fc_name name = (starts_with name ''fc'' \<and> list_all is_ascii_digit (drop 2 name))"

definition fc_name_of_line :: "string \<Rightarrow> string option" where
  "fc_name_of_line line =
     (case drop 1 (split_whitespace line) of
        [] \<Rightarrow> None
      | w # _ \<Rightarrow>
          (let name = trim_end_matches CHR '':'' w
           in if is_fc_name name then Some name else None))"

definition parse_fc_tap_devices :: "string \<Rightarrow> string list" where
  "parse_fc_tap_devices out = List.map_filter fc_name_of_line (str_lines out)"

fun tap_loop :: "env \<Rightarrow> string list \<Rightarrow> nat \<Rightarrow> nat io" where
  "tap_loop E [] cnt = ret cnt"
| "tap_loop E (name # names) cnt = do {
     r \<leftarrow> command_output E ''ip'' (ip_link_del name);
     case r of
       Inl _ \<Rightarrow> tap_loop E names cnt
     | Inr out \<Rightarrow>
         if status_success out then tap_loop E names (cnt + 1) else tap_loop E names cnt
   }"

text \<open>The status of \<open>ip -o link show\<close> is not looked at.\<close>

definition remove_stale_tap_devices :: "env \<Rightarrow> bool io" where
  "remove_stale_tap_devices E = do {
     r \<leftarrow> command_output E ''ip'' [''-o'', ''link'', ''show''];
     case r of
       Inl _ \<Rightarrow> ret False
     | Inr out \<Rightarrow>
         (let tap_names = parse_fc_tap_devices (stdout out)
          in if tap_names = [] then ret False
             else do {
               cnt \<leftarrow> tap_loop E tap_names 0;
               ret (0 < cnt)
             })
   }"

definition structural_line :: "string \<Rightarrow> bool" where
  "structural_line line =
     (let trimmed = trim line
      in trimmed = [] \<or> starts_with trimmed ''table '' \<or> starts_with trimmed ''chain ''
         \<or> starts_with trimmed ''type '' \<or> trimmed = ''}'' \<or> trimmed = ''{'')"

definition has_nftables_rules :: "string \<Rightarrow> bool" where
  "has_nftables_rules out = list_ex (\<lambda>line. \<not> structural_line line) (str_lines out)"

definition flush_nftables_rules :: "env \<Rightarrow> bool io" where
  "flush_nftables_rules E = do {
     r \<leftarrow> command_output E ''nft'' [''list'', ''table'', ''firecracker''];
     case r of
       Inl _ \<Rightarrow> ret False
     | Inr out \<Rightarrow>
         if \<not> status_success out then ret False
         else if \<not> has_nftables_rules (stdout out) then ret False
         else do {
           r \<leftarrow> command_output E ''nft'' [''flush'', ''table'', ''firecracker''];
           case r of
             Inl _ \<Rightarrow> ret False
           | Inr out \<Rightarrow> ret (status_success out)
         }
   }"

section \<open>The sweep\<close>

definition cleanup_orphans :: "env \<Rightarrow> string \<Rightarrow> bool io" where
  "cleanup_orphans E vm_images_dir = do {
     a \<leftarrow> kill_orphaned_processes E;
     b \<leftarrow> remove_stale_jailer_workspaces E;
     c \<leftarrow> remove_stale_rootfs_copies E vm_images_dir;
     d \<leftarrow> remove_stale_tap_devices E;
     e \<leftarrow> flush_nftables_rules E;
     f \<leftarrow> remove_stale_jailer_logs E;
     ret (a \<or> b \<or> c \<or> d \<or> e \<or> f)
   }"

section \<open>What the sweep may touch\<close>

text \<open>The whole footprint: which commands it runs, which files and directories it removes.\<close>

definition sweep_event :: "string \<Rightarrow> event \<Rightarrow> bool" where
  "sweep_event dir e =
     (case e of
        EvExec p as _ \<Rightarrow>
          p = ''pkill'' \<and> last as = ''firecracker'' \<and> as ! 2 = show_nat JAILER_UID
          \<or> p = ''ip'' \<and> (as = [''-o'', ''link'', ''show''] \<or> (\<exists>n. as = ip_link_del n \<and> is_fc_name n))
          \<or> p = ''nft'' \<and> (as = [''list'', ''table'', ''firecracker''] \<or> as = [''flush'', ''table'', ''firecracker''])
      | EvRemoveFile path _ \<Rightarrow>
          (\<exists>name. path = path_join dir name \<and> is_ext4 name)
          \<or> (\<exists>name. path = path_join ''/tmp'' name \<and> is_jailer_log name)
      | EvRemoveDirAll path _ \<Rightarrow> \<exists>name. path = path_join jailer_workspace_dir name
      | EvReadDir path _ \<Rightarrow> path \<in> {dir, ''/tmp'', jailer_workspace_dir}
      | EvQuery q _ \<Rightarrow> q = ''is_dir''
      | EvSleep n \<Rightarrow> n = 2
      | _ \<Rightarrow> False)"

lemma sweep_event_simps [simp]:
  "sweep_event dir (EvReadDir p r) \<longleftrightarrow> p \<in> {dir, ''/tmp'', jailer_workspace_dir}"
  "sweep_event dir (EvSleep n) \<longleftrightarrow> n = 2"
  "sweep_event dir (EvQuery q p) \<longleftrightarrow> q = ''is_dir''"
  "sweep_event dir (EvExec ''pkill'' as r3) \<longleftrightarrow> last as = ''firecracker'' \<and> as ! 2 = show_nat JAILER_UID"
  "sweep_event dir (EvExec ''nft'' as r3) \<longleftrightarrow>
     as = [''list'', ''table'', ''firecracker''] \<or> as = [''flush'', ''table'', ''firecracker'']"
  "sweep_event dir (EvExec ''ip'' as r3) \<longleftrightarrow>
     as = [''-o'', ''link'', ''show''] \<or> (\<exists>n. as = ip_link_del n \<and> is_fc_name n)"
  "sweep_event dir (EvRemoveDirAll (path_join jailer_workspace_dir name) r2)"
  "is_ext4 name \<Longrightarrow> sweep_event dir (EvRemoveFile (path_join dir name) r2)"
  "is_jailer_log name \<Longrightarrow> sweep_event dir (EvRemoveFile (path_join ''/tmp'' name) r2)"
  by (auto simp: sweep_event_def)

lemma appends_workspace_loop: "appends (sweep_event dir) (workspace_loop E jailer_workspace_dir es n)"
proof (induction es arbitrary: n)
  case Nil
  then show ?case by (simp add: appends_return)
next
  case (Cons x es)
  then show ?case
    by (cases x) (simp_all, intro footprint Cons.IH, simp_all)
qed

lemma appends_remove_loop:
  assumes "\<And>name r. sel name \<Longrightarrow> sweep_event dir (EvRemoveFile (path_join d name) r)"
  shows "appends (sweep_event dir) (remove_loop E sel d es n)"
proof (induction es arbitrary: n)
  case Nil
  then show ?case by (simp add: appends_return)
next
  case (Cons x es)
  show ?case
  proof (cases x)
    case (Inr name)
    with assms Cons.IH show ?thesis
      by (cases "sel name") (simp_all, intro footprint, auto)
  qed (simp add: Cons.IH)
qed

lemma appends_tap_loop:
  "list_all is_fc_name names \<Longrightarrow> appends (sweep_event dir) (tap_loop E names n)"
proof (induction names arbitrary: n)
  case Nil
  then show ?case by (simp add: appends_return)
next
  case (Cons name names)
  then show ?case
    by simp (intro footprint, auto)
qed

lemma parsed_names: "list_all is_fc_name (parse_fc_tap_devices out)"
  by (auto simp: parse_fc_tap_devices_def list_all_iff map_filter_def fc_name_of_line_def Let_def
      split: list.splits if_splits)

lemma appends_sweep [footprint]: "appends (sweep_event dir) (cleanup_orphans E dir)"
proof -
  have a: "appends (sweep_event dir) (kill_orphaned_processes E)"
    unfolding kill_orphaned_processes_def Let_def by (intro footprint) simp_all
  have b: "appends (sweep_event dir) (remove_stale_jailer_workspaces E)"
    unfolding remove_stale_jailer_workspaces_def by (intro footprint appends_workspace_loop) simp
  have c: "appends (sweep_event dir) (remove_stale_rootfs_copies E dir)"
    unfolding remove_stale_rootfs_copies_def by (intro footprint appends_remove_loop) simp_all
  have d: "appends (sweep_event dir) (remove_stale_tap_devices E)"
    unfolding remove_stale_tap_devices_def Let_def by (intro footprint appends_tap_loop parsed_names) simp
  have e: "appends (sweep_event dir) (flush_nftables_rules E)"
    unfolding flush_nftables_rules_def by (intro footprint) simp_all
  have f: "appends (sweep_event dir) (remove_stale_jailer_logs E)"
    unfolding remove_stale_jailer_logs_def by (intro footprint appends_remove_loop) simp_all
  show ?thesis
    unfolding cleanup_orphans_def by (intro footprint a b c d e f)
qed

interpretation cleanup_orphans_op: host_op "\<lambda>E (_ :: unit). cleanup_orphans E d" "sweep_event d" for d
  by unfold_locales (rule footprint)


section \<open>What the sweep finds\<close>

text \<open>One line of \<open>ip -o link show\<close>: index, name, the rest.\<close>

definition link_line :: "nat \<times> string \<times> string \<Rightarrow> string" where
  "link_line l = (case l of (idx, name, rest) \<Rightarrow>
     show_nat idx @ '': '' @ name @ '': '' @ rest @ [newline])"

definition plain_name :: "string \<Rightarrow> bool" where
  "plain_name name \<longleftrightarrow> name \<noteq> [] \<and> (\<forall>c \<in> set name. \<not> is_ws c) \<and> CHR '':'' \<notin> set name"

lemma fc_name_of_link_line:
  assumes "plain_name name"
  shows "fc_name_of_line (show_nat idx @ '': '' @ name @ '': '' @ rest) =
    (if is_fc_name name then Some name else None)"
proof -
  have colon: "\<not> is_ws CHR '':''" and space: "is_ws CHR '' ''" by (simp_all add: is_ws_def)
  have w1: "\<forall>c \<in> set (show_nat idx @ '':''). \<not> is_ws c" using show_nat_no_ws colon by auto
  have w2: "\<forall>c \<in> set (name @ '':''). \<not> is_ws c" using assms colon by (auto simp: plain_name_def)
  have "split_whitespace ((show_nat idx @ '':'') @ CHR '' '' # (name @ '':'') @ CHR '' '' # rest) =
      (show_nat idx @ '':'') # (name @ '':'') # split_whitespace rest"
    using split_whitespace_cons [OF w1 _ space] split_whitespace_cons [OF w2 _ space] by simp
  then have "split_whitespace (show_nat idx @ '': '' @ name @ '': '' @ rest) =
      (show_nat idx @ '':'') # (name @ '':'') # split_whitespace rest" by simp
  moreover have "trim_end_matches CHR '':'' (name @ '':'') = name"
    using assms trim_end_matches_snoc [of "CHR '':''" name] by (simp add: plain_name_def)
  ultimately show ?thesis by (simp add: fc_name_of_line_def Let_def)
qed

lemma link_line_text:
  assumes "plain_name name" and "newline \<notin> set rest" and "rest \<noteq> []" and "last rest \<noteq> carriage_return"
  shows "str_lines (link_line (idx, name, rest) @ s) = (show_nat idx @ '': '' @ name @ '': '' @ rest) # str_lines s"
proof -
  let ?l = "show_nat idx @ '': '' @ name @ '': '' @ rest"
  have "is_ws newline" by (simp add: is_ws_def newline_def)
  then have "newline \<notin> set ?l"
    using assms show_nat_no_ws [of newline idx] by (auto simp: plain_name_def newline_def)
  moreover have "strip_cr ?l = ?l" using assms(3,4) by (simp add: strip_cr_def)
  ultimately show ?thesis using str_lines_cons [of ?l s] by (simp add: link_line_def)
qed

text \<open>The tap devices found are exactly the interfaces named \<open>fc\<close> and digits, in order, for
  every listing of interfaces; every device the pool can name is among those names. The bare
  name \<open>fc\<close> counts as one, too.\<close>

theorem parse_fc_tap_devices_exact:
  assumes "\<forall>(idx, name, rest) \<in> set ls. plain_name name \<and> newline \<notin> set rest \<and> rest \<noteq> []
      \<and> last rest \<noteq> carriage_return"
  shows "parse_fc_tap_devices (concat (map link_line ls)) = filter is_fc_name (map (\<lambda>(_, name, _). name) ls)
    \<and> is_fc_name (tap_name i) \<and> is_fc_name ''fc''"
proof -
  have "List.map_filter fc_name_of_line (str_lines (concat (map link_line ls))) =
      filter is_fc_name (map (\<lambda>(_, name, _). name) ls)"
    using assms
  proof (induction ls)
    case (Cons l ls)
    obtain idx name rest where l: "l = (idx, name, rest)" by (cases l)
    with Cons.prems have p: "plain_name name" "newline \<notin> set rest" "rest \<noteq> []" "last rest \<noteq> carriage_return"
      by auto
    from Cons link_line_text [OF p, of idx "concat (map link_line ls)"] fc_name_of_link_line [OF p(1), of idx rest] l
    show ?case by (simp add: map_filter_simps)
  qed (simp add: map_filter_simps)
  moreover have "is_fc_name (tap_name i)"
    using show_nat_digits by (auto simp: is_fc_name_def tap_name_def list_all_iff)
  ultimately show ?thesis by (simp add: parse_fc_tap_devices_def is_fc_name_def)
qed

theorem parse_fc_tap_devices_exact_witness:
  "parse_fc_tap_devices (concat (map link_line [(1, ''lo'', ''<LOOPBACK>''), (2, ''fc0'', ''<UP>''),
     (3, ''fcc0'', ''<UP>''), (4, ''fc42'', ''<UP>'')])) = [''fc0'', ''fc42'']"
proof -
  let ?ls = "[(1, ''lo'', ''<LOOPBACK>''), (2, ''fc0'', ''<UP>''), (3, ''fcc0'', ''<UP>''), (4, ''fc42'', ''<UP>'')]
    :: (nat \<times> string \<times> string) list"
  have "\<forall>(idx, name, rest) \<in> set ?ls. plain_name name \<and> newline \<notin> set rest \<and> rest \<noteq> []
      \<and> last rest \<noteq> carriage_return"
    by (simp add: plain_name_def is_ws_def newline_def carriage_return_def)
  from parse_fc_tap_devices_exact [OF this, of 0]
  show ?thesis by (simp add: is_fc_name_def is_ascii_digit_def digit_val_def)
qed

text \<open>The sweep of the images tries to remove every \<open>.ext4\<close> file the directory lists, each
  once and in order, however many of the removals fail, and reports whether one succeeded.\<close>

theorem rootfs_sweep_complete:
  assumes "env_read_dir E h dir = Inr entries"
    and "run_state (remove_stale_rootfs_copies E dir) h = (found, h')"
  shows "\<exists>es. h' = h @ EvReadDir dir (Inr entries) # es
    \<and> List.map_filter (\<lambda>e. case e of EvRemoveFile p _ \<Rightarrow> Some p | _ \<Rightarrow> None) es =
        map (path_join dir) (filter is_ext4 (List.map_filter (\<lambda>e. case e of Inl _ \<Rightarrow> None | Inr n \<Rightarrow> Some n) entries))
    \<and> (found \<longleftrightarrow> (\<exists>p. EvRemoveFile p (Inr ()) \<in> set es))"
proof -
  have loop: "\<exists>es. h2 = h1 @ es
      \<and> List.map_filter (\<lambda>e. case e of EvRemoveFile p _ \<Rightarrow> Some p | _ \<Rightarrow> None) es =
          map (path_join dir) (filter is_ext4 (List.map_filter (\<lambda>e. case e of Inl _ \<Rightarrow> None | Inr n \<Rightarrow> Some n) xs))
      \<and> (n < m \<longleftrightarrow> (\<exists>p. EvRemoveFile p (Inr ()) \<in> set es)) \<and> n \<le> m"
    if "run_state (remove_loop E is_ext4 dir xs n) h1 = (m, h2)" for xs n h1 m h2
    using that
  proof (induction xs arbitrary: n h1)
    case Nil
    then show ?case by (simp add: map_filter_simps)
  next
    case (Cons x xs)
    show ?case
    proof (cases "\<exists>name. x = Inr name \<and> is_ext4 name")
      case False
      with Cons.prems have "run_state (remove_loop E is_ext4 dir xs n) h1 = (m, h2)" by (cases x) auto
      from Cons.IH [OF this] False show ?thesis by (cases x) (simp_all add: map_filter_simps)
    next
      case True
      then obtain name where x: "x = Inr name" "is_ext4 name" by blast
      let ?r = "env_remove_file E h1 (path_join dir name)"
      let ?h = "h1 @ [EvRemoveFile (path_join dir name) ?r]"
      let ?n = "case ?r of Inl _ \<Rightarrow> n | Inr _ \<Rightarrow> n + 1"
      from Cons.prems x have "run_state (remove_loop E is_ext4 dir xs ?n) ?h = (m, h2)"
        by (simp add: fs_remove_file_def split: sum.splits)
      from Cons.IH [OF this] obtain es where es: "h2 = ?h @ es"
        "List.map_filter (\<lambda>e. case e of EvRemoveFile p _ \<Rightarrow> Some p | _ \<Rightarrow> None) es =
          map (path_join dir) (filter is_ext4 (List.map_filter (\<lambda>e. case e of Inl _ \<Rightarrow> None | Inr n \<Rightarrow> Some n) xs))"
        "?n < m \<longleftrightarrow> (\<exists>p. EvRemoveFile p (Inr ()) \<in> set es)" "?n \<le> m" by blast
      with x show ?thesis
        by (intro exI [of _ "EvRemoveFile (path_join dir name) ?r # es"])
          (cases ?r; auto simp: map_filter_simps)
    qed
  qed
  obtain m h2 where m: "run_state (remove_loop E is_ext4 dir entries 0) (h @ [EvReadDir dir (Inr entries)]) = (m, h2)"
    by fastforce
  with assms have "found \<longleftrightarrow> 0 < m" "h' = h2"
    by (auto simp: remove_stale_rootfs_copies_def fs_read_dir_def)
  with loop [OF m] show ?thesis by auto
qed

theorem rootfs_sweep_complete_witness:
  "\<exists>es. snd (run_state (remove_stale_rootfs_copies
       (calm_env\<lparr>env_read_dir := (\<lambda>h p. Inr [Inr ''a.ext4'', Inl (IoError False []), Inr ''probe'', Inr ''b.ext4''])\<rparr>) ''/img'') [])
      = EvReadDir ''/img'' (Inr [Inr ''a.ext4'', Inl (IoError False []), Inr ''probe'', Inr ''b.ext4'']) # es
    \<and> List.map_filter (\<lambda>e. case e of EvRemoveFile p _ \<Rightarrow> Some p | _ \<Rightarrow> None) es = [''/img/a.ext4'', ''/img/b.ext4'']"
proof -
  let ?es = "[Inr ''a.ext4'', Inl (IoError False []), Inr ''probe'', Inr ''b.ext4''] :: (io_error + string) list"
  let ?E = "calm_env\<lparr>env_read_dir := (\<lambda>h p. Inr ?es)\<rparr>"
  obtain found h' where run: "run_state (remove_stale_rootfs_copies ?E ''/img'') [] = (found, h')" by fastforce
  have dir: "env_read_dir ?E [] ''/img'' = Inr ?es" by simp
  have names: "is_ext4 ''a.ext4''" "\<not> is_ext4 ''probe''" "is_ext4 ''b.ext4''"
    "path_join ''/img'' ''a.ext4'' = ''/img/a.ext4''" "path_join ''/img'' ''b.ext4'' = ''/img/b.ext4''"
    by code_simp+
  from rootfs_sweep_complete [OF dir run] run show ?thesis by (auto simp: map_filter_simps names)
qed

end
