(* ===== verification/Fc_Version.thy ===== *)
theory Fc_Version
  imports Host
begin

text \<open>
  \<open>src/firecracker/version.rs\<close>: picking the version out of \<open>firecracker --version\<close>. The
  \<open>semver\<close> crate is a parameter: how a version is parsed, compared and printed.
\<close>

record 'v semver =
  sv_parse :: "string \<Rightarrow> string + 'v"
  sv_less :: "'v \<Rightarrow> 'v \<Rightarrow> bool"
  sv_show :: "'v \<Rightarrow> string"

definition MIN_FIRECRACKER_VERSION :: string where
  "MIN_FIRECRACKER_VERSION = ''1.14.1''"

definition looks_like_version :: "string \<Rightarrow> bool" where
  "looks_like_version s =
     (starts_with s ''v'' \<or> (case s of [] \<Rightarrow> False | c # _ \<Rightarrow> is_ascii_digit c))"

definition parse_and_validate_version :: "'v semver \<Rightarrow> string \<Rightarrow> (anyhow + 'v) outcome" where
  "parse_and_validate_version sv version_output =
     (case str_lines version_output of
        [] \<Rightarrow> Finished (Inl [''Version output was empty''])
      | first_line # _ \<Rightarrow>
          (case List.find looks_like_version (split_whitespace first_line) of
             None \<Rightarrow> Finished (Inl [''No version number found in output: '' @ first_line])
           | Some s \<Rightarrow>
               (case sv_parse sv (trim_start_matches CHR ''v'' s) of
                  Inl e \<Rightarrow> Finished (Inl (context_msg ''Failed to parse Firecracker version string'' [e]))
                | Inr version \<Rightarrow>
                    (case sv_parse sv MIN_FIRECRACKER_VERSION of
                       Inl _ \<Rightarrow> Panicked
                     | Inr min_version \<Rightarrow>
                         if sv_less sv version min_version
                         then Finished (Inl [''Firecracker version '' @ sv_show sv version @
                           '' is too old. Minimum required: '' @ MIN_FIRECRACKER_VERSION])
                         else Finished (Inr version)))))"

lemma line_breaks_are_ws: "is_ws newline" "is_ws carriage_return"
  by (simp_all add: is_ws_def newline_def carriage_return_def)

lemma first_word_line:
  assumes "\<forall>c \<in> set w. \<not> is_ws c" and "w \<noteq> []"
  shows "str_lines (w @ newline # rest) = w # str_lines rest"
proof -
  have "newline \<notin> set w" "last w \<noteq> carriage_return"
    using assms(1) last_in_set [OF assms(2)] line_breaks_are_ws by metis+
  then show ?thesis using str_lines_cons [of w rest] by (simp add: strip_cr_def)
qed

text \<open>The version is read from the first line alone, in each of the forms Firecracker prints it,
  \<open>Firecracker v1.2.3\<close>, \<open>v1.2.3\<close> and \<open>1.2.3\<close>, whatever the following lines say, and is
  accepted exactly when it parses and is not below the minimum.\<close>

theorem version_forms:
  assumes "ver = c # cs" and "is_ascii_digit c" and "\<forall>x \<in> set ver. \<not> is_ws x"
    and "sv_parse sv MIN_FIRECRACKER_VERSION = Inr minimum"
    and "prefix_text \<in> {''Firecracker v'', ''v'', ''''}"
  shows "parse_and_validate_version sv (prefix_text @ ver @ newline # rest) = Finished (Inr v) \<longleftrightarrow>
    sv_parse sv ver = Inr v \<and> \<not> sv_less sv v minimum"
proof -
  have cv: "c \<noteq> CHR ''v''" using assms(2) by (auto simp: is_ascii_digit_def digit_val_def)
  have ws: "\<not> is_ws CHR ''v''" "is_ws CHR '' ''" by (simp_all add: is_ws_def)
  have plain: "looks_like_version ver" "trim_start_matches CHR ''v'' ver = ver"
    using assms(1,2) cv by (simp_all add: looks_like_version_def trim_start_matches_def)
  have v: "looks_like_version (CHR ''v'' # ver)" "trim_start_matches CHR ''v'' (CHR ''v'' # ver) = ver"
    using plain(2) by (simp_all add: looks_like_version_def trim_start_matches_def)
  have "\<exists>w ls line. str_lines (prefix_text @ ver @ newline # rest) = line # ls
      \<and> List.find looks_like_version (split_whitespace line) = Some w \<and> trim_start_matches CHR ''v'' w = ver"
  proof -
    consider "prefix_text = ''Firecracker v''" | "prefix_text = ''v''" | "prefix_text = ''''" using assms(5) by blast
    then show ?thesis
    proof cases
      case 1
      have f: "\<forall>x \<in> set ''Firecracker''. \<not> is_ws x" by (simp add: is_ws_def)
      have w: "\<forall>x \<in> set (CHR ''v'' # ver). \<not> is_ws x" using assms(3) ws(1) by simp
      let ?line = "''Firecracker'' @ CHR '' '' # CHR ''v'' # ver"
      have "newline \<notin> set ?line" "last ?line \<noteq> carriage_return"
        using assms(1,3) last_in_set [of ver] line_breaks_are_ws by (auto simp: newline_def)
      then have "str_lines (?line @ newline # rest) = ?line # str_lines rest"
        using str_lines_cons [of ?line rest] by (simp add: strip_cr_def)
      moreover have "split_whitespace ?line = [''Firecracker'', CHR ''v'' # ver]"
        using split_whitespace_cons [OF f _ ws(2), of "CHR ''v'' # ver"] split_whitespace_single [OF w] by simp
      moreover have "\<not> looks_like_version ''Firecracker''"
        by (simp add: looks_like_version_def is_ascii_digit_def digit_val_def)
      ultimately show ?thesis using 1 v by simp
    next
      case 2
      have w: "\<forall>x \<in> set (CHR ''v'' # ver). \<not> is_ws x" using assms(3) ws(1) by simp
      with 2 v first_word_line [OF w] split_whitespace_single [OF w] show ?thesis by simp
    next
      case 3
      have ne: "ver \<noteq> []" using assms(1) by simp
      from 3 plain first_word_line [OF assms(3) ne] split_whitespace_single [OF assms(3) ne] show ?thesis by simp
    qed
  qed
  then show ?thesis
    using assms(4) by (auto simp: parse_and_validate_version_def split: sum.splits if_splits)
qed

text \<open>An instance of the parameter: versions compared as lists of numbers.\<close>

definition list_semver :: "nat list semver" where
  "list_semver =
     \<lparr>sv_parse = (\<lambda>s. case those (map (parse_digits 0) (split_on CHR ''.'' s)) of
                        None \<Rightarrow> Inl ''bad version'' | Some ns \<Rightarrow> Inr ns),
      sv_less = (\<lambda>x y. (x, y) \<in> lexord {(m, n). m < n}),
      sv_show = (\<lambda>ns. join_with ''.'' (map show_nat ns))\<rparr>"

theorem version_forms_witness:
  "parse_and_validate_version list_semver (''Firecracker v'' @ ''1.15.0'' @ newline # ''exiting v0.1'')
     = Finished (Inr [1, 15, 0])"
proof -
  have d: "is_ascii_digit CHR ''1''" "\<forall>x \<in> set ''1.15.0''. \<not> is_ws x"
    by (simp_all add: is_ascii_digit_def digit_val_def is_ws_def)
  have p: "those (map (parse_digits 0) (split_on CHR ''.'' ''1.14.1'')) = Some [1, 14, 1]"
    "those (map (parse_digits 0) (split_on CHR ''.'' ''1.15.0'')) = Some [1, 15, 0]"
    by code_simp+
  then have m: "sv_parse list_semver MIN_FIRECRACKER_VERSION = Inr [1, 14, 1]"
    "sv_parse list_semver ''1.15.0'' = Inr [1, 15, 0]"
    by (simp_all add: list_semver_def MIN_FIRECRACKER_VERSION_def)
  have l: "\<not> sv_less list_semver [1, 15, 0] [1, 14, 1]" by (simp add: list_semver_def)
  from version_forms [OF refl d m(1), of "''Firecracker v''" "''exiting v0.1''" "[1, 15, 0]"] m(2) l
  show ?thesis by simp
qed

end
