(* ===== verification/Preflight.thy ===== *)
theory Preflight
  imports App_State Fc_Version
begin

text \<open>
  \<open>src/firecracker/preflight.rs\<close> (the Linux versions): the checks that run before the
  server starts and the configuration they detect. \<open>?\<close> is \<open>and_then\<close>, an early return of
  the error; the two \<open>expect\<close>s are the outcome \<open>Panicked\<close>. The reference the checks are
  proved against is \<open>host_ready\<close>, the requirements on one unchanging host.
\<close>

section \<open>Queries\<close>

definition path_metadata :: "env \<Rightarrow> string \<Rightarrow> (io_error + u64) io" where
  "path_metadata E path = perform (\<lambda>h. env_metadata_dev E h path) (\<lambda>_. EvQuery ''metadata'' path)"

definition read_to_string :: "env \<Rightarrow> string \<Rightarrow> (io_error + string) io" where
  "read_to_string E path = perform (\<lambda>h. env_read_to_string E h path) (\<lambda>_. EvQuery ''read'' path)"

definition read_lines :: "env \<Rightarrow> string \<Rightarrow> (io_error + (io_error + string) list) io" where
  "read_lines E path = perform (\<lambda>h. env_read_lines E h path) (\<lambda>_. EvQuery ''lines'' path)"

definition canonicalize :: "env \<Rightarrow> string \<Rightarrow> (io_error + string) io" where
  "canonicalize E path = perform (\<lambda>h. env_canonicalize E h path) (\<lambda>_. EvQuery ''canonicalize'' path)"

definition which :: "env \<Rightarrow> string \<Rightarrow> (string + string) io" where
  "which E name = perform (\<lambda>h. env_which E h name) (\<lambda>_. EvQuery ''which'' name)"

definition and_then :: "('e + 'a) io \<Rightarrow> ('a \<Rightarrow> ('e + 'b) io) \<Rightarrow> ('e + 'b) io" where
  "and_then m f = do {
     r \<leftarrow> m;
     case r of Inl e \<Rightarrow> ret (Inl e) | Inr a \<Rightarrow> f a
   }"

text \<open>\<open>context(msg)?\<close> on an error of the operating system and on one of \<open>which\<close>.\<close>

definition io_context :: "string \<Rightarrow> (io_error + 'a) io \<Rightarrow> (anyhow + 'a) io" where
  "io_context msg m = do {
     r \<leftarrow> m;
     ret (case r of Inl e \<Rightarrow> Inl (context_msg msg [io_message e]) | Inr a \<Rightarrow> Inr a)
   }"

definition which_context :: "string \<Rightarrow> (string + 'a) io \<Rightarrow> (anyhow + 'a) io" where
  "which_context msg m = do {
     r \<leftarrow> m;
     ret (case r of Inl e \<Rightarrow> Inl (context_msg msg [e]) | Inr a \<Rightarrow> Inr a)
   }"

abbreviation bail_unless :: "bool \<Rightarrow> string \<Rightarrow> (anyhow + unit) io" where
  "bail_unless b msg \<equiv> ret (if b then Inr () else Inl [msg])"

section \<open>The checks\<close>

definition is_dev_mode :: "env \<Rightarrow> bool io" where
  "is_dev_mode E = do {
     a \<leftarrow> env_lookup E ''WARLOCK_DEV'';
     if a = Some ''true'' then ret True
     else do {
       b \<leftarrow> env_lookup E ''RUST_ENV'';
       ret (b = Some ''development'')
     }
   }"

definition resolve_binary_path :: "env \<Rightarrow> string \<Rightarrow> string \<Rightarrow> (anyhow + string) io" where
  "resolve_binary_path E var default_name = do {
     v \<leftarrow> env_lookup E var;
     let name = unwrap_or v default_name
     in if is_absolute name then ret (Inr name)
        else which_context (''Could not find '' @ quoted name @ '' in PATH. Set `'' @ var @
               ''` environment variable to the absolute path.'') (which E name)
   }"

text \<open>\<open>String::from_utf8_lossy(..).trim()\<close>.\<close>

definition check_firecracker_binary :: "env \<Rightarrow> (anyhow + string \<times> string) io" where
  "check_firecracker_binary E =
     and_then (resolve_binary_path E ''FIRECRACKER_BIN'' ''firecracker'') (\<lambda>firecracker_path.
     and_then (io_context (''Failed to execute Firecracker binary at '' @ quoted firecracker_path @
         ''. Install Firecracker from https://github.com/firecracker-microvm/firecracker or set '' @
         ''`FIRECRACKER_BIN` environment variable to the correct path.'')
       (command_output E firecracker_path [''--version''])) (\<lambda>out.
     if \<not> status_success out then ret (Inl [''Firecracker execution failed: '' @ stderr out])
     else let version_output = trim (stdout out)
          in if version_output = [] then ret (Inl [''Firecracker version output was empty''])
             else ret (Inr (version_output, firecracker_path))))"

definition check_kvm_available :: "env \<Rightarrow> (anyhow + unit) io" where
  "check_kvm_available E = do {
     present \<leftarrow> path_exists E ''/dev/kvm'';
     if \<not> present
     then ret (Inl [''KVM device not found at /dev/kvm. Ensure KVM is enabled in your kernel and BIOS. '' @
       ''On Ubuntu/Debian, try: sudo modprobe kvm kvm_intel (or kvm_amd for AMD CPUs)''])
     else do {
       m \<leftarrow> path_metadata E ''/dev/kvm'';
       ret (case m of
              Inl e \<Rightarrow> Inl [''Cannot access /dev/kvm: '' @ io_message e @
                ''. You may need to add your user to the kvm group: sudo usermod -aG kvm $USER && newgrp kvm'']
            | Inr _ \<Rightarrow> Inr ())
     }
   }"

definition check_jailer_binary :: "env \<Rightarrow> (anyhow + string) io" where
  "check_jailer_binary E =
     and_then (resolve_binary_path E ''JAILER_BIN'' ''jailer'') (\<lambda>jailer_path.
     and_then (io_context (''Failed to execute jailer binary at '' @ quoted jailer_path @
         ''. The jailer is included in Firecracker releases. Set `JAILER_BIN` environment variable '' @
         ''if it is installed elsewhere.'')
       (command_output E jailer_path [''--version''])) (\<lambda>out.
     if \<not> status_success out then ret (Inl [''Jailer execution failed: '' @ stderr out])
     else ret (Inr jailer_path)))"

text \<open>The loop over the lines of \<open>/etc/passwd\<close>: a line that cannot be read ends it.\<close>

fun find_jailer_user :: "string \<Rightarrow> (io_error + string) list \<Rightarrow> anyhow + unit" where
  "find_jailer_user uid_str [] =
     Inl [''No user with uid '' @ uid_str @ '' found. Run the install-firecracker.sh script to create '' @
       ''the 'firecracker' system user.'']"
| "find_jailer_user uid_str (Inl e # ls) = Inl [io_message e]"
| "find_jailer_user uid_str (Inr line # ls) =
     (let fields = split_on CHR '':'' line
      in if 3 \<le> length fields \<and> fields ! 2 = uid_str then Inr () else find_jailer_user uid_str ls)"

definition check_jailer_user :: "env \<Rightarrow> (anyhow + unit) io" where
  "check_jailer_user E =
     and_then (io_context ''Failed to read /etc/passwd'' (read_lines E ''/etc/passwd''))
       (\<lambda>ls. ret (find_jailer_user (show_nat JAILER_UID) ls))"

definition check_jailer_filesystem :: "env \<Rightarrow> (anyhow + unit) io" where
  "check_jailer_filesystem E = do {
     assets \<leftarrow> path_exists E ''/opt/firecracker'';
     if \<not> assets
     then ret (Inl [''/opt/firecracker does not exist. Run install-firecracker.sh to install Firecracker assets.''])
     else do {
       jailer \<leftarrow> path_exists E ''/srv/jailer'';
       if \<not> jailer
       then ret (Inl [''/srv/jailer does not exist. Run install-firecracker.sh to create the jailer chroot base directory.''])
       else
         and_then (io_context ''Failed to stat /opt/firecracker'' (path_metadata E ''/opt/firecracker'')) (\<lambda>assets_dev.
         and_then (io_context ''Failed to stat /srv/jailer'' (path_metadata E ''/srv/jailer'')) (\<lambda>jailer_dev.
         bail_unless (assets_dev = jailer_dev)
           (''/opt/firecracker and /srv/jailer are on different filesystems. The jailer uses hard links, '' @
            ''which cannot cross filesystem boundaries. Move assets to the same filesystem as /srv/jailer.'')))
     }
   }"

definition check_vm_images_dir :: "env \<Rightarrow> (anyhow + unit) io" where
  "check_vm_images_dir E = do {
     present \<leftarrow> path_exists E VM_IMAGES_DIR;
     bail_unless present (VM_IMAGES_DIR @ '' does not exist. Run install-firecracker.sh to create it.'')
   }"

definition check_vsock_dir :: "env \<Rightarrow> (anyhow + unit) io" where
  "check_vsock_dir E = do {
     present \<leftarrow> path_exists E ''/srv/jailer/vsock'';
     if \<not> present
     then io_context ''Failed to create /srv/jailer/vsock directory'' (fs_create_dir_all E ''/srv/jailer/vsock'')
     else ret (Inr ())
   }"

definition nft_table_missing :: string where
  "nft_table_missing =
     ''nftables table 'firecracker' does not exist. Run install-firecracker.sh or:'' @ [newline] @
     ''  sudo nft add table firecracker'' @ [newline] @
     ''  sudo nft '' @ quoted ''add chain firecracker postrouting { type nat hook postrouting priority srcnat; policy accept; }'' @
     [newline] @
     ''  sudo nft '' @ quoted ''add chain firecracker filter { type filter hook forward priority filter; policy accept; }''"

definition check_networking_prerequisites :: "env \<Rightarrow> (anyhow + unit) io" where
  "check_networking_prerequisites E =
     and_then (which_context ''The 'ip' command (iproute2) is required for VM networking. Install it with: apt install iproute2''
       (which E ''ip'')) (\<lambda>_.
     and_then (which_context ''The 'nft' command (nftables) is required for VM networking. Install it with: apt install nftables''
       (which E ''nft'')) (\<lambda>_.
     and_then (io_context ''Failed to read /proc/sys/net/ipv4/ip_forward''
       (read_to_string E ''/proc/sys/net/ipv4/ip_forward'')) (\<lambda>ip_forward.
     if trim ip_forward \<noteq> ''1''
     then ret (Inl [''IPv4 forwarding is not enabled. Run install-firecracker.sh or: '' @
       ''echo 1 | sudo tee /proc/sys/net/ipv4/ip_forward''])
     else
       and_then (io_context ''Failed to query nftables''
         (command_output E ''nft'' [''list'', ''table'', ''firecracker''])) (\<lambda>out.
       if \<not> status_success out
       then ret (Inl [nft_table_missing])
       else if \<not> contains (stdout out) ''chain postrouting''
       then ret (Inl [''nftables table 'firecracker' is missing the 'postrouting' chain''])
       else if \<not> contains (stdout out) ''chain filter''
       then ret (Inl [''nftables table 'firecracker' is missing the 'filter' chain''])
       else ret (Inr ())))))"

definition probe_src :: string where "probe_src = path_join VM_IMAGES_DIR ''.warlock-probe''"
definition probe_dst :: string where "probe_dst = path_join VM_IMAGES_DIR ''.warlock-probe.reflink''"

definition detect_copy_strategy :: "env \<Rightarrow> copy_strategy io" where
  "detect_copy_strategy E = do {
     _ \<leftarrow> fs_remove_file E probe_src;
     _ \<leftarrow> fs_remove_file E probe_dst;
     w \<leftarrow> fs_write E probe_src ''probe'';
     case w of
       Inl _ \<Rightarrow> ret Sparse
     | Inr _ \<Rightarrow> do {
         result \<leftarrow> command_output E ''cp'' [''--reflink=always'', probe_src, probe_dst];
         _ \<leftarrow> fs_remove_file E probe_src;
         _ \<leftarrow> fs_remove_file E probe_dst;
         ret (case result of
                Inl _ \<Rightarrow> Sparse
              | Inr out \<Rightarrow> if status_success out then Reflink else Sparse)
       }
   }"

definition detect_cgroup_version :: "env \<Rightarrow> nat io" where
  "detect_cgroup_version E = do {
     present \<leftarrow> path_exists E ''/sys/fs/cgroup/cgroup.controllers'';
     ret (if present then 2 else 1)
   }"

section \<open>The whole check\<close>

definition dev_config :: jailer_config where
  "dev_config =
     \<lparr>jc_cgroup_version = 2, jc_firecracker_path = ''firecracker'', jc_jailer_path = ''jailer'',
      jc_kernel_path = ''/dev/null/nonexistent-kernel'',
      jc_rootfs_path = ''/dev/null/nonexistent-rootfs'',
      jc_vm_images_dir = ''/dev/null/nonexistent-vm-images'',
      jc_copy_strategy = Sparse, jc_host_interface = ''eth0''\<rparr>"

text \<open>\<open>?\<close> in a function that may also panic.\<close>

definition try_then ::
  "('e + 'a) io \<Rightarrow> ('a \<Rightarrow> ('e + 'b) outcome io) \<Rightarrow> ('e + 'b) outcome io" where
  "try_then m f = do {
     r \<leftarrow> m;
     case r of Inl e \<Rightarrow> ret (Finished (Inl e)) | Inr a \<Rightarrow> f a
   }"

definition host_interface :: "env \<Rightarrow> string outcome io" where
  "host_interface E = do {
     v \<leftarrow> env_lookup E ''WARLOCK_HOST_IFACE'';
     case v of
       Some name \<Rightarrow> ret (Finished name)
     | None \<Rightarrow> do {
         r \<leftarrow> detect_host_interface E;
         ret (case r of Inl _ \<Rightarrow> Panicked | Inr name \<Rightarrow> Finished name)
       }
   }"

definition resolve_assets ::
  "env \<Rightarrow> nat \<Rightarrow> copy_strategy \<Rightarrow> string \<Rightarrow> string \<Rightarrow> string \<Rightarrow> (anyhow + jailer_config) io" where
  "resolve_assets E cgroup strategy firecracker_path jailer_path iface =
     and_then (io_context ''Failed to resolve kernel path at /opt/firecracker/vmlinux''
       (canonicalize E ''/opt/firecracker/vmlinux'')) (\<lambda>kernel_path.
     and_then (io_context ''Failed to resolve rootfs path at /opt/firecracker/rootfs.ext4''
       (canonicalize E ''/opt/firecracker/rootfs.ext4'')) (\<lambda>rootfs_path.
     ret (Inr \<lparr>jc_cgroup_version = cgroup, jc_firecracker_path = firecracker_path,
               jc_jailer_path = jailer_path, jc_kernel_path = kernel_path,
               jc_rootfs_path = rootfs_path, jc_vm_images_dir = VM_IMAGES_DIR,
               jc_copy_strategy = strategy, jc_host_interface = iface\<rparr>)))"

definition preflight_interface ::
  "env \<Rightarrow> nat \<Rightarrow> copy_strategy \<Rightarrow> string \<Rightarrow> string \<Rightarrow> (anyhow + jailer_config) outcome io" where
  "preflight_interface E cgroup strategy firecracker_path jailer_path = do {
     iface \<leftarrow> host_interface E;
     case iface of
       Panicked \<Rightarrow> ret Panicked
     | Finished iface \<Rightarrow> do {
         r \<leftarrow> resolve_assets E cgroup strategy firecracker_path jailer_path iface;
         ret (Finished r)
       }
   }"

definition preflight_detect :: "env \<Rightarrow> string \<Rightarrow> string \<Rightarrow> (anyhow + jailer_config) outcome io" where
  "preflight_detect E firecracker_path jailer_path = do {
     cgroup \<leftarrow> detect_cgroup_version E;
     strategy \<leftarrow> detect_copy_strategy E;
     try_then (check_networking_prerequisites E) (\<lambda>_.
       preflight_interface E cgroup strategy firecracker_path jailer_path)
   }"

definition preflight_host :: "env \<Rightarrow> string \<Rightarrow> (anyhow + jailer_config) outcome io" where
  "preflight_host E firecracker_path =
     try_then (check_jailer_binary E) (\<lambda>jailer_path.
     try_then (check_kvm_available E) (\<lambda>_.
     try_then (check_jailer_user E) (\<lambda>_.
     try_then (check_jailer_filesystem E) (\<lambda>_.
     try_then (check_vm_images_dir E) (\<lambda>_.
     try_then (check_vsock_dir E) (\<lambda>_.
     preflight_detect E firecracker_path jailer_path))))))"

definition preflight_check :: "'v semver \<Rightarrow> env \<Rightarrow> (anyhow + jailer_config) outcome io" where
  "preflight_check sv E = do {
     dev \<leftarrow> is_dev_mode E;
     if dev then ret (Finished (Inr dev_config))
     else
       try_then (check_firecracker_binary E) (\<lambda>(version_output, firecracker_path).
       case parse_and_validate_version sv version_output of
         Panicked \<Rightarrow> ret Panicked
       | Finished (Inl e) \<Rightarrow> ret (Finished (Inl e))
       | Finished (Inr version) \<Rightarrow> preflight_host E firecracker_path)
   }"

section \<open>Footprint\<close>

text \<open>What the checks may do to the host: query it, run a version or listing command, and write,
  copy and remove the probe files or create the vsock directory.\<close>

definition inspecting :: "event \<Rightarrow> bool" where
  "inspecting e =
     (case e of
        EvQuery _ _ \<Rightarrow> True
      | EvExec p as _ \<Rightarrow>
          as = [''--version''] \<or> p = ''nft'' \<and> as = [''list'', ''table'', ''firecracker'']
          \<or> p = ''ip'' \<and> as = [''route'', ''show'', ''default'']
      | EvCreateDirAll q _ \<Rightarrow> q = ''/srv/jailer/vsock''
      | _ \<Rightarrow> False)"

definition probing :: "event \<Rightarrow> bool" where
  "probing e \<longleftrightarrow> inspecting e
     \<or> (case e of
          EvExec p as _ \<Rightarrow> p = ''cp'' \<and> as = [''--reflink=always'', probe_src, probe_dst]
        | EvRemoveFile q _ \<Rightarrow> q = probe_src \<or> q = probe_dst
        | EvWriteFile q _ _ \<Rightarrow> q = probe_src
        | _ \<Rightarrow> False)"

lemma inspecting_probing: "appends inspecting m \<Longrightarrow> appends probing m"
  by (erule appends_mono) (simp add: probing_def)

lemma appends_try [footprint]:
  "appends P m \<Longrightarrow> (\<And>a. appends P (f a)) \<Longrightarrow> appends P (and_then m f)"
  "appends P m \<Longrightarrow> (\<And>a. appends P (g a)) \<Longrightarrow> appends P (try_then m g)"
  "appends P m' \<Longrightarrow> appends P (io_context msg m')"
  "appends P m'' \<Longrightarrow> appends P (which_context msg m'')"
  unfolding and_then_def try_then_def io_context_def which_context_def by (intro footprint; assumption)+

lemma appends_queries [footprint]:
  "P (EvQuery ''metadata'' q) \<Longrightarrow> appends P (path_metadata E q)"
  "P (EvQuery ''read'' q) \<Longrightarrow> appends P (read_to_string E q)"
  "P (EvQuery ''lines'' q) \<Longrightarrow> appends P (read_lines E q)"
  "P (EvQuery ''canonicalize'' q) \<Longrightarrow> appends P (canonicalize E q)"
  "P (EvQuery ''which'' q) \<Longrightarrow> appends P (which E q)"
  unfolding path_metadata_def read_to_string_def read_lines_def canonicalize_def which_def
  by (intro footprint; assumption)+

lemma appends_outcome [footprint]:
  "appends P m \<Longrightarrow> (\<And>a. appends P (f a)) \<Longrightarrow>
   appends P (case r of Panicked \<Rightarrow> m | Finished a \<Rightarrow> f a)"
  by (cases r) simp_all

named_theorems checks \<open>footprints of the single checks\<close>

lemma inspecting_dev [checks]: "appends inspecting (is_dev_mode E)"
  unfolding is_dev_mode_def by (intro footprint) (simp_all add: inspecting_def)

lemma inspecting_resolve [checks]: "appends inspecting (resolve_binary_path E v d)"
  unfolding resolve_binary_path_def by (intro footprint) (simp_all add: inspecting_def)

lemma inspecting_firecracker [checks]: "appends inspecting (check_firecracker_binary E)"
  unfolding check_firecracker_binary_def by (intro footprint checks) (simp_all add: inspecting_def)

lemma inspecting_jailer [checks]: "appends inspecting (check_jailer_binary E)"
  unfolding check_jailer_binary_def by (intro footprint checks) (simp_all add: inspecting_def)

lemma inspecting_kvm [checks]: "appends inspecting (check_kvm_available E)"
  unfolding check_kvm_available_def by (intro footprint) (simp_all add: inspecting_def)

lemma inspecting_user [checks]: "appends inspecting (check_jailer_user E)"
  unfolding check_jailer_user_def by (intro footprint) (simp_all add: inspecting_def)

lemma inspecting_filesystem [checks]: "appends inspecting (check_jailer_filesystem E)"
  unfolding check_jailer_filesystem_def by (intro footprint) (simp_all add: inspecting_def)

lemma inspecting_images [checks]: "appends inspecting (check_vm_images_dir E)"
  unfolding check_vm_images_dir_def by (intro footprint) (simp_all add: inspecting_def)

lemma inspecting_vsock [checks]: "appends inspecting (check_vsock_dir E)"
  unfolding check_vsock_dir_def by (intro footprint) (simp_all add: inspecting_def)

lemma inspecting_networking [checks]: "appends inspecting (check_networking_prerequisites E)"
  unfolding check_networking_prerequisites_def by (intro footprint) (simp_all add: inspecting_def)

lemma inspecting_cgroup [checks]: "appends inspecting (detect_cgroup_version E)"
  unfolding detect_cgroup_version_def by (intro footprint) (simp_all add: inspecting_def)

lemma inspecting_interface [checks]: "appends inspecting (host_interface E)"
  unfolding host_interface_def detect_host_interface_def
  by (intro footprint) (simp_all add: inspecting_def)

lemma inspecting_assets [checks]: "appends inspecting (resolve_assets E c s fp jp i)"
  unfolding resolve_assets_def by (intro footprint) (simp_all add: inspecting_def)

lemma probing_copy: "appends probing (detect_copy_strategy E)"
  unfolding detect_copy_strategy_def by (intro footprint) (simp_all add: probing_def)

lemmas probing_checks = checks [THEN inspecting_probing]

lemma probing_preflight: "appends probing (preflight_check sv E)"
  unfolding preflight_check_def preflight_host_def preflight_detect_def preflight_interface_def
  by (intro footprint probing_checks probing_copy)

interpretation preflight_op: host_op "\<lambda>E sv. preflight_check sv E" probing
  by unfold_locales (rule probing_preflight)

lemma probing_cases:
  assumes "probing e"
  obtains "\<And>p as r. e \<noteq> EvExec p as r" "\<And>q. q \<notin> {probe_src, probe_dst} \<Longrightarrow> e \<noteq> EvRemoveFile q (Inr ())"
  | p as r where "e = EvExec p as r" "length as = 1"
  | as r where "e = EvExec ''nft'' as r" "as = [''list'', ''table'', ''firecracker'']"
  | as r where "e = EvExec ''ip'' as r" "as = [''route'', ''show'', ''default'']"
  | r where "e = EvExec ''cp'' [''--reflink=always'', probe_src, probe_dst] r"
  using assms by (cases e) (auto simp: probing_def inspecting_def)

lemma probing_keeps_taps: "probing e \<Longrightarrow> tap_step s e = s"
  by (erule probing_cases; cases e) (auto simp: tap_step_def ip_link_del_def)

lemma probing_keeps_rules: "probing e \<Longrightarrow> rule_step n e = n"
  by (erule probing_cases; cases e) (auto simp: rule_step_def)

lemma probing_keeps_copy: "probing e \<Longrightarrow> copy_step c e - {probe_src, probe_dst} = c - {probe_src, probe_dst}"
  by (erule probing_cases; cases e) (auto simp: copy_step_def)

lemmas probing_keeps = probing_keeps_taps probing_keeps_rules probing_keeps_copy

lemma probing_keeps_copies:
  "\<forall>e \<in> set es. probing e \<Longrightarrow>
   ledger copy_step c es - {probe_src, probe_dst} = c - {probe_src, probe_dst}"
  by (induction es arbitrary: c) (simp_all add: probing_keeps)

text \<open>The preflight check is harmless: whatever it finds, it only queries the host, runs version
  and listing commands and handles its own probe files and the vsock directory; no tap device and
  no firewall rule is added or removed and every rootfs copy stays.\<close>

theorem preflight_harmless:
  "\<exists>es. snd (run_state (preflight_check sv E) h) = h @ es \<and> list_all probing es
    \<and> live_taps (h @ es) = live_taps h \<and> live_rules (h @ es) = live_rules h
    \<and> live_copies (h @ es) - {probe_src, probe_dst} = live_copies h - {probe_src, probe_dst}"
proof -
  obtain es where es: "snd (run_state (preflight_check sv E) h) = h @ es" "\<forall>e \<in> set es. probing e"
    using preflight_op.extends by blast
  have "ledger tap_step s es = s" for s by (rule ledger_ignored [OF probing_keeps(1) es(2)])
  moreover have "ledger rule_step n es = n" for n by (rule ledger_ignored [OF probing_keeps(2) es(2)])
  ultimately show ?thesis
    using es probing_keeps_copies [OF es(2)]
    by (auto simp: live_taps_def live_rules_def live_copies_def list_all_iff intro!: exI [of _ es])
qed

section \<open>What the checks require\<close>

text \<open>A host on which nothing that the checks ask for changes while they run.\<close>

definition checked_command :: "string list \<Rightarrow> bool" where
  "checked_command as \<longleftrightarrow> as \<in> {[''--version''], [''list'', ''table'', ''firecracker''], [''route'', ''show'', ''default''],
     [''--reflink=always'', probe_src, probe_dst]}"

lemma checked_commands [simp]:
  "checked_command [''--version'']" "checked_command [''list'', ''table'', ''firecracker'']"
  "checked_command [''route'', ''show'', ''default'']" "checked_command [''--reflink=always'', probe_src, probe_dst]"
  by (simp_all add: checked_command_def)

definition unchanging :: "env \<Rightarrow> bool" where
  "unchanging E \<longleftrightarrow> (\<forall>h. env_var E h = env_var E [] \<and> env_which E h = env_which E []
     \<and> (\<forall>p as. checked_command as \<longrightarrow> env_exec E h p as = env_exec E [] p as) \<and> env_exists E h = env_exists E []
     \<and> env_metadata_dev E h = env_metadata_dev E [] \<and> env_read_to_string E h = env_read_to_string E []
     \<and> env_read_lines E h = env_read_lines E [] \<and> env_canonicalize E h = env_canonicalize E []
     \<and> env_create_dir_all E h = env_create_dir_all E [] \<and> env_write E h = env_write E [])"

text \<open>As rewrite rules they go from a later history to the empty one.\<close>

lemma unchangingD:
  assumes "unchanging E" and "NO_MATCH [] h"
  shows "env_var E h n = env_var E [] n" "env_which E h n = env_which E [] n"
    "checked_command as \<Longrightarrow> env_exec E h p as = env_exec E [] p as" "env_exists E h n = env_exists E [] n"
    "env_metadata_dev E h n = env_metadata_dev E [] n" "env_read_to_string E h n = env_read_to_string E [] n"
    "env_read_lines E h n = env_read_lines E [] n" "env_canonicalize E h n = env_canonicalize E [] n"
    "env_create_dir_all E h n = env_create_dir_all E [] n" "env_write E h n s = env_write E [] n s"
  using assms(1) unfolding unchanging_def by metis+

text \<open>\<open>yields m P\<close>: whatever came before, the check succeeds with \<open>x\<close> exactly when \<open>P x\<close>.\<close>

definition yields :: "('e + 'a) io \<Rightarrow> ('a \<Rightarrow> bool) \<Rightarrow> bool" where
  "yields m P \<longleftrightarrow> (\<forall>h x. fst (run_state m h) = Inr x \<longleftrightarrow> P x)"

definition yields_outcome :: "('e + 'a) outcome io \<Rightarrow> ('a \<Rightarrow> bool) \<Rightarrow> bool" where
  "yields_outcome m P \<longleftrightarrow> (\<forall>h x. fst (run_state m h) = Finished (Inr x) \<longleftrightarrow> P x)"

definition answers :: "'a io \<Rightarrow> 'a \<Rightarrow> bool" where
  "answers m v \<longleftrightarrow> (\<forall>h. fst (run_state m h) = v)"

named_theorems yielding \<open>when the checks succeed\<close>

lemma yields_and_then:
  assumes "yields m P" and "\<And>a. P a \<Longrightarrow> yields (f a) (Q a)"
  shows "yields (and_then m f) (\<lambda>x. \<exists>a. P a \<and> Q a x)"
  unfolding yields_def
proof (intro allI)
  fix h x
  obtain r h1 where m: "run_state m h = (r, h1)" by fastforce
  show "fst (run_state (and_then m f) h) = Inr x \<longleftrightarrow> (\<exists>a. P a \<and> Q a x)"
  proof (cases r)
    case (Inl e)
    then have "\<not> P a" for a using assms(1) m unfolding yields_def by (metis Inl_Inr_False fst_conv)
    with m Inl show ?thesis by (simp add: and_then_def)
  next
    case (Inr b)
    then have P: "P a \<longleftrightarrow> a = b" for a
      using assms(1) m unfolding yields_def by (metis fst_conv sum.inject(2))
    moreover have "yields (f b) (Q b)" using P assms(2) by simp
    ultimately show ?thesis using m Inr unfolding yields_def by (simp add: and_then_def)
  qed
qed

lemma yields_try_then:
  assumes "yields m P" and "\<And>a. P a \<Longrightarrow> yields_outcome (f a) (Q a)"
  shows "yields_outcome (try_then m f) (\<lambda>x. \<exists>a. P a \<and> Q a x)"
  unfolding yields_outcome_def
proof (intro allI)
  fix h x
  obtain r h1 where m: "run_state m h = (r, h1)" by fastforce
  show "fst (run_state (try_then m f) h) = Finished (Inr x) \<longleftrightarrow> (\<exists>a. P a \<and> Q a x)"
  proof (cases r)
    case (Inl e)
    then have "\<not> P a" for a using assms(1) m unfolding yields_def by (metis Inl_Inr_False fst_conv)
    with m Inl show ?thesis by (simp add: try_then_def)
  next
    case (Inr b)
    then have P: "P a \<longleftrightarrow> a = b" for a
      using assms(1) m unfolding yields_def by (metis fst_conv sum.inject(2))
    moreover have "yields_outcome (f b) (Q b)" using P assms(2) by simp
    ultimately show ?thesis using m Inr unfolding yields_outcome_def by (simp add: try_then_def)
  qed
qed

lemma yields_outcome_bind:
  assumes "answers m a" and "yields_outcome (f a) P"
  shows "yields_outcome (State_Monad.bind m f) P"
  using assms unfolding yields_outcome_def answers_def
  by (auto split: prod.split) (metis fst_conv)+

lemma yieldsI: "(\<And>h x. fst (run_state m h) = Inr x \<longleftrightarrow> P x) \<Longrightarrow> yields m P"
  by (simp add: yields_def)

text \<open>The requirements, one by one.\<close>

definition binary_at :: "env \<Rightarrow> string \<Rightarrow> string \<Rightarrow> string \<Rightarrow> bool" where
  "binary_at E var default_name path \<longleftrightarrow>
     (let name = unwrap_or (env_var E [] var) default_name
      in if is_absolute name then path = name else env_which E [] name = Inr path)"

definition runs :: "env \<Rightarrow> string \<Rightarrow> string list \<Rightarrow> string \<Rightarrow> bool" where
  "runs E program args out \<longleftrightarrow>
     (\<exists>r. env_exec E [] program args = Inr r \<and> status_success r \<and> stdout r = out)"

definition has_jailer_uid :: "string \<Rightarrow> bool" where
  "has_jailer_uid line \<longleftrightarrow>
     (let fields = split_on CHR '':'' line in 3 \<le> length fields \<and> fields ! 2 = ''1100'')"

definition jailer_user_exists :: "env \<Rightarrow> bool" where
  "jailer_user_exists E \<longleftrightarrow>
     (\<exists>before line after. env_read_lines E [] ''/etc/passwd'' = Inr (map Inr before @ Inr line # after)
        \<and> has_jailer_uid line)"

definition same_filesystem :: "env \<Rightarrow> string \<Rightarrow> string \<Rightarrow> bool" where
  "same_filesystem E a b \<longleftrightarrow> env_exists E [] a \<and> env_exists E [] b
     \<and> (\<exists>dev. env_metadata_dev E [] a = Inr dev \<and> env_metadata_dev E [] b = Inr dev)"

definition network_ready :: "env \<Rightarrow> bool" where
  "network_ready E \<longleftrightarrow>
     (\<exists>p. env_which E [] ''ip'' = Inr p) \<and> (\<exists>p. env_which E [] ''nft'' = Inr p)
     \<and> (\<exists>t. env_read_to_string E [] ''/proc/sys/net/ipv4/ip_forward'' = Inr t \<and> trim t = ''1'')
     \<and> (\<exists>out. runs E ''nft'' [''list'', ''table'', ''firecracker''] out
          \<and> contains out ''chain postrouting'' \<and> contains out ''chain filter'')"

lemma yields_resolve [yielding]:
  "unchanging E \<Longrightarrow> yields (resolve_binary_path E v d) (binary_at E v d)"
  by (rule yieldsI)
    (auto simp: resolve_binary_path_def binary_at_def env_lookup_def which_context_def which_def
      Let_def unchangingD split: sum.split)

lemma yields_command [yielding]:
  "unchanging E \<Longrightarrow> checked_command as \<Longrightarrow>
   yields (io_context msg (command_output E p as)) (\<lambda>r. env_exec E [] p as = Inr r)"
  by (rule yieldsI) (auto simp: io_context_def command_output_def unchangingD split: sum.split)

lemma yields_firecracker [yielding]:
  assumes "unchanging E"
  shows "yields (check_firecracker_binary E) (\<lambda>(out, path). binary_at E ''FIRECRACKER_BIN'' ''firecracker'' path
           \<and> out \<noteq> [] \<and> (\<exists>raw. runs E path [''--version''] raw \<and> out = trim raw))"
proof -
  have "yields (if \<not> status_success r then ret (Inl [''Firecracker execution failed: '' @ stderr r])
     else let v = trim (stdout r) in if v = [] then ret (Inl [''Firecracker version output was empty''])
       else ret (Inr (v, path)))
     (\<lambda>x. status_success r \<and> trim (stdout r) \<noteq> [] \<and> x = (trim (stdout r), path))" for r path
    by (rule yieldsI) (auto simp: Let_def)
  from yields_and_then [OF yields_resolve [OF assms] yields_and_then [OF yields_command [OF assms checked_commands(1)] this]]
  show ?thesis unfolding check_firecracker_binary_def
    by (rule back_subst [of "yields _"]) (auto simp: runs_def fun_eq_iff)
qed

lemma yields_jailer [yielding]:
  assumes "unchanging E"
  shows "yields (check_jailer_binary E) (\<lambda>path. binary_at E ''JAILER_BIN'' ''jailer'' path
           \<and> (\<exists>out. runs E path [''--version''] out))"
proof -
  have "yields (if \<not> status_success r then ret (Inl [''Jailer execution failed: '' @ stderr r])
     else ret (Inr path)) (\<lambda>x. status_success r \<and> x = path)" for r path
    by (rule yieldsI) auto
  from yields_and_then [OF yields_resolve [OF assms] yields_and_then [OF yields_command [OF assms checked_commands(1)] this]]
  show ?thesis unfolding check_jailer_binary_def
    by (rule back_subst [of "yields _"]) (auto simp: runs_def fun_eq_iff)
qed

lemma yields_kvm [yielding]:
  "unchanging E \<Longrightarrow> yields (check_kvm_available E)
     (\<lambda>_. env_exists E [] ''/dev/kvm'' \<and> (\<exists>d. env_metadata_dev E [] ''/dev/kvm'' = Inr d))"
  by (rule yieldsI)
    (auto simp: check_kvm_available_def path_exists_def path_metadata_def unchangingD split: sum.splits)

lemma find_jailer_user_iff:
  "find_jailer_user (show_nat JAILER_UID) ls = Inr x \<longleftrightarrow>
     (\<exists>before line after. ls = map Inr before @ Inr line # after \<and> has_jailer_uid line)"
proof (induction ls)
  case (Cons l ls)
  have uid: "show_nat JAILER_UID = ''1100''" by code_simp
  show ?case
  proof (cases l)
    case (Inl e)
    then show ?thesis by (auto simp: Cons_eq_append_conv)
  next
    case (Inr line)
    show ?thesis
    proof (cases "has_jailer_uid line")
      case True
      then have "find_jailer_user (show_nat JAILER_UID) (l # ls) = Inr x"
        using Inr by (simp add: has_jailer_uid_def uid Let_def)
      moreover have "l # ls = map Inr [] @ Inr line # ls" using Inr by simp
      ultimately show ?thesis using True by blast
    next
      case False
      then have "find_jailer_user (show_nat JAILER_UID) (l # ls) = find_jailer_user (show_nat JAILER_UID) ls"
        using Inr by (auto simp: has_jailer_uid_def uid Let_def)
      moreover have "(\<exists>b m a. l # ls = map Inr b @ Inr m # a \<and> has_jailer_uid m) \<longleftrightarrow>
        (\<exists>b m a. ls = map Inr b @ Inr m # a \<and> has_jailer_uid m)"
      proof
        assume "\<exists>b m a. l # ls = map Inr b @ Inr m # a \<and> has_jailer_uid m"
        then obtain b m a where "l # ls = map Inr b @ Inr m # a" "has_jailer_uid m" by blast
        with False Inr show "\<exists>b m a. ls = map Inr b @ Inr m # a \<and> has_jailer_uid m" by (cases b) auto
      next
        assume "\<exists>b m a. ls = map Inr b @ Inr m # a \<and> has_jailer_uid m"
        then obtain b m a where "ls = map Inr b @ Inr m # a" "has_jailer_uid m" by blast
        with Inr have "l # ls = map Inr (line # b) @ Inr m # a \<and> has_jailer_uid m" by simp
        then show "\<exists>b m a. l # ls = map Inr b @ Inr m # a \<and> has_jailer_uid m" by blast
      qed
      ultimately show ?thesis using Cons.IH by simp
    qed
  qed
qed simp

lemma yields_user [yielding]: "unchanging E \<Longrightarrow> yields (check_jailer_user E) (\<lambda>_. jailer_user_exists E)"
  by (rule yieldsI)
    (auto simp: check_jailer_user_def and_then_def io_context_def read_lines_def unchangingD
      jailer_user_exists_def find_jailer_user_iff split: sum.split)

lemma yields_filesystem [yielding]:
  "unchanging E \<Longrightarrow> yields (check_jailer_filesystem E) (\<lambda>_. same_filesystem E ''/opt/firecracker'' ''/srv/jailer'')"
  by (rule yieldsI)
    (auto simp: check_jailer_filesystem_def and_then_def io_context_def path_exists_def path_metadata_def
      same_filesystem_def unchangingD split: sum.split)

lemma yields_images [yielding]:
  "unchanging E \<Longrightarrow> yields (check_vm_images_dir E) (\<lambda>_. env_exists E [] VM_IMAGES_DIR)"
  by (rule yieldsI) (auto simp: check_vm_images_dir_def path_exists_def unchangingD)

lemma yields_vsock [yielding]:
  "unchanging E \<Longrightarrow> yields (check_vsock_dir E) (\<lambda>_. env_exists E [] ''/srv/jailer/vsock''
     \<or> env_create_dir_all E [] ''/srv/jailer/vsock'' = Inr ())"
  by (rule yieldsI)
    (auto simp: check_vsock_dir_def io_context_def path_exists_def fs_create_dir_all_def unchangingD
      split: sum.split)

lemma yields_networking [yielding]:
  "unchanging E \<Longrightarrow> yields (check_networking_prerequisites E) (\<lambda>_. network_ready E)"
  by (rule yieldsI)
    (auto simp: check_networking_prerequisites_def and_then_def io_context_def which_context_def which_def
      read_to_string_def command_output_def network_ready_def runs_def unchangingD split: sum.split)

definition dev_mode :: "env \<Rightarrow> bool" where
  "dev_mode E \<longleftrightarrow> env_var E [] ''WARLOCK_DEV'' = Some ''true'' \<or> env_var E [] ''RUST_ENV'' = Some ''development''"

definition best_strategy :: "env \<Rightarrow> copy_strategy" where
  "best_strategy E =
     (if env_write E [] probe_src ''probe'' = Inr ()
         \<and> succeeded (env_exec E [] ''cp'' [''--reflink=always'', probe_src, probe_dst])
      then Reflink else Sparse)"

definition interface_is :: "env \<Rightarrow> string \<Rightarrow> bool" where
  "interface_is E name \<longleftrightarrow>
     env_var E [] ''WARLOCK_HOST_IFACE'' = Some name
     \<or> env_var E [] ''WARLOCK_HOST_IFACE'' = None
       \<and> (\<exists>out. runs E ''ip'' [''route'', ''show'', ''default''] out
             \<and> word_after_dev (split_whitespace out) = Some name)"

lemma answers_dev [yielding]: "unchanging E \<Longrightarrow> answers (is_dev_mode E) (dev_mode E)"
  by (simp add: answers_def is_dev_mode_def dev_mode_def env_lookup_def unchangingD)

lemma answers_cgroup [yielding]:
  "unchanging E \<Longrightarrow> answers (detect_cgroup_version E)
     (if env_exists E [] ''/sys/fs/cgroup/cgroup.controllers'' then 2 else 1)"
  by (simp add: answers_def detect_cgroup_version_def path_exists_def unchangingD)

lemma answers_strategy [yielding]: "unchanging E \<Longrightarrow> answers (detect_copy_strategy E) (best_strategy E)"
  by (auto simp: answers_def detect_copy_strategy_def best_strategy_def fs_remove_file_def fs_write_def
      command_output_def unchangingD succeeded_def split: sum.split)

lemma yields_assets:
  "unchanging E \<Longrightarrow> yields (resolve_assets E c s fp jp i) (\<lambda>cfg.
     env_canonicalize E [] ''/opt/firecracker/vmlinux'' = Inr (jc_kernel_path cfg)
     \<and> env_canonicalize E [] ''/opt/firecracker/rootfs.ext4'' = Inr (jc_rootfs_path cfg)
     \<and> jc_cgroup_version cfg = c \<and> jc_firecracker_path cfg = fp \<and> jc_jailer_path cfg = jp
     \<and> jc_vm_images_dir cfg = VM_IMAGES_DIR \<and> jc_copy_strategy cfg = s \<and> jc_host_interface cfg = i)"
  by (rule yieldsI)
    (auto simp: resolve_assets_def and_then_def io_context_def canonicalize_def unchangingD
      split: sum.split)

lemma interface_run:
  assumes "unchanging E"
  shows "fst (run_state (host_interface E) h) = Finished name \<longleftrightarrow> interface_is E name"
  using assms
  by (auto simp: host_interface_def interface_is_def env_lookup_def detect_host_interface_def
      run_cmd_output_def command_output_def runs_def unchangingD split: option.split sum.split if_splits)

definition rest_of :: "env \<Rightarrow> nat \<Rightarrow> copy_strategy \<Rightarrow> string \<Rightarrow> string \<Rightarrow> jailer_config \<Rightarrow> bool" where
  "rest_of E c s fp jp cfg \<longleftrightarrow> interface_is E (jc_host_interface cfg)
     \<and> env_canonicalize E [] ''/opt/firecracker/vmlinux'' = Inr (jc_kernel_path cfg)
     \<and> env_canonicalize E [] ''/opt/firecracker/rootfs.ext4'' = Inr (jc_rootfs_path cfg)
     \<and> jc_cgroup_version cfg = c \<and> jc_firecracker_path cfg = fp \<and> jc_jailer_path cfg = jp
     \<and> jc_vm_images_dir cfg = VM_IMAGES_DIR \<and> jc_copy_strategy cfg = s"

lemma yields_rest:
  assumes "unchanging E"
  shows "yields_outcome (preflight_interface E c s fp jp) (rest_of E c s fp jp)"
  unfolding yields_outcome_def
proof (intro allI)
  fix h cfg
  obtain o1 h1 where i: "run_state (host_interface E) h = (o1, h1)" by fastforce
  have if1: "o1 = Finished name \<longleftrightarrow> interface_is E name" for name
    using interface_run [OF assms, of h] i by simp
  show "fst (run_state (preflight_interface E c s fp jp) h) = Finished (Inr cfg) \<longleftrightarrow> rest_of E c s fp jp cfg"
  proof (cases o1)
    case Panicked
    with if1 i show ?thesis by (simp add: preflight_interface_def rest_of_def)
  next
    case (Finished name)
    then have n: "interface_is E x \<longleftrightarrow> x = name" for x unfolding if1 [symmetric] by auto
    obtain r h2 where r: "run_state (resolve_assets E c s fp jp name) h1 = (r, h2)" by fastforce
    have "run_state (preflight_interface E c s fp jp) h = (Finished r, h2)"
      using i r Finished by (simp add: preflight_interface_def)
    moreover have "r = Inr cfg \<longleftrightarrow> fst (run_state (resolve_assets E c s fp jp name) h1) = Inr cfg"
      using r by simp
    ultimately show ?thesis
      using yields_assets [OF assms, of c s fp jp name] n unfolding yields_def by (auto simp: rest_of_def)
  qed
qed

text \<open>The reference: what a host must offer, and the configuration it then gets.\<close>

definition host_ready :: "'v semver \<Rightarrow> env \<Rightarrow> jailer_config \<Rightarrow> bool" where
  "host_ready sv E cfg \<longleftrightarrow>
     binary_at E ''FIRECRACKER_BIN'' ''firecracker'' (jc_firecracker_path cfg)
     \<and> (\<exists>raw v. runs E (jc_firecracker_path cfg) [''--version''] raw \<and> trim raw \<noteq> []
          \<and> parse_and_validate_version sv (trim raw) = Finished (Inr v))
     \<and> binary_at E ''JAILER_BIN'' ''jailer'' (jc_jailer_path cfg)
     \<and> (\<exists>out. runs E (jc_jailer_path cfg) [''--version''] out)
     \<and> env_exists E [] ''/dev/kvm'' \<and> (\<exists>d. env_metadata_dev E [] ''/dev/kvm'' = Inr d)
     \<and> jailer_user_exists E
     \<and> same_filesystem E ''/opt/firecracker'' ''/srv/jailer''
     \<and> env_exists E [] VM_IMAGES_DIR
     \<and> (env_exists E [] ''/srv/jailer/vsock'' \<or> env_create_dir_all E [] ''/srv/jailer/vsock'' = Inr ())
     \<and> network_ready E
     \<and> rest_of E (if env_exists E [] ''/sys/fs/cgroup/cgroup.controllers'' then 2 else 1)
          (best_strategy E) (jc_firecracker_path cfg) (jc_jailer_path cfg) cfg"

lemma yields_version:
  assumes "\<And>v. parse_and_validate_version sv out = Finished (Inr v) \<Longrightarrow> yields_outcome m P"
  shows "yields_outcome (case parse_and_validate_version sv out of
      Panicked \<Rightarrow> ret Panicked
    | Finished (Inl e) \<Rightarrow> ret (Finished (Inl e))
    | Finished (Inr v) \<Rightarrow> m) (\<lambda>x. (\<exists>v. parse_and_validate_version sv out = Finished (Inr v)) \<and> P x)"
  using assms
  by (cases "parse_and_validate_version sv out") (auto simp: yields_outcome_def split: sum.split)

lemma yields_eq: "yields_outcome m P \<Longrightarrow> (\<And>x. P x \<longleftrightarrow> Q x) \<Longrightarrow> yields_outcome m Q"
  by (simp add: yields_outcome_def)

lemma yields_detect:
  assumes "unchanging E"
  shows "yields_outcome (preflight_detect E fp jp) (\<lambda>cfg. network_ready E \<and>
    rest_of E (if env_exists E [] ''/sys/fs/cgroup/cgroup.controllers'' then 2 else 1) (best_strategy E) fp jp cfg)"
  unfolding preflight_detect_def
  by (rule yields_outcome_bind [OF answers_cgroup [OF assms]], rule yields_outcome_bind [OF answers_strategy [OF assms]],
      rule yields_eq [OF yields_try_then [OF yields_networking [OF assms] yields_rest [OF assms]]]) simp

lemma yields_host:
  assumes "unchanging E"
  shows "yields_outcome (preflight_host E fp) (\<lambda>cfg.
     binary_at E ''JAILER_BIN'' ''jailer'' (jc_jailer_path cfg)
     \<and> (\<exists>out. runs E (jc_jailer_path cfg) [''--version''] out)
     \<and> env_exists E [] ''/dev/kvm'' \<and> (\<exists>d. env_metadata_dev E [] ''/dev/kvm'' = Inr d)
     \<and> jailer_user_exists E
     \<and> same_filesystem E ''/opt/firecracker'' ''/srv/jailer''
     \<and> env_exists E [] VM_IMAGES_DIR
     \<and> (env_exists E [] ''/srv/jailer/vsock'' \<or> env_create_dir_all E [] ''/srv/jailer/vsock'' = Inr ())
     \<and> network_ready E
     \<and> rest_of E (if env_exists E [] ''/sys/fs/cgroup/cgroup.controllers'' then 2 else 1)
          (best_strategy E) fp (jc_jailer_path cfg) cfg)"
  unfolding preflight_host_def
  by (rule yields_eq [OF yields_try_then [OF yields_jailer [OF assms]
    yields_try_then [OF yields_kvm [OF assms] yields_try_then [OF yields_user [OF assms]
    yields_try_then [OF yields_filesystem [OF assms] yields_try_then [OF yields_images [OF assms]
    yields_try_then [OF yields_vsock [OF assms] yields_detect [OF assms]]]]]]]]) (auto simp: rest_of_def)

lemma preflight_yields:
  assumes "unchanging E" and "\<not> dev_mode E"
  shows "yields_outcome (preflight_check sv E) (host_ready sv E)"
proof -
  have "yields_outcome (case a of (out, fp) \<Rightarrow>
       case parse_and_validate_version sv out of
         Panicked \<Rightarrow> ret Panicked
       | Finished (Inl e) \<Rightarrow> ret (Finished (Inl e))
       | Finished (Inr version) \<Rightarrow> preflight_host E fp)
     (\<lambda>cfg. (\<exists>v. parse_and_validate_version sv (fst a) = Finished (Inr v)) \<and> (
     binary_at E ''JAILER_BIN'' ''jailer'' (jc_jailer_path cfg)
     \<and> (\<exists>out. runs E (jc_jailer_path cfg) [''--version''] out)
     \<and> env_exists E [] ''/dev/kvm'' \<and> (\<exists>d. env_metadata_dev E [] ''/dev/kvm'' = Inr d)
     \<and> jailer_user_exists E
     \<and> same_filesystem E ''/opt/firecracker'' ''/srv/jailer''
     \<and> env_exists E [] VM_IMAGES_DIR
     \<and> (env_exists E [] ''/srv/jailer/vsock'' \<or> env_create_dir_all E [] ''/srv/jailer/vsock'' = Inr ())
     \<and> network_ready E
     \<and> rest_of E (if env_exists E [] ''/sys/fs/cgroup/cgroup.controllers'' then 2 else 1)
          (best_strategy E) (snd a) (jc_jailer_path cfg) cfg))" for a
    by (cases a) (simp add: yields_version [OF yields_host [OF assms(1)]])
  from yields_try_then [OF yields_firecracker [OF assms(1)] this]
  have "yields_outcome (if dev_mode E then ret (Finished (Inr dev_config)) else
    try_then (check_firecracker_binary E) (\<lambda>(out, fp).
       case parse_and_validate_version sv out of
         Panicked \<Rightarrow> ret Panicked
       | Finished (Inl e) \<Rightarrow> ret (Finished (Inl e))
       | Finished (Inr version) \<Rightarrow> preflight_host E fp)) (host_ready sv E)"
    unfolding if_not_P [OF assms(2)] by (rule yields_eq) (auto simp: host_ready_def rest_of_def)
  with answers_dev [OF assms(1)] show ?thesis
    unfolding preflight_check_def by (rule yields_outcome_bind)
qed

text \<open>C23: On a host that does not change meanwhile, the preflight check returns a configuration
  exactly when every requirement holds, and it is the one the host determines; in development mode
  it always returns the fixed development configuration and requires nothing.\<close>

theorem preflight_accepts_iff:
  assumes "unchanging E"
  shows "fst (run_state (preflight_check sv E) h) = Finished (Inr cfg) \<longleftrightarrow>
    (if dev_mode E then cfg = dev_config else host_ready sv E cfg)"
proof (cases "dev_mode E")
  case True
  obtain b h1 where d: "run_state (is_dev_mode E) h = (b, h1)" by fastforce
  then have "b" using True answers_dev [OF assms] unfolding answers_def by (metis fst_conv)
  with d True show ?thesis by (auto simp: preflight_check_def)
next
  case False
  with preflight_yields [OF assms False, of sv] show ?thesis by (simp add: yields_outcome_def)
qed

text \<open>A provisioned host with a rule in its table, and the configuration it gets.\<close>

definition busy_table :: string where
  "busy_table = ''chain postrouting'' @ [newline] @ ''ip saddr 172.16.0.2 masquerade'' @ [newline] @ ''chain filter''"

definition provisioned_env :: env where
  "provisioned_env = calm_env\<lparr>
     env_exists := (\<lambda>h p. True),
     env_exec := (\<lambda>h p as. Inr \<lparr>status_success = True,
       stdout = (if as = [''--version''] then ''Firecracker v1.15.0''
                 else if p = ''nft'' then busy_table
                 else ''default via 10.0.0.1 dev eth0''), stderr = []\<rparr>),
     env_read_to_string := (\<lambda>h p. Inr ''1''),
     env_read_lines := (\<lambda>h p. Inr [Inr ''root:x:0:0'', Inr ''firecracker:x:1100:1100''])\<rparr>"

definition provisioned_config :: jailer_config where
  "provisioned_config = \<lparr>jc_cgroup_version = 2, jc_firecracker_path = ''/usr/bin/firecracker'',
     jc_jailer_path = ''/usr/bin/jailer'', jc_kernel_path = ''/opt/firecracker/vmlinux'',
     jc_rootfs_path = ''/opt/firecracker/rootfs.ext4'', jc_vm_images_dir = VM_IMAGES_DIR,
     jc_copy_strategy = Reflink, jc_host_interface = ''eth0''\<rparr>"

text \<open>Its other commands may answer anything.\<close>

lemma provisioned_ready:
  assumes ex: "\<And>h p as. checked_command as \<Longrightarrow> ex h p as = env_exec provisioned_env [] p as"
    and E: "E = provisioned_env\<lparr>env_exec := ex, env_read_dir := rd\<rparr>"
  shows "unchanging E \<and> \<not> dev_mode E \<and> host_ready list_semver E provisioned_config"
proof -
  have e: "env_var E h n = None" "env_which E h n = Inr (''/usr/bin/'' @ n)" "env_exists E h n"
    "env_metadata_dev E h n = Inr 0" "env_read_to_string E h n = Inr ''1''" "env_canonicalize E h n = Inr n"
    "env_write E h n c = Inr ()"
    "env_read_lines E h n = Inr [Inr ''root:x:0:0'', Inr ''firecracker:x:1100:1100'']"
    "checked_command as \<Longrightarrow> env_exec E h p as = Inr \<lparr>status_success = True,
       stdout = (if as = [''--version''] then ''Firecracker v1.15.0''
                 else if p = ''nft'' then busy_table
                 else ''default via 10.0.0.1 dev eth0''), stderr = []\<rparr>" for h n c p as
    using ex [of as h p] by (simp_all add: E provisioned_env_def calm_env_def)
  have u: "unchanging E" using ex by (simp add: unchanging_def E provisioned_env_def calm_env_def)
  have s: "trim ''Firecracker v1.15.0'' = ''Firecracker v1.15.0''" "trim ''1'' = ''1''"
    "contains busy_table ''chain postrouting''"
    "contains busy_table ''chain filter''"
    "word_after_dev (split_whitespace ''default via 10.0.0.1 dev eth0'') = Some ''eth0''"
    "has_jailer_uid ''firecracker:x:1100:1100''"
    "parse_and_validate_version list_semver ''Firecracker v1.15.0'' = Finished (Inr [1, 15, 0])"
    by code_simp+
  have "[Inr ''root:x:0:0'', Inr ''firecracker:x:1100:1100''] =
    map Inr [''root:x:0:0''] @ Inr ''firecracker:x:1100:1100'' # ([] :: (io_error + string) list)" by simp
  then have "jailer_user_exists E" using s(6) unfolding jailer_user_exists_def e by blast
  moreover have "network_ready E" using s(2-4) by (simp add: network_ready_def runs_def e)
  moreover have "\<not> dev_mode E" by (simp add: dev_mode_def e)
  moreover have "is_absolute ''firecracker'' = False" "is_absolute ''jailer'' = False" by (simp_all add: is_absolute_def)
  ultimately show ?thesis using u s(1,5,7)
    by (simp add: host_ready_def provisioned_config_def binary_at_def runs_def rest_of_def
        same_filesystem_def best_strategy_def interface_is_def e)
qed

theorem preflight_accepts_iff_witness:
  "unchanging provisioned_env
    \<and> fst (run_state (preflight_check list_semver provisioned_env) []) = Finished (Inr provisioned_config)"
proof -
  have "provisioned_env = provisioned_env\<lparr>env_exec := env_exec provisioned_env, env_read_dir := env_read_dir provisioned_env\<rparr>"
    by simp
  moreover have "env_exec provisioned_env h p as = env_exec provisioned_env [] p as" for h p as
    by (simp add: provisioned_env_def)
  ultimately have "unchanging provisioned_env" "\<not> dev_mode provisioned_env"
    "host_ready list_semver provisioned_env provisioned_config"
    using provisioned_ready [of "env_exec provisioned_env" provisioned_env] by blast+
  then show ?thesis by (simp add: preflight_accepts_iff)
qed

end
