(* ===== verification/Main_Program.thy ===== *)
theory Main_Program
  imports Control_Plane Orphan Preflight
begin

text \<open>
  \<open>src/main.rs\<close>: startup (preflight check, clean sweep, capacity, optional gateway) and
  shutdown, which drains the VM map and gives back what every entry holds. The two servers in
  between and the binding of the listener are parameters of \<open>main\<close>: what they hand back
  is any result and any state.
\<close>

section \<open>Startup\<close>

definition init_gateway :: "env \<Rightarrow> gateway_client option io" where
  "init_gateway E = do {
     r \<leftarrow> gateway_new E;
     case r of
       Inl _ \<Rightarrow> ret None
     | Inr None \<Rightarrow> ret None
     | Inr (Some client) \<Rightarrow> do {
         registered \<leftarrow> gw_register E client;
         ret (case registered of Inl _ \<Rightarrow> None | Inr _ \<Rightarrow> Some client)
       }
   }"

text \<open>The numbers of the system are arguments, as for \<open>available_capacity\<close>, which cannot fail.\<close>

definition startup ::
  "'v semver \<Rightarrow> env \<Rightarrow> u64 \<Rightarrow> u64 option \<Rightarrow> (anyhow + app_state) outcome io" where
  "startup sv E total_memory_bytes parallelism = do {
     checked \<leftarrow> preflight_check sv E;
     case checked of
       Panicked \<Rightarrow> ret Panicked
     | Finished (Inl e) \<Rightarrow> ret (Finished (Inl (context_msg ''Firecracker pre-flight check failed'' e)))
     | Finished (Inr jailer_config) \<Rightarrow> do {
         _ \<leftarrow> cleanup_orphans E (jc_vm_images_dir jailer_config);
         gateway_client \<leftarrow> init_gateway E;
         ret (Finished (Inr (create_app (available_capacity total_memory_bytes parallelism)
           jailer_config gateway_client)))
       }
   }"

section \<open>The signal to stop\<close>

datatype stop_signal = CtrlC | Sigterm

text \<open>
  The future the HTTP server waits for, after the signals received so far: \<open>None\<close> while it is
  pending. Each handler is installed when the future is first polled, and a failure to install
  one is a panic; after that the first signal of either kind completes it. This is the Unix
  variant of the code.
\<close>

definition shutdown_signal ::
  "string + unit \<Rightarrow> string + unit \<Rightarrow> stop_signal list \<Rightarrow> stop_signal outcome option" where
  "shutdown_signal ctrl_c_handler terminate_handler received =
     (case (ctrl_c_handler, terminate_handler) of
        (Inr _, Inr _) \<Rightarrow>
          (case received of [] \<Rightarrow> None | signal # _ \<Rightarrow> Some (Finished signal))
      | _ \<Rightarrow> Some Panicked)"

text \<open>It waits for a signal, and once it is complete, later signals change nothing.\<close>

lemma shutdown_signal_waits: "shutdown_signal c t received = None \<longleftrightarrow> \<not> isl c \<and> \<not> isl t \<and> received = []"
  by (cases c; cases t; cases received) (simp_all add: shutdown_signal_def)

lemma shutdown_signal_stable: "shutdown_signal c t received = Some r \<Longrightarrow> shutdown_signal c t (received @ later) = Some r"
  by (cases c; cases t; cases received) (simp_all add: shutdown_signal_def)

section \<open>Shutdown\<close>

definition shutdown_entry :: "env \<Rightarrow> vm_entry \<Rightarrow> unit outcome handler" where
  "shutdown_entry E entry = do {
     resources \<leftarrow> (case entry of
         Running inst r \<Rightarrow> do {
           _ \<leftarrow> lift_io (sdk_request E inst StopInstance);
           _ \<leftarrow> lift_io (drop_instance inst);
           ret r
         }
       | Creating r \<Rightarrow> ret r);
     _ \<leftarrow> (case vr_tap_name resources of None \<Rightarrow> ret () | Some name \<Rightarrow> lift_io (delete_tap E name));
     _ \<leftarrow> (case vr_nat_handles resources of
             None \<Rightarrow> ret () | Some handles \<Rightarrow> lift_io (remove_nat_rules E handles));
     released \<leftarrow> (case vr_subnet_index resources of
                    None \<Rightarrow> ret (Finished ()) | Some i \<Rightarrow> pool_lock_release i);
     case released of
       Panicked \<Rightarrow> ret Panicked
     | Finished _ \<Rightarrow> do {
         _ \<leftarrow> (case vr_rootfs_copy resources of
                 None \<Rightarrow> ret ()
               | Some path \<Rightarrow> do { _ \<leftarrow> lift_io (fs_remove_file E path); ret () });
         ret (Finished ())
       }
   }"

fun shutdown_entries :: "env \<Rightarrow> vm_entry list \<Rightarrow> unit outcome handler" where
  "shutdown_entries E [] = ret (Finished ())"
| "shutdown_entries E (e # es) = do {
     r \<leftarrow> shutdown_entry E e;
     case r of
       Panicked \<Rightarrow> ret Panicked
     | Finished _ \<Rightarrow> shutdown_entries E es
   }"

fun deregister_all :: "env \<Rightarrow> gateway_client \<Rightarrow> uuid list \<Rightarrow> unit io" where
  "deregister_all E client [] = ret ()"
| "deregister_all E client (u # us) = do {
     _ \<leftarrow> gw_deregister_vm E client u;
     deregister_all E client us
   }"

text \<open>The lock on the map is held throughout, so it does not matter when \<open>drain\<close> empties it.\<close>

definition shutdown :: "env \<Rightarrow> unit outcome handler" where
  "shutdown E = do {
     s \<leftarrow> get_app;
     if st_vms s = [] then ret (Finished ())
     else do {
       _ \<leftarrow> (case st_gateway s of
               None \<Rightarrow> ret ()
             | Some client \<Rightarrow> lift_io (deregister_all E client (map fst (st_vms s))));
       _ \<leftarrow> put_vms [];
       shutdown_entries E (hm_values (st_vms s))
     }
   }"

text \<open>The program: its result, the history it leaves and the VMs registered when it ends.\<close>

definition main ::
  "'v semver \<Rightarrow> env \<Rightarrow> u64 \<Rightarrow> u64 option \<Rightarrow> (history \<Rightarrow> string + unit)
   \<Rightarrow> (world \<Rightarrow> (anyhow + unit) \<times> world) \<Rightarrow> history \<Rightarrow> (anyhow + unit) outcome \<times> history \<times> vm_map" where
  "main sv E total_memory_bytes parallelism listen serve h =
     (case run_state (startup sv E total_memory_bytes parallelism) h of
        (Panicked, h) \<Rightarrow> (Panicked, h, [])
      | (Finished (Inl e), h) \<Rightarrow> (Finished (Inl e), h, [])
      | (Finished (Inr state), h) \<Rightarrow>
          (case listen h of
             Inl e \<Rightarrow> (Finished (Inl (context_msg ''Unable to bind HTTP listener.'' [e])), h, [])
           | Inr _ \<Rightarrow>
               (case serve \<lparr>hist = h, app = state\<rparr> of
                  (Inl e, w) \<Rightarrow> (Finished (Inl e), hist w, st_vms (app w))
                | (Inr _, w) \<Rightarrow>
                    (case run_state (shutdown E) w of
                       (Panicked, w) \<Rightarrow> (Panicked, hist w, st_vms (app w))
                     | (Finished _, w) \<Rightarrow> (Finished (Inr ()), hist w, st_vms (app w))))))"

section \<open>What startup does\<close>

definition gateway_event :: "event \<Rightarrow> bool" where
  "gateway_event e = (case e of EvQuery _ _ \<Rightarrow> True | EvHttp rq _ \<Rightarrow> req_method rq = POST | _ \<Rightarrow> False)"

lemma appends_init_gateway: "appends gateway_event (init_gateway E)"
  unfolding init_gateway_def gateway_new_def hostname_get_def gw_register_def send_checked_def http_send_def
  by (intro footprint) (simp_all add: gateway_event_def)


section \<open>What shutdown gives back\<close>

text \<open>The teardown in \<open>main\<close> and the one in \<open>cleanup_vm_resources\<close> are two copies of one
  procedure: on every entry and in every state they do the same, call by call.\<close>

lemma shutdown_entry_eq: "run_state (shutdown_entry E e) w = run_state (cleanup_vm_resources E e) w"
  by (cases e) (auto simp: shutdown_entry_def cleanup_vm_resources_def teardown_entry_def stop_and_drop_def
      teardown_network_def release_resources_def cleanup_rootfs_copy_def prims
      split: option.split outcome.split prod.split)

lemma tidy_delete_any:
  assumes "tidy_host E"
  shows "host_view (snd (run_state (delete_tap E n) h)) = (live_taps h - {n}, live_rules h, live_copies h)"
proof (cases "n \<in> live_taps h")
  case True
  then show ?thesis by (rule tidy_delete_tap [OF assms])
next
  case False
  have "snd (run_state (delete_tap E n) h) = h @ [EvExec ''ip'' (ip_link_del n) (env_exec E h ''ip'' (ip_link_del n))]"
    using arg_cong [OF run_cmd_result [of E "''ip''" "ip_link_del n" h], of snd]
    by (auto simp: delete_tap_def split: prod.split)
  with False have "live_taps (snd (run_state (delete_tap E n) h)) = live_taps h - {n}" by simp
  then show ?thesis by (simp add: host_view_def delete_tap_keeps_rules network_keeps_copies)
qed

lemma teardown_network_view:
  assumes "tidy_host E"
  shows "host_view (snd (run_state (teardown_network E r) h)) =
    (live_taps h - set_option (vr_tap_name r), live_rules h - (if vr_nat_handles r = None then 0 else 2),
     live_copies h)"
proof -
  obtain h1 where d: "snd (run_state (case vr_tap_name r of None \<Rightarrow> ret () | Some n \<Rightarrow> delete_tap E n) h) = h1"
    by blast
  have v: "host_view h1 = (live_taps h - set_option (vr_tap_name r), live_rules h, live_copies h)"
    using d tidy_delete_any [OF assms, of _ h] by (cases "vr_tap_name r") (auto simp: host_view_def)
  have "snd (run_state (teardown_network E r) h) =
      snd (run_state (case vr_nat_handles r of None \<Rightarrow> ret () | Some hs \<Rightarrow> remove_nat_rules E hs) h1)"
    using d by (auto simp: teardown_network_def split: prod.split)
  then show ?thesis
    using v tidy_remove_rules [OF assms, of _ h1] by (cases "vr_nat_handles r") (simp_all add: host_view_def)
qed

definition entry_holds :: "vm_entry \<Rightarrow> u16 set \<times> string set \<times> int \<times> string set" where
  "entry_holds e = (let r = entry_resources e in
     (set_option (vr_subnet_index r), set_option (vr_tap_name r),
      if vr_nat_handles r = None then 0 else 2, set_option (vr_rootfs_copy r)))"

lemma cleanup_view:
  assumes tidy: "tidy_host E" and ok: "pool_ok (st_pool (app w))"
    and i: "vr_subnet_index (entry_resources e) = Some i" "i \<in> pool_range"
    and holds: "entry_holds e = (I, T, n, C)"
  shows "\<exists>w' q. run_state (shutdown_entry E e) w = (Finished (), w') \<and> app w' = (app w)\<lparr>st_pool := q\<rparr>
    \<and> pool_ok q \<and> pool_used q = pool_used (st_pool (app w)) - I
    \<and> host_view (hist w') = (live_taps (hist w) - T, live_rules (hist w) - n, live_copies (hist w) - C)"
proof -
  let ?r = "entry_resources e"
  obtain h1 where h1: "snd (run_state (teardown_entry E e) (hist w)) = h1" by blast
  have "\<exists>h0. host_view h0 = host_view (hist w) \<and> h1 = snd (run_state (teardown_network E ?r) h0)"
  proof (cases e)
    case (Creating r)
    with h1 show ?thesis by (auto simp: teardown_entry_def)
  next
    case (Running inst r)
    obtain u h0 where d: "run_state (stop_and_drop E inst) (hist w) = (u, h0)"
      by (cases "run_state (stop_and_drop E inst) (hist w)")
    with neutral_view [OF appends_stop_and_drop, of E inst "hist w"] Running h1 show ?thesis
      by (intro exI [of _ h0]) (simp add: teardown_entry_def)
  qed
  then obtain h0 where h0: "host_view h0 = host_view (hist w)" "h1 = snd (run_state (teardown_network E ?r) h0)" by blast
  have v: "host_view h1 = (live_taps (hist w) - T, live_rules (hist w) - n, live_copies (hist w))"
    using teardown_network_view [OF tidy, of ?r h0] h0 holds by (auto simp: host_view_def entry_holds_def Let_def)
  obtain q where q: "pool_release i (st_pool (app w)) = Some q" "pool_ok q"
    "pool_used q = pool_used (st_pool (app w)) - {i}" using subnets.release_ok [OF ok i(2)] by blast
  have "run_state (shutdown_entry E e) w = run_state (release_resources E ?r) (w\<lparr>hist := h1\<rparr>)"
    using h1 unfolding shutdown_entry_eq by (simp add: cleanup_vm_resources_def prims)
  moreover have "I = {i}" "C = set_option (vr_rootfs_copy ?r)"
    using i(1) holds by (simp_all add: entry_holds_def Let_def)
  ultimately show ?thesis
    using q i v tidy_cleanup_copy [OF tidy, of _ h1]
    by (cases "vr_rootfs_copy ?r") (auto simp: release_resources_def prims host_view_def)
qed

definition all_hold :: "vm_entry list \<Rightarrow> u16 set \<times> string set \<times> int \<times> string set" where
  "all_hold es =
     (\<Union>e \<in> set es. fst (entry_holds e), \<Union>e \<in> set es. fst (snd (entry_holds e)),
      \<Sum>e \<leftarrow> es. fst (snd (snd (entry_holds e))), \<Union>e \<in> set es. snd (snd (snd (entry_holds e))))"

lemma shutdown_entries_view:
  assumes tidy: "tidy_host E"
  shows "pool_ok (st_pool (app w)) \<Longrightarrow> \<forall>e \<in> set es. res_ok (entry_resources e) \<Longrightarrow> all_hold es = (I, T, n, C) \<Longrightarrow>
    \<exists>w' q. run_state (shutdown_entries E es) w = (Finished (), w') \<and> app w' = (app w)\<lparr>st_pool := q\<rparr>
    \<and> pool_ok q \<and> pool_used q = pool_used (st_pool (app w)) - I
    \<and> host_view (hist w') = (live_taps (hist w) - T, live_rules (hist w) - n, live_copies (hist w) - C)"
proof (induction es arbitrary: w I T n C)
  case Nil
  then show ?case by (simp add: all_hold_def host_view_def) (metis app_state.surjective app_state.update_convs(4))
next
  case (Cons e es)
  obtain i where i: "vr_subnet_index (entry_resources e) = Some i" "i \<in> pool_range"
    using Cons.prems(2) by (auto simp: res_ok_def)
  obtain I1 T1 n1 C1 where h1: "entry_holds e = (I1, T1, n1, C1)" by (cases "entry_holds e")
  obtain I2 T2 n2 C2 where h2: "all_hold es = (I2, T2, n2, C2)" by (cases "all_hold es")
  have eq: "I = I1 \<union> I2" "T = T1 \<union> T2" "n = n1 + n2" "C = C1 \<union> C2"
    using Cons.prems(3) h1 h2 by (auto simp: all_hold_def)
  from cleanup_view [OF tidy Cons.prems(1) i h1] obtain w1 q1 where w1:
    "run_state (shutdown_entry E e) w = (Finished (), w1)" "app w1 = (app w)\<lparr>st_pool := q1\<rparr>" "pool_ok q1"
    "pool_used q1 = pool_used (st_pool (app w)) - I1"
    "host_view (hist w1) = (live_taps (hist w) - T1, live_rules (hist w) - n1, live_copies (hist w) - C1)" by blast
  have "pool_ok (st_pool (app w1))" "\<forall>e \<in> set es. res_ok (entry_resources e)" using w1(2,3) Cons.prems(2) by simp_all
  from Cons.IH [OF this h2] obtain w2 q2 where w2:
    "run_state (shutdown_entries E es) w1 = (Finished (), w2)" "app w2 = (app w1)\<lparr>st_pool := q2\<rparr>" "pool_ok q2"
    "pool_used q2 = pool_used (st_pool (app w1)) - I2"
    "host_view (hist w2) = (live_taps (hist w1) - T2, live_rules (hist w1) - n2, live_copies (hist w1) - C2)" by blast
  have "run_state (shutdown_entries E (e # es)) w = (Finished (), w2)" using w1(1) w2(1) by simp
  moreover have "app w2 = (app w)\<lparr>st_pool := q2\<rparr>" "pool_used q2 = pool_used (st_pool (app w)) - I"
    using w1(2,4) w2(2,4) eq by auto
  moreover have "host_view (hist w2) = (live_taps (hist w) - T, live_rules (hist w) - n, live_copies (hist w) - C)"
    using w1(5) w2(5) eq by (auto simp: host_view_def)
  ultimately show ?case using w2(3) by blast
qed

lemma appends_deregister_all: "appends ledger_neutral (deregister_all E c us)"
  by (induction us) (simp_all add: appends_return appends_bind appends_gw_neutral)

lemma shutdown_view:
  assumes "tidy_host E" and "reachable E allowed s" and "all_hold (hm_values (sys_vms s)) = (I, T, n, C)"
    and "run_state (shutdown E) (sys_world s) = (r, w')"
  shows "r = Finished () \<and> st_vms (app w') = [] \<and> pool_used (st_pool (app w')) = pool_used (sys_pool s) - I
    \<and> live_taps (hist w') = live_taps (hist (sys_world s)) - T
    \<and> live_rules (hist w') = live_rules (hist (sys_world s)) - n
    \<and> live_copies (hist w') = live_copies (hist (sys_world s)) - C"
proof (cases "sys_vms s = []")
  case True
  with assms(3,4) show ?thesis
    by (auto simp: shutdown_def prims sys_vms_def sys_pool_def all_hold_def hm_values_def)
next
  case False
  let ?w = "sys_world s"
  from reachable_inv [OF assms(2)] have i: "hm_ok (sys_vms s)" "pool_ok (sys_pool s)" "entries_ok (sys_vms s) (drawn s)"
    by (simp_all add: inv_def store_ok_def)
  have res: "\<forall>e \<in> set (hm_values (sys_vms s)). res_ok (entry_resources e)"
    using i(1,3) by (auto simp: hm_values_def entries_ok_def hm_get_in_set)
  define h1 where "h1 = snd (run_state (case st_gateway (app ?w) of None \<Rightarrow> ret ()
    | Some c \<Rightarrow> deregister_all E c (map fst (sys_vms s))) (hist ?w))"
  have v: "host_view h1 = host_view (hist ?w)"
    using neutral_view [OF appends_deregister_all] by (simp add: h1_def split: option.split)
  let ?w1 = "\<lparr>hist = h1, app = (app ?w)\<lparr>st_vms := []\<rparr>\<rparr>"
  have "run_state (shutdown E) ?w = run_state (shutdown_entries E (hm_values (sys_vms s))) ?w1"
    using False by (cases "sys_world s") (simp add: shutdown_def prims sys_vms_def h1_def split: option.split)
  moreover have "pool_ok (st_pool (app ?w1))" using i(2) by (simp add: sys_pool_def)
  ultimately show ?thesis
    using shutdown_entries_view [OF assms(1) _ res assms(3), of ?w1] v assms(4)
    by (auto simp: host_view_def sys_pool_def)
qed



section \<open>How the program ends\<close>

text \<open>The program ends well only through shutdown: it returns success only if startup and the
  binding succeeded and the servers stopped without an error, and then the drain ran on the state
  they left. When a server fails instead, the program ends with its error and runs no cleanup at
  all: the VMs of the map keep running and stay registered, and the history is the server's.\<close>

theorem main_end:
  assumes "main sv E bytes par listen serve h = (r, h', vms)"
  shows "(r = Finished (Inr ()) \<longrightarrow> (\<exists>st h1 w w'. run_state (startup sv E bytes par) h = (Finished (Inr st), h1)
      \<and> listen h1 = Inr () \<and> serve \<lparr>hist = h1, app = st\<rparr> = (Inr (), w)
      \<and> run_state (shutdown E) w = (Finished (), w') \<and> h' = hist w' \<and> vms = st_vms (app w')))
    \<and> (\<forall>st h1 e w. run_state (startup sv E bytes par) h = (Finished (Inr st), h1) \<longrightarrow> listen h1 = Inr ()
      \<longrightarrow> serve \<lparr>hist = h1, app = st\<rparr> = (Inl e, w)
      \<longrightarrow> r = Finished (Inl e) \<and> h' = hist w \<and> vms = st_vms (app w))"
proof (intro conjI allI impI)
  fix st h1 e w
  assume "run_state (startup sv E bytes par) h = (Finished (Inr st), h1)" "listen h1 = Inr ()"
    "serve \<lparr>hist = h1, app = st\<rparr> = (Inl e, w)"
  with assms show "r = Finished (Inl e)" "h' = hist w" "vms = st_vms (app w)" by (simp_all add: main_def)
next
  assume r: "r = Finished (Inr ())"
  obtain p h1 where p: "run_state (startup sv E bytes par) h = (p, h1)" by fastforce
  with assms r obtain st where st: "p = Finished (Inr st)"
    by (auto simp: main_def split: outcome.splits sum.splits)
  with assms r p have l: "listen h1 = Inr ()" by (auto simp: main_def split: sum.splits)
  obtain q w where q: "serve \<lparr>hist = h1, app = st\<rparr> = (q, w)" by fastforce
  with assms r p st l have "q = Inr ()" by (auto simp: main_def split: sum.splits)
  moreover obtain d w' where d: "run_state (shutdown E) w = (d, w')" by fastforce
  ultimately have "d = Finished ()" "h' = hist w'" "vms = st_vms (app w')"
    using assms r p st l q by (auto simp: main_def split: outcome.splits)
  with p st l q d \<open>q = Inr ()\<close>
  show "\<exists>st h1 w w'. run_state (startup sv E bytes par) h = (Finished (Inr st), h1)
      \<and> listen h1 = Inr () \<and> serve \<lparr>hist = h1, app = st\<rparr> = (Inr (), w)
      \<and> run_state (shutdown E) w = (Finished (), w') \<and> h' = hist w' \<and> vms = st_vms (app w')"
    by blast
qed

definition dev_env :: env where
  "dev_env = calm_env\<lparr>env_var := (\<lambda>h n. if n = ''WARLOCK_DEV'' then Some ''true'' else None)\<rparr>"

theorem main_end_witness:
  "fst (main list_semver dev_env 0 None (\<lambda>_. Inr ()) (\<lambda>w. (Inl [''SSH server failed''], w)) []) =
     Finished (Inl [''SSH server failed''])"
proof -
  have p: "run_state (preflight_check list_semver dev_env) [] =
      (Finished (Inr dev_config), [EvQuery ''env'' ''WARLOCK_DEV''])"
    by (simp add: preflight_check_def is_dev_mode_def env_lookup_def dev_env_def)
  obtain b h2 where c: "run_state (cleanup_orphans dev_env (jc_vm_images_dir dev_config))
      [EvQuery ''env'' ''WARLOCK_DEV''] = (b, h2)" by fastforce
  obtain gw h3 where g: "run_state (init_gateway dev_env) h2 = (gw, h3)" by fastforce
  have st: "run_state (startup list_semver dev_env 0 None) [] =
      (Finished (Inr (create_app (available_capacity 0 None) dev_config gw)), h3)"
    using p c g by (simp add: startup_def)
  obtain r h' vms where m: "main list_semver dev_env 0 None (\<lambda>_. Inr ())
      (\<lambda>w. (Inl [''SSH server failed''], w)) [] = (r, h', vms)" by (metis prod_cases3)
  from main_end [OF m] st m show ?thesis by simp
qed

end
