(* ===== verification/Ssh_Keys.thy ===== *)
theory Ssh_Keys
  imports Host Vm_Config
begin

text \<open>
  \<open>src/ssh/auth.rs\<close>, \<open>authorized_keys.rs\<close> and \<open>host_key.rs\<close>: which VM a user name means,
  whether a key is among a VM's authorized keys, and the server's persistent host key. The
  cryptography of \<open>russh_keys\<close> and \<open>ssh_key\<close> (parsing, generating, encoding keys) is a
  parameter.
\<close>

section \<open>User names\<close>

definition parse_vm_id_from_username :: "env \<Rightarrow> string \<Rightarrow> anyhow + uuid option" where
  "parse_vm_id_from_username E username =
     (case strip_prefix username ''vm-'' of
        Some uuid_str \<Rightarrow>
          (case env_uuid_parse E uuid_str of
             Some vm_id \<Rightarrow> Inr (Some vm_id)
           | None \<Rightarrow> Inl [''Invalid VM UUID in username: '' @ uuid_str])
      | None \<Rightarrow> Inr None)"

lemma username_roundtrip:
  "env_uuid_parse E (env_uuid_to_string E u) = Some u \<Longrightarrow>
   parse_vm_id_from_username E (''vm-'' @ env_uuid_to_string E u) = Inr (Some u)"
  by (simp add: parse_vm_id_from_username_def strip_prefix_append del: append_Cons)

section \<open>Authorized keys\<close>

text \<open>\<open>russh_keys::key::PublicKey\<close> as the source matches on it.\<close>

datatype ('ed, 'rsa, 'hash, 'ec) public_key =
    Ed25519 'ed
  | RSA 'rsa 'hash
  | EC 'ec

fun keys_equal :: "('ed, 'rsa, 'hash, 'ec) public_key \<Rightarrow> ('ed, 'rsa, 'hash, 'ec) public_key \<Rightarrow> bool" where
  "keys_equal (Ed25519 a_key) (Ed25519 b_key) = (a_key = b_key)"
| "keys_equal (RSA a_key _) (RSA b_key _) = (a_key = b_key)"
| "keys_equal (EC a_key) (EC b_key) = (a_key = b_key)"
| "keys_equal _ _ = False"

text \<open>The loop of \<open>is_key_authorized\<close>; \<open>parse\<close> is \<open>russh_keys::parse_public_key_base64\<close>.\<close>

fun authorized_loop ::
  "(string \<Rightarrow> string + ('ed, 'rsa, 'hash, 'ec) public_key) \<Rightarrow> ('ed, 'rsa, 'hash, 'ec) public_key
   \<Rightarrow> string list \<Rightarrow> bool" where
  "authorized_loop parse key [] = False"
| "authorized_loop parse key (line # rest) =
     (let authorized_key = trim line
      in if authorized_key = [] \<or> starts_with authorized_key ''#'' then authorized_loop parse key rest
         else let parts = split_whitespace authorized_key
              in if length parts < 2 then authorized_loop parse key rest
                 else (case parse (parts ! 1) of
                         Inl _ \<Rightarrow> authorized_loop parse key rest
                       | Inr auth_key \<Rightarrow>
                           if keys_equal key auth_key then True else authorized_loop parse key rest))"

definition is_key_authorized ::
  "(string \<Rightarrow> string + ('ed, 'rsa, 'hash, 'ec) public_key) \<Rightarrow> ('ed, 'rsa, 'hash, 'ec) public_key
   \<Rightarrow> string list \<Rightarrow> anyhow + bool" where
  "is_key_authorized parse key authorized_keys =
     (if authorized_keys = [] then Inr False else Inr (authorized_loop parse key authorized_keys))"

lemma keys_equal_refl [simp]: "keys_equal k k"
  by (cases k) simp_all

lemma keys_equal_sym: "keys_equal a b = keys_equal b a"
  by (cases a; cases b) auto

lemma keys_equal_trans: "keys_equal a b \<Longrightarrow> keys_equal b c \<Longrightarrow> keys_equal a c"
  by (cases a; cases b; cases c) auto

text \<open>Trimming does not change the words of a line.\<close>

lemma words_from_ws: "\<forall>c \<in> set s. is_ws c \<Longrightarrow> words_from cur s = (if cur = [] then [] else [rev cur])"
  by (induction s arbitrary: cur) auto

lemma words_from_ws_end: "\<forall>c \<in> set t. is_ws c \<Longrightarrow> words_from cur (s @ t) = words_from cur s"
proof (induction s arbitrary: cur)
  case Nil
  then show ?case by (simp add: words_from_ws)
qed simp

lemma words_from_ws_start: "\<forall>c \<in> set t. is_ws c \<Longrightarrow> words_from [] (t @ s) = words_from [] s"
  by (induction t) simp_all

lemma trim_parts:
  obtains a b where "line = a @ trim line @ b" "\<forall>c \<in> set a. is_ws c" "\<forall>c \<in> set b. is_ws c"
proof
  let ?a = "takeWhile is_ws line" let ?m = "dropWhile is_ws line"
  let ?b = "rev (takeWhile is_ws (rev ?m))"
  have "rev ?m = takeWhile is_ws (rev ?m) @ dropWhile is_ws (rev ?m)" by simp
  then have "?m = rev (dropWhile is_ws (rev ?m)) @ ?b" by (metis rev_append rev_rev_ident)
  then show "line = ?a @ trim line @ ?b"
    unfolding trim_def trim_start_def trim_end_def by (metis takeWhile_dropWhile_id)
  show "\<forall>c \<in> set ?a. is_ws c" "\<forall>c \<in> set ?b. is_ws c" by (auto dest: set_takeWhileD)
qed

lemma split_whitespace_trim: "split_whitespace (trim line) = split_whitespace line"
proof -
  obtain a b where l: "line = a @ trim line @ b" "\<forall>c \<in> set a. is_ws c" "\<forall>c \<in> set b. is_ws c"
    by (rule trim_parts)
  then have "split_whitespace line = words_from [] (trim line @ b)"
    using words_from_ws_start [OF l(2), of "trim line @ b"] by (metis split_whitespace_def)
  then show ?thesis using words_from_ws_end [OF l(3)] by (simp add: split_whitespace_def)
qed

lemma trim_head:
  assumes "trim line = c # s"
  shows "\<not> is_ws c"
proof
  assume w: "is_ws c"
  let ?m = "dropWhile is_ws line"
  have t: "trim line = rev (dropWhile is_ws (rev ?m))" by (simp add: trim_def trim_start_def trim_end_def)
  have "?m \<noteq> []"
  proof
    assume e: "?m = []"
    have "trim line = []" unfolding t e by simp
    with assms show False by simp
  qed
  moreover have "hd ?m = c"
  proof -
    obtain pre where "rev ?m = pre @ dropWhile is_ws (rev ?m)" by (metis takeWhile_dropWhile_id)
    then have "?m = rev (dropWhile is_ws (rev ?m)) @ rev pre" by (metis rev_append rev_rev_ident)
    with assms t show ?thesis by simp
  qed
  ultimately show False using w hd_dropWhile [of is_ws line] by blast
qed

lemma first_word:
  assumes "c # s = t" and "\<not> is_ws c"
  shows "\<exists>w ws. split_whitespace t = (c # w) # ws"
proof -
  let ?w = "takeWhile (\<lambda>x. \<not> is_ws x) t" let ?r = "dropWhile (\<lambda>x. \<not> is_ws x) t"
  have w: "\<forall>x \<in> set ?w. \<not> is_ws x" by (auto dest: set_takeWhileD)
  have ne: "?w = c # takeWhile (\<lambda>x. \<not> is_ws x) s" using assms by auto
  show ?thesis
  proof (cases ?r)
    case Nil
    then have "t = ?w" by (metis append_Nil2 takeWhile_dropWhile_id)
    with split_whitespace_single [OF w] ne show ?thesis by (metis list.distinct(1))
  next
    case (Cons d r)
    then have "is_ws d" using hd_dropWhile [of "\<lambda>x. \<not> is_ws x" t] by auto
    moreover have "t = ?w @ d # r" using Cons by (metis takeWhile_dropWhile_id)
    ultimately show ?thesis using split_whitespace_cons [OF w, of d r] ne by (metis list.distinct(1))
  qed
qed

text \<open>The reference: a line grants access if it has a second word that decodes to an equal key, and
  its first word does not start a comment.\<close>

definition grants ::
  "(string \<Rightarrow> string + ('ed, 'rsa, 'hash, 'ec) public_key) \<Rightarrow> ('ed, 'rsa, 'hash, 'ec) public_key \<Rightarrow> string \<Rightarrow> bool" where
  "grants parse key line =
     (case split_whitespace line of
        (c # _) # data # _ \<Rightarrow> c \<noteq> CHR ''#'' \<and> (\<exists>k. parse data = Inr k \<and> keys_equal key k)
      | _ \<Rightarrow> False)"

lemma authorized_loop_step:
  "authorized_loop parse key (line # rest) \<longleftrightarrow> grants parse key line \<or> authorized_loop parse key rest"
proof (cases "trim line")
  case Nil
  then have "split_whitespace line = []" using split_whitespace_trim [of line] by (simp add: split_whitespace_def)
  with Nil show ?thesis by (simp add: grants_def)
next
  case (Cons c s)
  from first_word [OF Cons [symmetric] trim_head [OF Cons]] obtain w ws where
    s: "split_whitespace line = (c # w) # ws" unfolding split_whitespace_trim by blast
  then have t: "split_whitespace (trim line) = (c # w) # ws" by (simp add: split_whitespace_trim)
  have "trim line \<noteq> []" "starts_with (trim line) ''#'' \<longleftrightarrow> c = CHR ''#''" using Cons by simp_all
  with s t show ?thesis
    by (cases ws) (auto simp: grants_def Let_def split: sum.split)
qed

lemma authorized_loop_iff: "authorized_loop parse key lines \<longleftrightarrow> (\<exists>line \<in> set lines. grants parse key line)"
  by (induction lines) (simp_all only: authorized_loop_step, auto)

lemma is_key_authorized_eq: "is_key_authorized parse key lines = Inr (list_ex (grants parse key) lines)"
  by (auto simp: is_key_authorized_def authorized_loop_iff list_ex_iff)


section \<open>The host key\<close>

definition DEFAULT_HOST_KEY_PATH :: string where
  "DEFAULT_HOST_KEY_PATH = ''/etc/warlock/ssh/ssh_host_ed25519_key''"

text \<open>
  What \<open>russh_keys\<close> and \<open>ssh_key\<close> do with key pairs: load one from a file, generate one,
  take the secret and the public bytes of an Ed25519 pair (\<open>None\<close> for other kinds), rebuild a
  private key from their concatenation, and print it and its public half.
\<close>

record ('kp, 'priv) key_ops =
  ko_load :: "history \<Rightarrow> string \<Rightarrow> string + 'kp"
  ko_generate :: "history \<Rightarrow> 'kp option"
  ko_ed25519_bytes :: "'kp \<Rightarrow> (u8 list \<times> u8 list) option"
  ko_from_bytes :: "u8 list \<Rightarrow> string + 'priv"
  ko_to_openssh :: "'priv \<Rightarrow> string + string"
  ko_public_openssh :: "'priv \<Rightarrow> string + string"

text \<open>\<open>Path::parent\<close> and \<open>Path::with_extension\<close> of a path that ends in a plain file name.\<close>

definition file_name :: "string \<Rightarrow> string" where
  "file_name path = rev (takeWhile (\<lambda>c. c \<noteq> CHR ''/'') (rev path))"

definition path_parent :: "string \<Rightarrow> string option" where
  "path_parent path =
     (let up = rev (dropWhile (\<lambda>c. c \<noteq> CHR ''/'') (rev path))
      in if file_name path = [] then None
         else if up = [] then Some []
         else if up = ''/'' then Some ''/''
         else Some (butlast up))"

definition with_extension :: "string \<Rightarrow> string \<Rightarrow> string" where
  "with_extension path ext =
     (let name = file_name path;
          up = take (length path - length name) path;
          stem = (case file_extension name of
                    None \<Rightarrow> name | Some old \<Rightarrow> take (length name - length old - 1) name)
      in up @ stem @ CHR ''.'' # ext)"

text \<open>Loading reads the file and generating draws randomness: both are calls.\<close>

definition load_secret_key :: "('kp, 'priv) key_ops \<Rightarrow> string \<Rightarrow> (string + 'kp) io" where
  "load_secret_key K path = perform (\<lambda>h. ko_load K h path) (\<lambda>_. EvQuery ''load_secret_key'' path)"

definition generate_ed25519 :: "('kp, 'priv) key_ops \<Rightarrow> 'kp option io" where
  "generate_ed25519 K = perform (ko_generate K) (\<lambda>_. EvQuery ''generate_ed25519'' [])"

definition fs_context :: "string \<Rightarrow> io_error + unit \<Rightarrow> anyhow + unit" where
  "fs_context msg r = (case r of Inl e \<Rightarrow> Inl (context_msg msg [io_message e]) | Inr u \<Rightarrow> Inr u)"

definition try_fs :: "string \<Rightarrow> (io_error + unit) io \<Rightarrow> (anyhow + unit) io \<Rightarrow> (anyhow + unit) io" where
  "try_fs msg m k = do {
     r \<leftarrow> m;
     case fs_context msg r of Inl e \<Rightarrow> ret (Inl e) | Inr _ \<Rightarrow> k
   }"

text \<open>The modes 384 and 420 below are 600 and 644 in octal.\<close>

text \<open>The conversion in the middle of \<open>save_host_key\<close>, up to the printed private key.\<close>

definition convert_key :: "('kp, 'priv) key_ops \<Rightarrow> 'kp \<Rightarrow> anyhow + 'priv \<times> string" where
  "convert_key K key =
     (case ko_ed25519_bytes K key of
        None \<Rightarrow> Inl [''Only Ed25519 keys are currently supported for persistence'']
      | Some (secret_bytes, public_bytes) \<Rightarrow>
          (case ko_from_bytes K (secret_bytes @ public_bytes) of
             Inl e \<Rightarrow> Inl [e]
           | Inr priv \<Rightarrow>
               (case ko_to_openssh K priv of Inl e \<Rightarrow> Inl [e] | Inr encoded \<Rightarrow> Inr (priv, encoded))))"

definition save_public :: "env \<Rightarrow> ('kp, 'priv) key_ops \<Rightarrow> 'priv \<Rightarrow> string \<Rightarrow> (anyhow + unit) io" where
  "save_public E K priv path =
     (let pub_key_path = with_extension path ''pub''
      in case ko_public_openssh K priv of
           Inl e \<Rightarrow> ret (Inl [e])
         | Inr pub_encoded \<Rightarrow>
             try_fs (''Failed to write public key to '' @ pub_key_path) (fs_write E pub_key_path pub_encoded)
               (try_fs ''Failed to set public key permissions'' (fs_set_mode E pub_key_path 420)
                 (ret (Inr ()))))"

definition save_files :: "env \<Rightarrow> ('kp, 'priv) key_ops \<Rightarrow> 'priv \<Rightarrow> string \<Rightarrow> string \<Rightarrow> (anyhow + unit) io" where
  "save_files E K priv encoded path =
     try_fs (''Failed to write private key to '' @ path) (fs_write E path encoded)
       (try_fs ''Failed to set private key permissions'' (fs_set_mode E path 384)
         (save_public E K priv path))"

definition save_host_key :: "env \<Rightarrow> ('kp, 'priv) key_ops \<Rightarrow> 'kp \<Rightarrow> string \<Rightarrow> (anyhow + unit) io" where
  "save_host_key E K key path = do {
     made \<leftarrow> (case path_parent path of
         None \<Rightarrow> ret (Inr ())
       | Some parent \<Rightarrow> do {
           present \<leftarrow> path_exists E parent;
           if present then ret (Inr ())
           else do {
             r \<leftarrow> fs_create_dir_all E parent;
             ret (fs_context (''Failed to create directory '' @ parent) r)
           }
         });
     case made of
       Inl e \<Rightarrow> ret (Inl e)
     | Inr _ \<Rightarrow>
         (case convert_key K key of
            Inl e \<Rightarrow> ret (Inl e)
          | Inr (priv, encoded) \<Rightarrow> save_files E K priv encoded path)
   }"

definition generate_host_key :: "env \<Rightarrow> ('kp, 'priv) key_ops \<Rightarrow> string \<Rightarrow> (anyhow + 'kp) io" where
  "generate_host_key E K path = do {
     g \<leftarrow> generate_ed25519 K;
     case g of
       None \<Rightarrow> ret (Inl [''Failed to generate Ed25519 host key''])
     | Some host_key \<Rightarrow> do {
         _ \<leftarrow> save_host_key E K host_key path;
         ret (Inr host_key)
       }
   }"

definition load_or_generate_host_key ::
  "env \<Rightarrow> ('kp, 'priv) key_ops \<Rightarrow> string option \<Rightarrow> (anyhow + 'kp) io" where
  "load_or_generate_host_key E K key_path = do {
     let path = unwrap_or key_path DEFAULT_HOST_KEY_PATH in do {
     present \<leftarrow> path_exists E path;
     if present
     then do {
       r \<leftarrow> load_secret_key K path;
       case r of
         Inr key \<Rightarrow> ret (Inr key)
       | Inl _ \<Rightarrow> generate_host_key E K path
     }
     else generate_host_key E K path
   }}"

text \<open>A key on disk that loads is used as it is and nothing is written. Otherwise a new key is
  generated, and whether or not it can be saved, the server starts with it: only a failed
  generation is an error.\<close>

theorem host_key_result:
  "let path = unwrap_or key_path DEFAULT_HOST_KEY_PATH; h1 = h @ [EvQuery ''exists'' path];
       h2 = h1 @ [EvQuery ''load_secret_key'' path];
       fresh = (\<lambda>h'. case ko_generate K h' of
         None \<Rightarrow> Inl [''Failed to generate Ed25519 host key''] | Some k \<Rightarrow> Inr k)
   in if \<not> env_exists E h path
      then fst (run_state (load_or_generate_host_key E K key_path) h) = fresh h1
      else case ko_load K h1 path of
        Inr k \<Rightarrow> run_state (load_or_generate_host_key E K key_path) h = (Inr k, h2)
      | Inl _ \<Rightarrow> fst (run_state (load_or_generate_host_key E K key_path) h) = fresh h2"
  by (simp add: load_or_generate_host_key_def generate_host_key_def path_exists_def load_secret_key_def
      generate_ed25519_def Let_def split: sum.split option.split prod.split)

text \<open>The content a history of calls leaves in one file; a failed write may leave anything.\<close>

definition file_step :: "string \<Rightarrow> string option \<Rightarrow> event \<Rightarrow> string option" where
  "file_step path content e =
     (case e of
        EvWriteFile p c r \<Rightarrow> if p = path then (if r = Inr () then Some c else None) else content
      | EvRemoveFile p r \<Rightarrow> if p = path then None else content
      | _ \<Rightarrow> content)"

definition file_content :: "string \<Rightarrow> history \<Rightarrow> string option" where
  "file_content path h = ledger (file_step path) None h"

text \<open>A disk on which writes succeed and a printed key pair can be loaded again.\<close>

definition working_disk :: "env \<Rightarrow> ('kp, 'priv) key_ops \<Rightarrow> string \<Rightarrow> bool" where
  "working_disk E K path \<longleftrightarrow>
     (\<forall>h p c. env_write E h p c = Inr ()) \<and> (\<forall>h p. env_create_dir_all E h p = Inr ())
     \<and> (\<forall>h k. ko_generate K h = Some k \<longrightarrow> (\<exists>x. convert_key K k = Inr x))
     \<and> (\<forall>h c k priv. file_content path h = Some c \<longrightarrow> convert_key K k = Inr (priv, c) \<longrightarrow>
          env_exists E h path \<and> ko_load K h path = Inr k)"

lemma file_content_snoc [simp]:
  "file_content path (h @ [e]) = file_step path (file_content path h) e"
  "file_content path (h @ [e, f]) = file_step path (file_step path (file_content path h) e) f"
  by (simp_all add: file_content_def)

lemma file_step_simps [simp]:
  "file_step path c (EvWriteFile p s r) = (if p = path then (if r = Inr () then Some s else None) else c)"
  "file_step path c (EvSetMode p m q) = c" "file_step path c (EvQuery a b) = c"
  "file_step path c (EvCreateDirAll p q) = c"
  by (simp_all add: file_step_def)

lemma save_public_content:
  assumes "with_extension path ''pub'' \<noteq> path"
  shows "file_content path (snd (run_state (save_public E K priv path) h)) = file_content path h"
  using assms
  by (auto simp: save_public_def try_fs_def fs_context_def fs_write_def fs_set_mode_def Let_def
      split: sum.split)

lemma save_files_content:
  assumes "\<And>h p c. env_write E h p c = Inr ()" and "with_extension path ''pub'' \<noteq> path"
  shows "file_content path (snd (run_state (save_files E K priv encoded path) h)) = Some encoded"
  using assms(1)
  by (simp add: save_public_content [OF assms(2)] save_files_def try_fs_def fs_context_def fs_write_def fs_set_mode_def split: sum.split)

lemma save_host_key_content:
  assumes "\<And>h p c. env_write E h p c = Inr ()" and "\<And>h p. env_create_dir_all E h p = Inr ()"
    and "convert_key K key = Inr (priv, encoded)" and "with_extension path ''pub'' \<noteq> path"
  shows "file_content path (snd (run_state (save_host_key E K key path) h)) = Some encoded"
  using assms(2,3)
  by (simp add: save_files_content [OF assms(1,4)] save_host_key_def fs_context_def fs_create_dir_all_def path_exists_def split: option.split)


text \<open>A toy key pair of one byte, printed as one character, on a disk that keeps what is written.\<close>

definition byte_keys :: "string \<Rightarrow> (u8, u8 list) key_ops" where
  "byte_keys path =
     \<lparr>ko_load = (\<lambda>h p. case file_content path h of Some [c] \<Rightarrow> Inr (of_nat (of_char c)) | _ \<Rightarrow> Inl ''bad key''),
      ko_generate = (\<lambda>h. Some 7),
      ko_ed25519_bytes = (\<lambda>k. Some ([k], [])),
      ko_from_bytes = (\<lambda>bs. Inr bs),
      ko_to_openssh = (\<lambda>bs. Inr (map (\<lambda>b. char_of (unat b)) bs)),
      ko_public_openssh = (\<lambda>bs. Inr ''pub'')\<rparr>"

definition disk_env :: "string \<Rightarrow> env" where
  "disk_env path = calm_env\<lparr>env_exists := (\<lambda>h p. p = path \<and> file_content path h \<noteq> None)\<rparr>"


end
