(* ===== verification/Ssh_Session.thy ===== *)
theory Ssh_Session
  imports App_State Ssh_Keys
begin

text \<open>
  \<open>src/ssh/session.rs\<close> and \<open>server.rs\<close>: one SSH client's session, from the authentication
  to the shell on the VM's console, and the two tasks that copy bytes between the client and
  the vsock socket. A handler sees the shared state at the time it runs, which may be any
  other at the next request; \<open>served\<close> collects the sessions any client can bring about.
\<close>

section \<open>The session\<close>

text \<open>
  \<open>uds_writer\<close> is the sending end of the queue to one connection; \<open>ss_queues\<close> is what has been
  sent into the queue of each connection so far, oldest first.
\<close>

record session =
  ss_vm_id :: "uuid option"
  ss_uds_writer :: "nat option"
  ss_channel_id :: "nat option"
  ss_queues :: "nat \<Rightarrow> string list"

definition session_new :: session where
  "session_new = \<lparr>ss_vm_id = None, ss_uds_writer = None, ss_channel_id = None, ss_queues = (\<lambda>_. [])\<rparr>"

datatype auth = Accept | Reject

text \<open>An error of \<open>is_key_authorized\<close> would be a rejection too.\<close>

definition auth_publickey ::
  "env \<Rightarrow> (string \<Rightarrow> string + ('ed, 'rsa, 'hash, 'ec) public_key) \<Rightarrow> app_state
   \<Rightarrow> string \<Rightarrow> ('ed, 'rsa, 'hash, 'ec) public_key \<Rightarrow> session \<Rightarrow> (anyhow + auth) \<times> session" where
  "auth_publickey E parse st user key s =
     (case parse_vm_id_from_username E user of
        Inl e \<Rightarrow> (Inl e, s)
      | Inr None \<Rightarrow> (Inr Reject, s)
      | Inr (Some vm_id) \<Rightarrow>
          (case hm_get (st_vms st) vm_id of
             Some (Running _ resources) \<Rightarrow>
               (case is_key_authorized parse key (vr_ssh_keys resources) of
                  Inr True \<Rightarrow> (Inr Accept, s\<lparr>ss_vm_id := Some vm_id\<rparr>)
                | Inr False \<Rightarrow> (Inr Reject, s)
                | Inl _ \<Rightarrow> (Inr Reject, s))
           | Some (Creating _) \<Rightarrow> (Inr Reject, s)
           | None \<Rightarrow> (Inr Reject, s)))"

definition channel_open_session :: "nat \<Rightarrow> session \<Rightarrow> (anyhow + bool) \<times> session" where
  "channel_open_session channel s = (Inr True, s\<lparr>ss_channel_id := Some channel\<rparr>)"

definition pty_request :: "session \<Rightarrow> (anyhow + unit) \<times> session" where
  "pty_request s = (Inr (), s)"

text \<open>The first part of \<open>shell_request\<close>: where to connect to.\<close>

definition shell_target :: "app_state \<Rightarrow> session \<Rightarrow> anyhow + string" where
  "shell_target st s =
     (case ss_vm_id s of
        None \<Rightarrow> Inl [''No VM selected'']
      | Some vm_id \<Rightarrow>
          (case ss_channel_id s of
             None \<Rightarrow> Inl [''No channel'']
           | Some _ \<Rightarrow>
               (case hm_get (st_vms st) vm_id of
                  None \<Rightarrow> Inl [''VM not found'']
                | Some (Running _ resources) \<Rightarrow>
                    (case vr_vsock_uds_path resources of
                       None \<Rightarrow> Inl [''VM has no vsock configured'']
                     | Some path \<Rightarrow> Inr path)
                | Some (Creating _) \<Rightarrow> Inl [''VM is still creating''])))"

definition connect_msg :: string where
  "connect_msg = ''CONNECT 1024'' @ [newline]"

text \<open>The handshake on the connected socket: one write, one read into 32 bytes.\<close>

definition vsock_handshake :: "env \<Rightarrow> nat \<Rightarrow> (anyhow + unit) io" where
  "vsock_handshake E conn = do {
     w \<leftarrow> uds_write_all E conn connect_msg;
     case w of
       Inl e \<Rightarrow> ret (Inl [io_message e])
     | Inr _ \<Rightarrow> do {
         r \<leftarrow> uds_read E conn 32;
         ret (case r of
                Inl e \<Rightarrow> Inl [io_message e]
              | Inr response \<Rightarrow>
                  if \<not> env_utf8_valid E response then Inl [''invalid utf-8 sequence'']
                  else if \<not> starts_with response ''OK ''
                  then Inl [''vsock handshake failed: '' @ trim response]
                  else Inr ())
       }
   }"

definition shell_request :: "env \<Rightarrow> app_state \<Rightarrow> session \<Rightarrow> ((anyhow + unit) \<times> session) io" where
  "shell_request E st s =
     (case shell_target st s of
        Inl e \<Rightarrow> ret (Inl e, s)
      | Inr path \<Rightarrow> do {
          c \<leftarrow> uds_connect E path;
          case c of
            Inl e \<Rightarrow> ret (Inl [io_message e], s)
          | Inr conn \<Rightarrow> do {
              h \<leftarrow> vsock_handshake E conn;
              case h of
                Inl e \<Rightarrow> ret (Inl e, s)
              | Inr _ \<Rightarrow> ret (Inr (), s\<lparr>ss_uds_writer := Some conn\<rparr>)
            }
        })"

definition send_to_uds :: "string \<Rightarrow> session \<Rightarrow> session" where
  "send_to_uds bytes s =
     (case ss_uds_writer s of
        None \<Rightarrow> s
      | Some conn \<Rightarrow> s\<lparr>ss_queues := (ss_queues s)(conn := ss_queues s conn @ [bytes])\<rparr>)"

definition data_request :: "string \<Rightarrow> session \<Rightarrow> (anyhow + unit) \<times> session" where
  "data_request bytes s = (Inr (), send_to_uds bytes s)"

definition resize_msg :: "u32 \<Rightarrow> u32 \<Rightarrow> string" where
  "resize_msg row_height col_width =
     CHR 0x1B # ''[8;'' @ show_nat (unat row_height) @ '';'' @ show_nat (unat col_width) @ ''t''"

definition window_change_request :: "u32 \<Rightarrow> u32 \<Rightarrow> session \<Rightarrow> (anyhow + unit) \<times> session" where
  "window_change_request col_width row_height s =
     (Inr (), send_to_uds (resize_msg row_height col_width) s)"

section \<open>The forwarding tasks\<close>

text \<open>The task that drains the queue, on the messages it is given before the queue closes.\<close>

fun forward_to_uds :: "env \<Rightarrow> nat \<Rightarrow> string list \<Rightarrow> unit io" where
  "forward_to_uds E conn [] = ret ()"
| "forward_to_uds E conn (msg # msgs) = do {
     w \<leftarrow> uds_write_all E conn msg;
     case w of
       Inl _ \<Rightarrow> ret ()
     | Inr _ \<Rightarrow> forward_to_uds E conn msgs
   }"

text \<open>The first \<open>n\<close> rounds of the reading task; the result says whether it has ended.\<close>

fun forward_to_ssh :: "env \<Rightarrow> nat \<Rightarrow> nat \<Rightarrow> nat \<Rightarrow> bool io" where
  "forward_to_ssh E conn ch 0 = ret False"
| "forward_to_ssh E conn ch (Suc n) = do {
     r \<leftarrow> uds_read E conn 8192;
     case r of
       Inl _ \<Rightarrow> do { _ \<leftarrow> ssh_close ch; ret True }
     | Inr buf \<Rightarrow>
         if buf = [] then do { _ \<leftarrow> ssh_close ch; ret True }
         else do {
           sent \<leftarrow> ssh_send E ch buf;
           if sent then forward_to_ssh E conn ch n
           else do { _ \<leftarrow> ssh_close ch; ret True }
         }
   }"

section \<open>The server\<close>

record ssh_config =
  inactivity_timeout_secs :: nat
  auth_rejection_time_secs :: nat
  auth_rejection_time_initial_secs :: nat

definition warlock_ssh_config :: ssh_config where
  "warlock_ssh_config = \<lparr>inactivity_timeout_secs = 3600, auth_rejection_time_secs = 1,
     auth_rejection_time_initial_secs = 0\<rparr>"

text \<open>\<open>WarlockSshServer::run\<close>; \<open>run_on_address\<close> of \<open>russh\<close> is a parameter.\<close>

definition ssh_run ::
  "env \<Rightarrow> ('kp, 'priv) key_ops \<Rightarrow> (ssh_config \<Rightarrow> 'kp \<Rightarrow> string \<times> nat \<Rightarrow> (string + unit) io) \<Rightarrow> nat
   \<Rightarrow> (anyhow + unit) io" where
  "ssh_run E K run_on_address port = do {
     k \<leftarrow> load_or_generate_host_key E K None;
     case k of
       Inl e \<Rightarrow> ret (Inl e)
     | Inr host_key \<Rightarrow> do {
         r \<leftarrow> run_on_address warlock_ssh_config host_key (''0.0.0.0'', port);
         ret (case r of Inl e \<Rightarrow> Inl (context_msg ''SSH server failed'' [e]) | Inr _ \<Rightarrow> Inr ())
       }
   }"

section \<open>All sessions\<close>

datatype ('ed, 'rsa, 'hash, 'ec) request =
    AuthPublickey string "('ed, 'rsa, 'hash, 'ec) public_key"
  | OpenChannel nat
  | PtyRequest
  | ShellRequest
  | DataRequest string
  | WindowChange u32 u32

definition pure_step :: "(session \<Rightarrow> (anyhow + 'a) \<times> session) \<Rightarrow> session \<Rightarrow> (bool \<times> session) io" where
  "pure_step f s = (case f s of (r, s') \<Rightarrow> ret (case r of Inl _ \<Rightarrow> False | Inr _ \<Rightarrow> True, s'))"

text \<open>One request: whether its handler returned \<open>Ok\<close>, and the session after it.\<close>

fun handle ::
  "env \<Rightarrow> (string \<Rightarrow> string + ('ed, 'rsa, 'hash, 'ec) public_key) \<Rightarrow> app_state
   \<Rightarrow> ('ed, 'rsa, 'hash, 'ec) request \<Rightarrow> session \<Rightarrow> (bool \<times> session) io" where
  "handle E parse st (AuthPublickey user key) s = pure_step (auth_publickey E parse st user key) s"
| "handle E parse st (OpenChannel ch) s = pure_step (channel_open_session ch) s"
| "handle E parse st PtyRequest s = pure_step pty_request s"
| "handle E parse st ShellRequest s = do {
     (r, s') \<leftarrow> shell_request E st s;
     ret (case r of Inl _ \<Rightarrow> False | Inr _ \<Rightarrow> True, s')
   }"
| "handle E parse st (DataRequest bytes) s = pure_step (data_request bytes) s"
| "handle E parse st (WindowChange cols rows) s = pure_step (window_change_request cols rows) s"

text \<open>
  The requests a client has made so far, each with the shared state it met, in any order the
  client likes: the model does not rely on the SSH library to ask for the authentication first.
  Other calls to the host may happen in between.
\<close>

inductive served ::
  "env \<Rightarrow> (string \<Rightarrow> string + ('ed, 'rsa, 'hash, 'ec) public_key)
   \<Rightarrow> (app_state \<times> ('ed, 'rsa, 'hash, 'ec) request) list \<Rightarrow> session \<Rightarrow> history \<Rightarrow> bool"
  for E parse where
  opened: "served E parse [] session_new h"
| request:
    "served E parse rqs s h \<Longrightarrow> run_state (handle E parse st rq s) (h @ es) = ((ok, s'), h') \<Longrightarrow>
     served E parse (rqs @ [(st, rq)]) s' h'"

section \<open>Who is let in\<close>

definition admitted ::
  "env \<Rightarrow> (string \<Rightarrow> string + ('ed, 'rsa, 'hash, 'ec) public_key) \<Rightarrow> app_state
   \<Rightarrow> string \<Rightarrow> ('ed, 'rsa, 'hash, 'ec) public_key \<Rightarrow> uuid \<Rightarrow> bool" where
  "admitted E parse st user key u \<longleftrightarrow>
     (\<exists>uuid_str inst r. user = ''vm-'' @ uuid_str \<and> env_uuid_parse E uuid_str = Some u
        \<and> hm_get (st_vms st) u = Some (Running inst r) \<and> list_ex (grants parse key) (vr_ssh_keys r))"

lemma parse_username_iff:
  "parse_vm_id_from_username E user = Inr (Some u) \<longleftrightarrow>
   (\<exists>uuid_str. user = ''vm-'' @ uuid_str \<and> env_uuid_parse E uuid_str = Some u)"
proof -
  have "(\<exists>t. user = ''vm-'' @ t \<and> env_uuid_parse E t = Some u) \<longleftrightarrow>
      (\<exists>t. strip_prefix user ''vm-'' = Some t \<and> env_uuid_parse E t = Some u)"
    by (simp only: strip_prefix_Some)
  then show ?thesis
    by (cases "strip_prefix user ''vm-''") (simp_all add: parse_vm_id_from_username_def split: option.split)
qed

lemma auth_cases:
  "auth_publickey E parse st user key s = (Inr Accept, s') \<longleftrightarrow>
     (\<exists>u. admitted E parse st user key u \<and> s' = s\<lparr>ss_vm_id := Some u\<rparr>)" (is ?accepted)
  "fst (auth_publickey E parse st user key s) \<noteq> Inr Accept \<Longrightarrow> snd (auth_publickey E parse st user key s) = s"
proof -
  show ?accepted
  proof (cases "parse_vm_id_from_username E user")
    case (Inl e)
    then have "\<not> admitted E parse st user key u" for u
      using parse_username_iff [of E user u] by (auto simp: admitted_def)
    with Inl show ?thesis by (simp add: auth_publickey_def)
  next
    case (Inr x)
    show ?thesis
    proof (cases x)
      case None
      with Inr have "\<not> admitted E parse st user key u" for u
        using parse_username_iff [of E user u] by (auto simp: admitted_def)
      with Inr None show ?thesis by (simp add: auth_publickey_def)
    next
      case (Some v)
      have "admitted E parse st user key u \<longleftrightarrow> u = v \<and> (\<exists>inst r. hm_get (st_vms st) v = Some (Running inst r)
          \<and> list_ex (grants parse key) (vr_ssh_keys r))" for u
        using parse_username_iff [of E user u] Inr Some by (auto simp: admitted_def)
      with Inr Some show ?thesis
        by (auto simp: auth_publickey_def is_key_authorized_eq split: option.split vm_entry.split bool.split)
    qed
  qed
next
  show "fst (auth_publickey E parse st user key s) \<noteq> Inr Accept \<Longrightarrow> snd (auth_publickey E parse st user key s) = s"
    by (auto simp: auth_publickey_def split: sum.splits option.splits vm_entry.splits bool.splits)
qed

text \<open>C27: Authentication is exact: it is accepted if and only if the user name is \<open>vm-\<close> followed by the
  id of a VM that is running and the key is granted by that VM's own list; then the session is bound
  to that VM. Whatever else is offered leaves the session as it was.\<close>

theorem auth_publickey_iff:
  "case auth_publickey E parse st user key s of
     (Inr Accept, s') \<Rightarrow> \<exists>u. admitted E parse st user key u \<and> s' = s\<lparr>ss_vm_id := Some u\<rparr>
   | (_, s') \<Rightarrow> s' = s \<and> \<not> (\<exists>u. admitted E parse st user key u)"
proof -
  obtain r s' where a: "auth_publickey E parse st user key s = (r, s')" by fastforce
  show ?thesis
  proof (cases "r = Inr Accept")
    case True
    with a auth_cases(1) [of E parse st user key s s'] show ?thesis by simp
  next
    case False
    then have "s' = s" using a auth_cases(2) [of E parse st user key s] by simp
    moreover have "\<not> admitted E parse st user key u" for u
    proof
      assume "admitted E parse st user key u"
      then have "auth_publickey E parse st user key s = (Inr Accept, s\<lparr>ss_vm_id := Some u\<rparr>)"
        unfolding auth_cases(1) by blast
      with a False show False by simp
    qed
    ultimately show ?thesis using a False by (cases r) (simp_all split: auth.split)
  qed
qed

section \<open>Who reaches a console\<close>

definition granted ::
  "env \<Rightarrow> (string \<Rightarrow> string + ('ed, 'rsa, 'hash, 'ec) public_key)
   \<Rightarrow> (app_state \<times> ('ed, 'rsa, 'hash, 'ec) request) list \<Rightarrow> uuid \<Rightarrow> bool" where
  "granted E parse rqs u \<longleftrightarrow>
     (\<exists>st user key. (st, AuthPublickey user key) \<in> set rqs \<and> admitted E parse st user key u)"

definition console_ok ::
  "env \<Rightarrow> (string \<Rightarrow> string + ('ed, 'rsa, 'hash, 'ec) public_key)
   \<Rightarrow> (app_state \<times> ('ed, 'rsa, 'hash, 'ec) request) list \<Rightarrow> history \<Rightarrow> nat \<Rightarrow> bool" where
  "console_ok E parse rqs h conn \<longleftrightarrow>
     (\<exists>before st after u inst r path reply. rqs = before @ (st, ShellRequest) # after
        \<and> granted E parse before u
        \<and> hm_get (st_vms st) u = Some (Running inst r) \<and> vr_vsock_uds_path r = Some path
        \<and> EvUdsConnect path (Inr conn) \<in> set h
        \<and> EvUdsRead conn 32 (Inr reply) \<in> set h \<and> starts_with reply ''OK '')"

lemma granted_mono: "granted E parse rqs u \<Longrightarrow> granted E parse (rqs @ extra) u"
  by (auto simp: granted_def)

lemma console_ok_mono:
  assumes "console_ok E parse rqs h conn" and "set h \<subseteq> set h'"
  shows "console_ok E parse (rqs @ extra) h' conn"
proof -
  from assms(1) obtain before st after u inst r path reply where c: "rqs = before @ (st, ShellRequest) # after"
    "granted E parse before u" "hm_get (st_vms st) u = Some (Running inst r)" "vr_vsock_uds_path r = Some path"
    "EvUdsConnect path (Inr conn) \<in> set h" "EvUdsRead conn 32 (Inr reply) \<in> set h" "starts_with reply ''OK ''"
    unfolding console_ok_def by blast
  have "rqs @ extra = before @ (st, ShellRequest) # (after @ extra)" using c(1) by simp
  with c(2-7) assms(2) show ?thesis unfolding console_ok_def by blast
qed

lemma shell_request_cases:
  assumes "run_state (shell_request E st s) h = ((r, s'), h')"
  shows "set h \<subseteq> set h' \<and> ss_vm_id s' = ss_vm_id s
    \<and> (s' = s \<or> (\<exists>path conn reply. shell_target st s = Inr path \<and> s' = s\<lparr>ss_uds_writer := Some conn\<rparr> \<and> r = Inr ()
         \<and> EvUdsConnect path (Inr conn) \<in> set h' \<and> last h' = EvUdsRead conn 32 (Inr reply) \<and> h' \<noteq> []
         \<and> starts_with reply ''OK ''))"
proof (cases "shell_target st s")
  case (Inl e)
  with assms show ?thesis by (auto simp: shell_request_def)
next
  case (Inr path)
  show ?thesis
  proof (cases "env_uds_connect E h path")
    case (Inl e)
    with assms Inr show ?thesis by (auto simp: shell_request_def uds_connect_def)
  next
    case c: (Inr conn)
    let ?h1 = "h @ [EvUdsConnect path (Inr conn)]"
    obtain q h2 where q: "run_state (vsock_handshake E conn) ?h1 = (q, h2)" by fastforce
    then have h2: "set ?h1 \<subseteq> set h2" "q = Inr u \<Longrightarrow> \<exists>reply. h2 \<noteq> [] \<and> last h2 = EvUdsRead conn 32 (Inr reply)
        \<and> starts_with reply ''OK ''" for u
      by (auto simp: vsock_handshake_def uds_write_all_def uds_read_def split: sum.splits if_splits)
    show ?thesis
    proof (cases q)
      case (Inl e)
      with assms \<open>shell_target st s = Inr path\<close> c q h2(1) show ?thesis
        by (auto simp: shell_request_def uds_connect_def)
    next
      case (Inr u)
      with assms \<open>shell_target st s = Inr path\<close> c q
      have "r = Inr ()" "s' = s\<lparr>ss_uds_writer := Some conn\<rparr>" "h' = h2"
        by (auto simp: shell_request_def uds_connect_def)
      with h2 Inr \<open>shell_target st s = Inr path\<close> show ?thesis by auto
    qed
  qed
qed

lemma shell_target_ok:
  "shell_target st s = Inr path \<Longrightarrow> \<exists>u inst r. ss_vm_id s = Some u \<and> hm_get (st_vms st) u = Some (Running inst r)
     \<and> vr_vsock_uds_path r = Some path"
  by (auto simp: shell_target_def split: option.splits vm_entry.splits)

definition session_ok ::
  "env \<Rightarrow> (string \<Rightarrow> string + ('ed, 'rsa, 'hash, 'ec) public_key)
   \<Rightarrow> (app_state \<times> ('ed, 'rsa, 'hash, 'ec) request) list \<Rightarrow> session \<Rightarrow> history \<Rightarrow> bool" where
  "session_ok E parse rqs s h \<longleftrightarrow>
     (\<forall>u. ss_vm_id s = Some u \<longrightarrow> granted E parse rqs u)
     \<and> (\<forall>c. ss_uds_writer s = Some c \<longrightarrow> console_ok E parse rqs h c)"

lemma session_ok_keep:
  assumes "session_ok E parse rqs s h" and "set h \<subseteq> set h'"
    and "ss_vm_id s' = ss_vm_id s" "ss_uds_writer s' = ss_uds_writer s"
  shows "session_ok E parse (rqs @ extra) s' h'"
  using assms granted_mono console_ok_mono unfolding session_ok_def by metis

lemma send_to_uds_fields [simp]:
  "ss_vm_id (send_to_uds b s) = ss_vm_id s" "ss_uds_writer (send_to_uds b s) = ss_uds_writer s"
  by (simp_all add: send_to_uds_def split: option.split)

lemma handle_keeps_ok:
  assumes ok: "session_ok E parse rqs s h" and run: "run_state (handle E parse st rq s) (h @ es) = ((b, s'), h')"
  shows "session_ok E parse (rqs @ [(st, rq)]) s' h'"
proof (cases rq)
  case (AuthPublickey user key)
  obtain r where a: "auth_publickey E parse st user key s = (r, s')" "h' = h @ es"
    using run AuthPublickey by (auto simp: pure_step_def split: prod.splits)
  show ?thesis
  proof (cases "r = Inr Accept")
    case True
    then obtain u where u: "admitted E parse st user key u" "s' = s\<lparr>ss_vm_id := Some u\<rparr>"
      using a auth_cases(1) [of E parse st user key s s'] by auto
    then have "granted E parse (rqs @ [(st, rq)]) u" unfolding granted_def AuthPublickey by auto
    with u ok a(2) show ?thesis
      using console_ok_mono [where extra = "[(st, rq)]" and h' = h'] by (auto simp: session_ok_def)
  next
    case False
    then have "s' = s" using a auth_cases(2) [of E parse st user key s] by simp
    with session_ok_keep [OF ok] a(2) show ?thesis by simp
  qed
next
  case ShellRequest
  then obtain r where sh: "run_state (shell_request E st s) (h @ es) = ((r, s'), h')"
    using run by (auto split: prod.splits)
  note c = shell_request_cases [OF sh]
  show ?thesis
  proof (cases "s' = s")
    case True
    with session_ok_keep [OF ok, of h' s'] c show ?thesis by auto
  next
    case False
    with c obtain path conn reply where p: "shell_target st s = Inr path" "s' = s\<lparr>ss_uds_writer := Some conn\<rparr>"
      "EvUdsConnect path (Inr conn) \<in> set h'" "last h' = EvUdsRead conn 32 (Inr reply)" "h' \<noteq> []"
      "starts_with reply ''OK ''" by blast
    from shell_target_ok [OF p(1)] obtain u inst res where t: "ss_vm_id s = Some u"
      "hm_get (st_vms st) u = Some (Running inst res)" "vr_vsock_uds_path res = Some path" by blast
    have g: "granted E parse rqs u" using ok t(1) by (simp add: session_ok_def)
    have "EvUdsRead conn 32 (Inr reply) \<in> set h'" using p(4,5) last_in_set by metis
    then have "console_ok E parse (rqs @ [(st, rq)]) h' conn"
      unfolding console_ok_def ShellRequest using g t p(3,6) by blast
    with p(2) g t(1) granted_mono show ?thesis by (auto simp: session_ok_def)
  qed
next
  case (OpenChannel ch)
  with run session_ok_keep [OF ok, of h' s'] show ?thesis by (auto simp: pure_step_def channel_open_session_def)
next
  case PtyRequest
  with run session_ok_keep [OF ok, of h' s'] show ?thesis by (auto simp: pure_step_def pty_request_def)
next
  case (DataRequest bytes)
  with run session_ok_keep [OF ok, of h' s'] show ?thesis by (auto simp: pure_step_def data_request_def)
next
  case (WindowChange cols rows)
  with run session_ok_keep [OF ok, of h' s'] show ?thesis by (auto simp: pure_step_def window_change_request_def)
qed

lemma served_ok: "served E parse rqs s h \<Longrightarrow> session_ok E parse rqs s h"
proof (induction rule: served.induct)
  case (opened h)
  then show ?case by (simp add: session_ok_def session_new_def)
next
  case (request rqs s h st rq es ok s' h')
  show ?case by (rule handle_keeps_ok [OF request.IH request.hyps(2)])
qed

text \<open>C17: No one reaches a console without a key of its VM: in any order of requests a client may try,
  with the shared state changing in between, a session whose input goes to a socket has, before its
  shell request, presented a key that the VM's list granted while that VM was running; at the shell
  request that same VM was running, the socket is the answer to a connect to that VM's own path, and
  its first reply was \<open>OK\<close>.\<close>

theorem console_needs_key:
  assumes "served E parse rqs s h" and "ss_uds_writer s = Some conn"
  shows "\<exists>before st after u inst r path reply. rqs = before @ (st, ShellRequest) # after
    \<and> (\<exists>st0 user key. (st0, AuthPublickey user key) \<in> set before \<and> admitted E parse st0 user key u)
    \<and> hm_get (st_vms st) u = Some (Running inst r) \<and> vr_vsock_uds_path r = Some path
    \<and> EvUdsConnect path (Inr conn) \<in> set h
    \<and> EvUdsRead conn 32 (Inr reply) \<in> set h \<and> starts_with reply ''OK ''"
  using served_ok [OF assms(1)] assms(2) unfolding session_ok_def console_ok_def granted_def by blast

section \<open>What is carried\<close>

text \<open>The bytes offered to the client and read from the guest, and the messages written to it.\<close>

fun to_client :: "nat \<Rightarrow> history \<Rightarrow> string" where
  "to_client ch [] = []"
| "to_client ch (e # es) =
     (case e of EvSshSend c b _ \<Rightarrow> if c = ch then b else [] | _ \<Rightarrow> []) @ to_client ch es"

fun from_guest :: "nat \<Rightarrow> history \<Rightarrow> string" where
  "from_guest conn [] = []"
| "from_guest conn (e # es) =
     (case e of EvUdsRead c _ (Inr b) \<Rightarrow> if c = conn then b else [] | _ \<Rightarrow> []) @ from_guest conn es"

fun to_guest :: "nat \<Rightarrow> history \<Rightarrow> string list" where
  "to_guest conn [] = []"
| "to_guest conn (e # es) =
     (case e of EvUdsWrite c b _ \<Rightarrow> if c = conn then [b] else [] | _ \<Rightarrow> []) @ to_guest conn es"

definition closes :: "nat \<Rightarrow> history \<Rightarrow> nat" where
  "closes ch es = length (filter (\<lambda>e. e = EvSshClose ch) es)"

lemma forward_to_ssh_run:
  "run_state (forward_to_ssh E conn ch n) h = (b, h') \<Longrightarrow>
   \<exists>es. h' = h @ es \<and> to_client ch es = from_guest conn es
     \<and> closes ch es = (if b then 1 else 0) \<and> (b \<longrightarrow> es \<noteq> [] \<and> last es = EvSshClose ch)"
proof (induction n arbitrary: h)
  case 0
  then show ?case by (simp add: closes_def)
next
  case (Suc n)
  let ?r = "env_uds_read E h conn 8192"
  show ?case
  proof (cases "\<exists>buf. ?r = Inr buf \<and> buf \<noteq> [] \<and> env_ssh_send E (h @ [EvUdsRead conn 8192 ?r]) ch buf")
    case True
    then obtain buf where buf: "?r = Inr buf" "buf \<noteq> []" "env_ssh_send E (h @ [EvUdsRead conn 8192 ?r]) ch buf" by blast
    let ?h2 = "h @ [EvUdsRead conn 8192 (Inr buf), EvSshSend ch buf True]"
    have "run_state (forward_to_ssh E conn ch n) ?h2 = (b, h')"
      using Suc.prems buf by (simp add: uds_read_def ssh_send_def)
    from Suc.IH [OF this] obtain es where es: "h' = ?h2 @ es" "to_client ch es = from_guest conn es"
      "closes ch es = (if b then 1 else 0)" "b \<longrightarrow> es \<noteq> [] \<and> last es = EvSshClose ch" by blast
    then show ?thesis
      by (intro exI [of _ "[EvUdsRead conn 8192 (Inr buf), EvSshSend ch buf True] @ es"]) (simp add: closes_def)
  next
    case False
    then have "b \<and> (h' = h @ [EvUdsRead conn 8192 ?r, EvSshClose ch] \<and> (?r = Inr [] \<or> (\<exists>e. ?r = Inl e))
        \<or> (\<exists>buf. ?r = Inr buf \<and> h' = h @ [EvUdsRead conn 8192 ?r, EvSshSend ch buf False, EvSshClose ch]))"
      using Suc.prems by (auto simp: uds_read_def ssh_send_def ssh_close_def split: sum.splits if_splits)
    then show ?thesis by (auto simp: closes_def)
  qed
qed

lemma shell_request_reply:
  assumes "run_state (shell_request E st s) h = ((Inr (), s'), h1)"
  shows "\<exists>conn first hs. ss_uds_writer s' = Some conn \<and> h1 = h @ hs \<and> from_guest conn hs = first
    \<and> starts_with first ''OK '' \<and> to_guest conn hs = [connect_msg]"
proof (cases "shell_target st s")
  case (Inl e)
  with assms show ?thesis by (simp add: shell_request_def)
next
  case t: (Inr path)
  from assms t obtain conn where c: "env_uds_connect E h path = Inr conn"
    by (auto simp: shell_request_def uds_connect_def split: sum.splits)
  let ?h1 = "h @ [EvUdsConnect path (Inr conn)]"
  obtain q h2 where q: "run_state (vsock_handshake E conn) ?h1 = (q, h2)" by fastforce
  with assms t c have r: "q = Inr ()" "s' = s\<lparr>ss_uds_writer := Some conn\<rparr>" "h1 = h2"
    by (cases q; simp add: shell_request_def uds_connect_def)+
  with q obtain first where "h2 = ?h1 @ [EvUdsWrite conn connect_msg (Inr ()), EvUdsRead conn 32 (Inr first)]"
    "starts_with first ''OK ''"
    by (auto simp: vsock_handshake_def uds_write_all_def uds_read_def split: sum.splits if_splits)
  with r show ?thesis
    by (intro exI [of _ conn] exI [of _ first]
        exI [of _ "[EvUdsConnect path (Inr conn), EvUdsWrite conn connect_msg (Inr ()), EvUdsRead conn 32 (Inr first)]"])
      simp
qed

text \<open>C28: The console's output reaches the client complete and in order, except for what the
  handshake swallows: after a successful shell request the client is offered exactly the bytes the
  later reads deliver, and its channel is closed once, at the end. Everything the guest sent in the
  first read, which begins with \<open>OK\<close>, is dropped, console output behind that line included.\<close>

theorem console_output:
  assumes "run_state (shell_request E st s) h = ((Inr (), s'), h1)" and "ss_uds_writer s' = Some conn"
    and "run_state (forward_to_ssh E conn ch n) (h1 @ gap) = (ended, h2)"
  shows "\<exists>hs es first. h1 = h @ hs \<and> h2 = h1 @ gap @ es
    \<and> from_guest conn hs = first \<and> starts_with first ''OK ''
    \<and> to_client ch es = from_guest conn es \<and> from_guest conn (hs @ es) = first @ to_client ch es
    \<and> closes ch es = (if ended then 1 else 0) \<and> (ended \<longrightarrow> last es = EvSshClose ch)"
proof -
  have app: "from_guest conn (xs @ ys) = from_guest conn xs @ from_guest conn ys" for xs ys
    by (induction xs) simp_all
  obtain first hs where s: "h1 = h @ hs" "from_guest conn hs = first" "starts_with first ''OK ''"
    using shell_request_reply [OF assms(1)] assms(2) by auto
  from forward_to_ssh_run [OF assms(3)] obtain es where "h2 = (h1 @ gap) @ es" "to_client ch es = from_guest conn es"
    "closes ch es = (if ended then 1 else 0)" "ended \<longrightarrow> es \<noteq> [] \<and> last es = EvSshClose ch" by blast
  with s app show ?thesis by (intro exI [of _ hs] exI [of _ es] exI [of _ first]) simp
qed

text \<open>The input: the handlers put the messages into the queue, the task writes them.\<close>

fun input_bytes :: "('ed, 'rsa, 'hash, 'ec) request \<Rightarrow> string option" where
  "input_bytes (DataRequest b) = Some b"
| "input_bytes (WindowChange cols rows) = Some (resize_msg rows cols)"
| "input_bytes _ = None"

definition after_request where
  "after_request E parse st rq s = snd (fst (run_state (handle E parse st rq s) []))"

lemma forward_to_uds_run:
  "run_state (forward_to_uds E conn msgs) h = (u, h') \<Longrightarrow>
   \<exists>es. h' = h @ es \<and> to_guest conn es = take (length es) msgs
     \<and> (length es = length msgs \<or> (\<exists>m e. es \<noteq> [] \<and> last es = EvUdsWrite conn m (Inl e)))"
proof (induction msgs arbitrary: h)
  case (Cons m msgs)
  show ?case
  proof (cases "env_uds_write E h conn m")
    case (Inl e)
    with Cons.prems have "h' = h @ [EvUdsWrite conn m (Inl e)]" by (simp add: uds_write_all_def)
    then show ?thesis by (intro exI [of _ "[EvUdsWrite conn m (Inl e)]"]) simp
  next
    case (Inr v)
    with Cons.prems have "run_state (forward_to_uds E conn msgs) (h @ [EvUdsWrite conn m (Inr v)]) = (u, h')"
      by (simp add: uds_write_all_def)
    from Cons.IH [OF this] obtain es where "h' = (h @ [EvUdsWrite conn m (Inr v)]) @ es"
      "to_guest conn es = take (length es) msgs"
      "length es = length msgs \<or> (\<exists>m e. es \<noteq> [] \<and> last es = EvUdsWrite conn m (Inl e))" by blast
    then show ?thesis by (intro exI [of _ "EvUdsWrite conn m (Inr v) # es"]) auto
  qed
qed simp

lemma after_input:
  assumes "input_bytes rq = Some b" and "ss_uds_writer s = Some conn"
  shows "ss_queues (after_request E parse st rq s) conn = ss_queues s conn @ [b]
    \<and> ss_uds_writer (after_request E parse st rq s) = Some conn"
  using assms
  by (cases rq) (auto simp: after_request_def pure_step_def data_request_def window_change_request_def send_to_uds_def)

text \<open>C30: What the client types arrives in order and unchanged: data and window changes queue up
  behind one another, and the task writes the queue's messages to the socket one by one, each once
  and in order, and stops early only after a write that failed.\<close>

theorem console_input:
  assumes "ss_uds_writer s = Some conn" and "those (map input_bytes rqs) = Some msgs"
    and "run_state (forward_to_uds E conn
          (ss_queues (fold (after_request E parse st) rqs s) conn)) h = (u, h')"
  shows "ss_queues (fold (after_request E parse st) rqs s) conn = ss_queues s conn @ msgs
    \<and> (\<exists>es. h' = h @ es \<and> to_guest conn es = take (length es) (ss_queues s conn @ msgs)
         \<and> (length es = length (ss_queues s conn @ msgs)
            \<or> (\<exists>m e. es \<noteq> [] \<and> last es = EvUdsWrite conn m (Inl e))))"
proof -
  have q: "ss_queues (fold (after_request E parse st) rqs s) conn = ss_queues s conn @ msgs"
    using assms(1,2)
  proof (induction rqs arbitrary: s msgs)
    case (Cons rq rqs)
    from Cons.prems(2) obtain b ms where b: "input_bytes rq = Some b" "those (map input_bytes rqs) = Some ms"
      "msgs = b # ms" by (auto split: option.splits)
    note a = after_input [OF b(1) Cons.prems(1), of E parse st]
    from Cons.IH [OF conjunct2 [OF a] b(2)] a b(3) show ?case by simp
  qed simp
  with forward_to_uds_run [OF assms(3)] show ?thesis by simp
qed

section \<open>A concrete session\<close>

text \<open>One running VM with one authorized key, and the client that holds it.\<close>

definition demo_parse :: "string \<Rightarrow> string + (nat, unit, unit, unit) public_key" where
  "demo_parse data = (if data = ''KEY'' then Inr (Ed25519 1) else Inl ''bad base64'')"

definition demo_resources :: vm_resources where
  "demo_resources = \<lparr>vr_vcpus = 1, vr_memory_mb = 128, vr_rootfs_copy = None, vr_tap_name = None,
     vr_subnet_index = None, vr_nat_handles = None, vr_guest_ip = None,
     vr_vsock_uds_path = Some ''/srv/v.sock'', vr_ssh_keys = [''# ops'', ''ssh-ed25519 KEY me'']\<rparr>"

definition demo_state :: app_state where
  "demo_state = (create_app \<lparr>cap_memory_mb = 1024, cap_vcpus = 4\<rparr>
     \<lparr>jc_cgroup_version = 2, jc_firecracker_path = [], jc_jailer_path = [], jc_kernel_path = [],
      jc_rootfs_path = [], jc_vm_images_dir = [], jc_copy_strategy = Sparse, jc_host_interface = []\<rparr> None)
     \<lparr>st_vms := [(5, Running (Instance 0) demo_resources)]\<rparr>"

definition demo_session :: session where
  "demo_session = \<lparr>ss_vm_id = Some 5, ss_uds_writer = None, ss_channel_id = Some 0, ss_queues = (\<lambda>_. [])\<rparr>"

lemma demo_vm: "hm_get (st_vms demo_state) 5 = Some (Running (Instance 0) demo_resources)"
  by (simp add: demo_state_def hm_get_def)

lemma demo_admitted: "admitted calm_env demo_parse demo_state ''vm-5'' (Ed25519 1) 5"
proof -
  have "split_whitespace ''ssh-ed25519 KEY me'' = [''ssh-ed25519'', ''KEY'', ''me'']" by code_simp
  then have "grants demo_parse (Ed25519 1) ''ssh-ed25519 KEY me''" by (simp add: grants_def demo_parse_def)
  then have "list_ex (grants demo_parse (Ed25519 1)) (vr_ssh_keys demo_resources)" by (simp add: demo_resources_def)
  moreover have "env_uuid_parse calm_env ''5'' = Some 5" by (simp add: digit_val_def)
  moreover have "''vm-5'' = ''vm-'' @ ''5''" by simp
  ultimately show ?thesis unfolding admitted_def using demo_vm by blast
qed

lemma demo_shell:
  "run_state (shell_request calm_env demo_state demo_session) [] =
    ((Inr (), demo_session\<lparr>ss_uds_writer := Some 0\<rparr>),
     [EvUdsConnect ''/srv/v.sock'' (Inr 0), EvUdsWrite 0 connect_msg (Inr ()), EvUdsRead 0 32 (Inr ''OK 1024'')])"
proof -
  have "shell_target demo_state demo_session = Inr ''/srv/v.sock''"
    by (simp add: shell_target_def demo_session_def demo_vm) (simp add: demo_resources_def)
  then show ?thesis
    by (simp add: shell_request_def uds_connect_def vsock_handshake_def uds_write_all_def uds_read_def)
qed

theorem console_needs_key_witness:
  "\<exists>s h. served calm_env demo_parse
      [(demo_state, AuthPublickey ''vm-5'' (Ed25519 1)), (demo_state, OpenChannel 0), (demo_state, ShellRequest)] s h
    \<and> ss_uds_writer s = Some 0 \<and> (\<exists>path. EvUdsConnect path (Inr 0) \<in> set h)"
proof -
  let ?a = "(demo_state, AuthPublickey ''vm-5'' (Ed25519 1))" let ?s1 = "session_new\<lparr>ss_vm_id := Some 5\<rparr>"
  have "auth_publickey calm_env demo_parse demo_state ''vm-5'' (Ed25519 1) session_new = (Inr Accept, ?s1)"
    unfolding auth_cases(1) using demo_admitted by blast
  then have r1: "run_state (handle calm_env demo_parse demo_state (AuthPublickey ''vm-5'' (Ed25519 1)) session_new) ([] @ []) =
      ((True, ?s1), [])" by (simp add: pure_step_def)
  have r2: "run_state (handle calm_env demo_parse demo_state (OpenChannel 0) ?s1) ([] @ []) = ((True, demo_session), [])"
    by (simp add: pure_step_def channel_open_session_def session_new_def demo_session_def)
  let ?h = "[EvUdsConnect ''/srv/v.sock'' (Inr 0), EvUdsWrite 0 connect_msg (Inr ()), EvUdsRead 0 32 (Inr ''OK 1024'')]"
  have r3: "run_state (handle calm_env demo_parse demo_state ShellRequest demo_session) ([] @ []) =
      ((True, demo_session\<lparr>ss_uds_writer := Some 0\<rparr>), ?h)" by (simp add: demo_shell)
  from served.request [OF served.request [OF served.request [OF served.opened r1] r2] r3]
  have s: "served calm_env demo_parse [?a, (demo_state, OpenChannel 0), (demo_state, ShellRequest)]
      (demo_session\<lparr>ss_uds_writer := Some 0\<rparr>) ?h" by simp
  have w: "ss_uds_writer (demo_session\<lparr>ss_uds_writer := Some 0\<rparr>) = Some 0" by simp
  from console_needs_key [OF s w] s w show ?thesis by blast
qed

theorem console_output_witness:
  "\<exists>h2. run_state (forward_to_ssh calm_env 0 7 1)
      (snd (run_state (shell_request calm_env demo_state demo_session) []) @ []) = (False, h2)
    \<and> (\<exists>es. to_client 7 es = from_guest 0 es \<and> closes 7 es = 0)"
proof -
  obtain b h2 where f: "run_state (forward_to_ssh calm_env 0 7 1)
      (snd (run_state (shell_request calm_env demo_state demo_session) []) @ []) = (b, h2)" by fastforce
  have b: "\<not> b" using f by (auto simp: demo_shell uds_read_def ssh_send_def calm_env_def)
  from console_output [OF demo_shell _ f [unfolded demo_shell snd_conv]] b f show ?thesis by auto
qed

theorem console_input_witness:
  "ss_queues (fold (after_request calm_env demo_parse demo_state)
      [DataRequest ''ls'', WindowChange 80 24] (demo_session\<lparr>ss_uds_writer := Some 0\<rparr>)) 0 =
     [''ls'', resize_msg 24 80]"
proof -
  let ?s = "demo_session\<lparr>ss_uds_writer := Some 0\<rparr>"
  obtain u h' where f: "run_state (forward_to_uds calm_env 0 (ss_queues (fold (after_request calm_env demo_parse demo_state)
      [DataRequest ''ls'', WindowChange 80 24] ?s) 0)) [] = (u, h')"
    by (cases "run_state (forward_to_uds calm_env 0 (ss_queues (fold (after_request calm_env demo_parse demo_state)
      [DataRequest ''ls'', WindowChange 80 24] ?s) 0)) []")
  have "those (map input_bytes [DataRequest ''ls'', WindowChange 80 24]) = Some [''ls'', resize_msg 24 80]" by simp
  from console_input [OF _ this f] show ?thesis by (simp add: demo_session_def)
qed

end
