(* ===== verification/Whole_Program.thy ===== *)
theory Whole_Program
  imports Host_Disks Main_Program Ssh_Session
begin

text \<open>
  The parts composed: what shutdown leaves behind after any run of the concurrent server, and
  which console an SSH session reaches when it meets the states of such a run.
\<close>

section \<open>From the first request to the end of shutdown\<close>

text \<open>What all entries together hold, once no task owns anything.\<close>

lemma settled_entries:
  assumes inv: "inv False s" and wired: "all_wired E s" and eq: "sys_equipped s"
    and fin: "\<And>t pc. tasks s t = Some pc \<Longrightarrow> finished pc"
    and hold: "all_hold (hm_values (sys_vms s)) = (I, T, n, C)"
  shows "live_taps (hist (sys_world s)) = T \<and> live_rules (hist (sys_world s)) = n"
proof -
  let ?vms = "sys_vms s" and ?f = "tap_index (sys_vms s) (tasks s)"
  let ?idx = "\<lambda>(u :: uuid, e). the (vr_subnet_index (entry_resources e))"
  have hm: "hm_ok ?vms" using inv by (simp add: inv_def store_ok_def)
  have mem: "(u, e) \<in> set ?vms \<longleftrightarrow> hm_get ?vms u = Some e" for u e using hm_get_in_set [OF hm] by blast
  have e: "res_ok (entry_resources e)" "vr_nat_handles (entry_resources e) \<noteq> None" if "(u, e) \<in> set ?vms" for u e
    using entry_facts [OF inv wired that [unfolded mem]] by (simp_all add: wired_def)
  from eq obtain U where U: "own_ok True ?f U" "live_taps (hist (sys_world s)) = tap_name ` U"
    "live_rules (hist (sys_world s)) = 2 * int (card U)" unfolding equipped_def by blast
  have task: "?f (InTask t) = None" for t
  proof (cases "tasks s t")
    case (Some pc)
    from fin [OF this] Some show ?thesis by (cases pc) simp_all
  qed simp
  have f: "?f (InMap u) = Some (?idx (u, e))" if "(u, e) \<in> set ?vms" for u e
    using e(1) [OF that] that by (auto simp: mem res_ok_def)
  have "U = ?idx ` set ?vms"
  proof (rule set_eqI)
    fix i
    have "i \<in> U \<longleftrightarrow> (\<exists>h. ?f h = Some i)" using own_okD(1,3) [OF U(1)] by blast
    also have "\<dots> \<longleftrightarrow> (\<exists>u. ?f (InMap u) = Some i)" using task by (metis holder.exhaust option.distinct(1))
    also have "\<dots> \<longleftrightarrow> (\<exists>u e. (u, e) \<in> set ?vms \<and> ?f (InMap u) = Some i)"
      by (auto simp: mem entry_index_def split: option.splits)
    also have "\<dots> \<longleftrightarrow> i \<in> ?idx ` set ?vms" using f by force
    finally show "i \<in> U \<longleftrightarrow> i \<in> ?idx ` set ?vms" .
  qed
  moreover have "inj_on ?idx (set ?vms)"
  proof (rule inj_onI, clarify)
    fix u e u' e'
    assume m: "(u, e) \<in> set ?vms" "(u', e') \<in> set ?vms" "the (vr_subnet_index (entry_resources e)) =
      the (vr_subnet_index (entry_resources e'))"
    then have "InMap u = InMap u'" using own_okD(2) [OF U(1) f [OF m(1)], of "InMap u'"] f [OF m(2)] by simp
    with m show "u = u' \<and> e = e'" by (simp add: mem)
  qed
  ultimately have "card U = length ?vms"
    using hm by (simp add: card_image hm_ok_def distinct_card distinct_map)
  moreover have "n = 2 * int (length ?vms)"
  proof -
    have "(\<Sum>e \<leftarrow> map snd ps. fst (snd (snd (entry_holds e)))) = 2 * int (length ps)"
      if "\<forall>p \<in> set ps. vr_nat_handles (entry_resources (snd p)) \<noteq> None" for ps :: vm_map
      using that by (induction ps) (auto simp: entry_holds_def Let_def)
    moreover have "\<forall>p \<in> set ?vms. vr_nat_handles (entry_resources (snd p)) \<noteq> None" using e(2) by force
    ultimately have "(\<Sum>e \<leftarrow> map snd ?vms. fst (snd (snd (entry_holds e)))) = 2 * int (length ?vms)" by blast
    with hold show ?thesis by (simp add: all_hold_def hm_values_def)
  qed
  moreover have "tap_name ` ?idx ` set ?vms = T"
  proof -
    have "set_option (vr_tap_name (entry_resources x)) = {tap_name (?idx (u, x))}" if "(u, x) \<in> set ?vms" for u x
      using e(1) [OF that] by (auto simp: res_ok_def)
    with hold show ?thesis by (fastforce simp: all_hold_def hm_values_def entry_holds_def Let_def)
  qed
  ultimately show ?thesis using U(2,3) \<open>U = _\<close> by simp
qed



section \<open>The console of one's own VM\<close>

lemma until_slash: "CHR ''/'' \<notin> set s \<Longrightarrow> takeWhile (\<lambda>c. c \<noteq> CHR ''/'') (s @ CHR ''/'' # rest) = s"
  by (induction s) auto

lemma runtime_path_inj:
  assumes "uuid_text E" and "vsock_runtime_path E u = vsock_runtime_path E v"
  shows "u = v"
proof -
  have "\<exists>rest. vsock_runtime_path E w = ''/srv/jailer/firecracker/'' @ env_uuid_to_string E w @ CHR ''/'' # rest" for w
    by (simp add: vsock_runtime_path_def)
  then obtain x y where
    "vsock_runtime_path E u = ''/srv/jailer/firecracker/'' @ env_uuid_to_string E u @ CHR ''/'' # x"
    "vsock_runtime_path E v = ''/srv/jailer/firecracker/'' @ env_uuid_to_string E v @ CHR ''/'' # y" by metis
  with assms(2) have "env_uuid_to_string E u @ CHR ''/'' # x = env_uuid_to_string E v @ CHR ''/'' # y" by simp
  from arg_cong [OF this, of "takeWhile (\<lambda>c. c \<noteq> CHR ''/'')"] assms(1)
  have "env_uuid_to_string E u = env_uuid_to_string E v" by (simp add: uuid_text_def until_slash)
  with assms(1) show ?thesis by (simp add: uuid_text_def inj_eq)
qed

text \<open>C16: The console is that of one's own VM: if the states a session meets are states the
  concurrent server can reach, a session with a console is connected to the socket derived from
  the id of a VM that had one of its own keys presented in this session, under its own user
  name; and no other VM has that socket.\<close>

theorem console_of_own_vm:
  assumes "uuid_text E" and "served E parse rqs y h" and "ss_uds_writer y = Some conn"
    and "\<And>st rq. (st, rq) \<in> set rqs \<Longrightarrow> \<exists>s. reachable E allowed s \<and> st = app (sys_world s)"
  shows "\<exists>u st user key. EvUdsConnect (vsock_runtime_path E u) (Inr conn) \<in> set h
    \<and> (st, AuthPublickey user key) \<in> set rqs \<and> admitted E parse st user key u
    \<and> (\<forall>v. vsock_runtime_path E v = vsock_runtime_path E u \<longrightarrow> v = u)"
proof -
  from served_ok [OF assms(2)] assms(3) have "console_ok E parse rqs h conn" by (simp add: session_ok_def)
  then obtain before st after u inst r path where rqs: "rqs = before @ (st, ShellRequest) # after"
    and g: "granted E parse before u" and vm: "hm_get (st_vms st) u = Some (Running inst r)"
    and path: "vr_vsock_uds_path r = Some path" and con: "EvUdsConnect path (Inr conn) \<in> set h"
    unfolding console_ok_def by blast
  from rqs have "(st, ShellRequest) \<in> set rqs" by simp
  from assms(4) [OF this] obtain s where s: "reachable E allowed s" "st = app (sys_world s)" by blast
  with vm have e: "hm_get (sys_vms s) u = Some (Running inst r)" by (simp add: sys_vms_def)
  from entry_facts(2) [OF reachable_inv [OF s(1)] reachable_wired [OF s(1)] e] path
  have "path = vsock_runtime_path E u" by (simp add: wired_def)
  moreover from g obtain st0 user key where
    "(st0, AuthPublickey user key) \<in> set rqs" "admitted E parse st0 user key u"
    unfolding granted_def rqs by auto
  ultimately show ?thesis using con runtime_path_inj [OF assms(1)] by blast
qed

lemma calm_keyed:
  "\<exists>s inst r. reachable calm_env (\<lambda>_. True) s \<and> hm_get (sys_vms s) 5 = Some (Running inst r)
    \<and> vr_ssh_keys r = [''ssh-ed25519 KEY me'']"
proof -
  let ?req = "Some \<lparr>rq_vcpus = None, rq_memory_mb = None, rq_ssh_keys = [''ssh-ed25519 KEY me'']\<rparr>"
  have req: "create_validate ?req = Inr (1, 128)" using calm_validate by (simp add: create_validate_def)
  have r0: "reachable calm_env (\<lambda>_. True) calm_start" unfolding calm_start_def by (rule start) simp
  have p0: "tasks calm_start 0 = None" "5 \<notin> drawn calm_start" "vms_owner calm_start = None"
    by (simp_all add: calm_start_def initial_def)
  have room0: "room (sys_world calm_start)"
    by (simp add: room_def calm_start_def initial_def create_app_def unat_allocatable allocate_from_new)
  from calm_extend [OF r0 _ _ p0 room0 req] obtain s inst r where
    "reachable calm_env (\<lambda>_. True) s" "hm_get (sys_vms s) = (hm_get (sys_vms calm_start))(5 \<mapsto> Running inst r)"
    "vr_ssh_keys r = request_keys ?req" by blast
  then show ?thesis by (auto simp: request_keys_def)
qed

theorem console_of_own_vm_witness:
  "\<exists>st y h. served calm_env demo_parse
      [(st, AuthPublickey ''vm-5'' (Ed25519 1)), (st, OpenChannel 0), (st, ShellRequest)] y h
    \<and> ss_uds_writer y = Some 0 \<and> (\<exists>u. EvUdsConnect (vsock_runtime_path calm_env u) (Inr 0) \<in> set h)"
proof -
  obtain s inst r where s: "reachable calm_env (\<lambda>_. True) s" "hm_get (sys_vms s) 5 = Some (Running inst r)"
    "vr_ssh_keys r = [''ssh-ed25519 KEY me'']" using calm_keyed by blast
  let ?st = "app (sys_world s)"
  have vm: "hm_get (st_vms ?st) 5 = Some (Running inst r)" using s(2) by (simp add: sys_vms_def)
  have p: "vr_vsock_uds_path r = Some (vsock_runtime_path calm_env 5)"
    using entry_facts(2) [OF reachable_inv [OF s(1)] reachable_wired [OF s(1)] s(2)] by (simp add: wired_def)
  let ?rqs = "[(?st, AuthPublickey ''vm-5'' (Ed25519 1)), (?st, OpenChannel 0), (?st, ShellRequest)]"
  let ?s1 = "session_new\<lparr>ss_vm_id := Some 5\<rparr>"
  have "split_whitespace ''ssh-ed25519 KEY me'' = [''ssh-ed25519'', ''KEY'', ''me'']" by code_simp
  then have "list_ex (grants demo_parse (Ed25519 1)) (vr_ssh_keys r)" by (simp add: s(3) grants_def demo_parse_def)
  moreover have "env_uuid_parse calm_env ''5'' = Some 5" by (simp add: digit_val_def)
  moreover have "''vm-5'' = ''vm-'' @ ''5''" by simp
  ultimately have "admitted calm_env demo_parse ?st ''vm-5'' (Ed25519 1) 5" unfolding admitted_def using vm by blast
  then have "auth_publickey calm_env demo_parse ?st ''vm-5'' (Ed25519 1) session_new = (Inr Accept, ?s1)"
    unfolding auth_cases(1) by blast
  then have r1: "run_state (handle calm_env demo_parse ?st (AuthPublickey ''vm-5'' (Ed25519 1)) session_new) ([] @ []) =
      ((True, ?s1), [])" by (simp add: pure_step_def)
  have r2: "run_state (handle calm_env demo_parse ?st (OpenChannel 0) ?s1) ([] @ []) = ((True, demo_session), [])"
    by (simp add: pure_step_def channel_open_session_def session_new_def demo_session_def)
  have target: "shell_target ?st demo_session = Inr (vsock_runtime_path calm_env 5)"
    by (simp add: shell_target_def demo_session_def vm p)
  obtain h where r3: "run_state (handle calm_env demo_parse ?st ShellRequest demo_session) ([] @ []) =
      ((True, demo_session\<lparr>ss_uds_writer := Some 0\<rparr>), h)"
    by (simp add: target shell_request_def uds_connect_def vsock_handshake_def uds_write_all_def uds_read_def)
  from served.request [OF served.request [OF served.request [OF served.opened r1] r2] r3]
  have v: "served calm_env demo_parse ?rqs (demo_session\<lparr>ss_uds_writer := Some 0\<rparr>) h" by simp
  have "\<exists>s'. reachable calm_env (\<lambda>_. True) s' \<and> st = app (sys_world s')" if "(st, rq) \<in> set ?rqs" for st rq
    using that s(1) by auto
  moreover have "ss_uds_writer (demo_session\<lparr>ss_uds_writer := Some 0\<rparr>) = Some 0" by simp
  ultimately have "\<exists>u. EvUdsConnect (vsock_runtime_path calm_env u) (Inr 0) \<in> set h"
    using console_of_own_vm [OF calm_uuid_text v] by blast
  with v show ?thesis by (intro exI [of _ ?st] exI [of _ "demo_session\<lparr>ss_uds_writer := Some 0\<rparr>"] exI [of _ h]) simp
qed

end
