(* ===== verification/Request_Footprint.thy ===== *)
theory Request_Footprint
  imports Host_Disks
begin

text \<open>
  Everything a request can do to the host: which commands it runs, on which devices, files and
  rules, and for which VMs it builds instances. The footprint holds for every step of the
  concurrent server, so it bounds whole runs.
\<close>

section \<open>The events of a handler\<close>

definition emits :: "(event \<Rightarrow> bool) \<Rightarrow> 'a handler \<Rightarrow> bool" where
  "emits P m \<longleftrightarrow> (\<forall>w. \<exists>es. hist (snd (run_state m w)) = hist w @ es \<and> (\<forall>e \<in> set es. P e))"

named_theorems emitting \<open>introduction rules for the events of handlers\<close>

lemma emitsD: "emits P m \<Longrightarrow> \<exists>es. hist (snd (run_state m w)) = hist w @ es \<and> (\<forall>e \<in> set es. P e)"
  unfolding emits_def by blast

lemma emits_prims [emitting]:
  "emits P (ret x)" "emits P get_app" "emits P (vms_remove u)" "emits P (vms_insert u e)"
  by (simp_all add: emits_def prims)

lemma emits_pool [emitting]: "emits P pool_lock_allocate" "emits P (pool_lock_release i)"
  by (simp_all add: emits_def prims split: option.split)

lemma emits_lift_io [emitting]: "appends P m \<Longrightarrow> emits P (lift_io m)"
  by (simp add: emits_def appends_def prims)

lemma emits_bind [emitting]:
  assumes m: "emits P m" and f: "\<And>x. emits P (f x)"
  shows "emits P (State_Monad.bind m f)"
  unfolding emits_def
proof
  fix w
  obtain x w1 where r: "run_state m w = (x, w1)" by (cases "run_state m w")
  from emitsD [OF m, of w] r obtain es where "hist w1 = hist w @ es" "\<forall>e \<in> set es. P e" by auto
  moreover from emitsD [OF f, of x w1] obtain es' where
    "hist (snd (run_state (f x) w1)) = hist w1 @ es'" "\<forall>e \<in> set es'. P e" by blast
  ultimately show "\<exists>es. hist (snd (run_state (State_Monad.bind m f) w)) = hist w @ es \<and> (\<forall>e \<in> set es. P e)"
    using r by (intro exI [of _ "es @ es'"]) auto
qed

lemma emits_cases [emitting]:
  "(\<And>x. emits P (f x)) \<Longrightarrow> (\<And>y. emits P (g y)) \<Longrightarrow> emits P (case r of Inl x \<Rightarrow> f x | Inr y \<Rightarrow> g y)"
  "emits P n \<Longrightarrow> (\<And>y. r' = Some y \<Longrightarrow> emits P (g y)) \<Longrightarrow> emits P (case r' of None \<Rightarrow> n | Some y \<Rightarrow> g y)"
  "emits P n \<Longrightarrow> (\<And>y. emits P (g y)) \<Longrightarrow> emits P (case q of Panicked \<Rightarrow> n | Finished y \<Rightarrow> g y)"
  "(\<And>r. e = Creating r \<Longrightarrow> emits P (h r)) \<Longrightarrow> (\<And>i r. emits P (k i r)) \<Longrightarrow>
   emits P (case e of Creating r \<Rightarrow> h r | Running i r \<Rightarrow> k i r)"
  "emits P m \<Longrightarrow> emits P n \<Longrightarrow> emits P (if b then m else n)"
  by (simp_all split: sum.split option.split vm_entry.split outcome.split)

section \<open>The events of requests\<close>

text \<open>The commands on the network name a device or an address of the pool; the files are copies
  named after a VM; the SDK is asked to build jailed instances of the configured binaries.\<close>

definition own_ip :: "string list \<Rightarrow> bool" where
  "own_ip as \<longleftrightarrow> (\<exists>i \<in> pool_range. as = ip_tuntap_add (tap_name i) \<or> as = ip_addr_add (tap_name i) (subnet_tap_ip i)
     \<or> as = ip_link_up (tap_name i) \<or> as = ip_link_del (tap_name i))"

definition own_nft :: "jailer_config \<Rightarrow> string list \<Rightarrow> bool" where
  "own_nft jc as \<longleftrightarrow> (\<exists>i \<in> pool_range. as = [''-ae'', nft_post_rule (subnet_guest_ip i) (jc_host_interface jc)]
       \<or> as = [''-ae'', nft_filter_rule (tap_name i) (jc_host_interface jc)])
     \<or> (\<exists>k. as = nft_delete ''postrouting'' k \<or> as = nft_delete ''filter'' k)"

definition own_copy :: "env \<Rightarrow> jailer_config \<Rightarrow> string \<Rightarrow> bool" where
  "own_copy E jc p \<longleftrightarrow> (\<exists>u. p = vm_rootfs_path E jc u)"

definition request_event :: "env \<Rightarrow> jailer_config \<Rightarrow> event \<Rightarrow> bool" where
  "request_event E jc e =
     (case e of
        EvExec p as _ \<Rightarrow>
          p = ''ip'' \<and> own_ip as \<or> p = ''nft'' \<and> own_nft jc as
          \<or> p = ''cp'' \<and> (\<exists>u. as = [copy_flag (jc_copy_strategy jc), jc_rootfs_path jc, vm_rootfs_path E jc u])
          \<or> p = ''chown'' \<and> (\<exists>u. as = [show_nat JAILER_UID @ '':'' @ show_nat JAILER_GID, vm_rootfs_path E jc u])
      | EvRemoveFile p _ \<Rightarrow> own_copy E jc p
      | EvBuild jo _ \<Rightarrow> \<exists>u v m. jo = jailer_options E jc u v m
      | EvSdk _ _ _ \<Rightarrow> True
      | EvDescribe _ _ \<Rightarrow> True
      | EvDropInstance _ \<Rightarrow> True
      | EvHttp _ _ \<Rightarrow> True
      | EvSpawnBlocking _ \<Rightarrow> True
      | _ \<Rightarrow> False)"

lemma request_event_simps [simp]:
  "request_event E jc (EvSdk i c q)" "request_event E jc (EvDescribe i d)" "request_event E jc (EvDropInstance i)"
  "request_event E jc (EvHttp rq s)" "request_event E jc (EvSpawnBlocking j)"
  "request_event E jc (EvRemoveFile p r) \<longleftrightarrow> own_copy E jc p"
  "request_event E jc (EvBuild jo b) \<longleftrightarrow> (\<exists>u v m. jo = jailer_options E jc u v m)"
  "request_event E jc (EvExec ''ip'' as x) \<longleftrightarrow> own_ip as"
  "request_event E jc (EvExec ''nft'' as x) \<longleftrightarrow> own_nft jc as"
  "request_event E jc (EvExec ''cp'' as x) \<longleftrightarrow>
     (\<exists>u. as = [copy_flag (jc_copy_strategy jc), jc_rootfs_path jc, vm_rootfs_path E jc u])"
  "request_event E jc (EvExec ''chown'' as x) \<longleftrightarrow>
     (\<exists>u. as = [show_nat JAILER_UID @ '':'' @ show_nat JAILER_GID, vm_rootfs_path E jc u])"
  by (simp_all add: request_event_def)

lemma own_ip_simps:
  "i \<in> pool_range \<Longrightarrow> own_ip (ip_tuntap_add (tap_name i))"
  "i \<in> pool_range \<Longrightarrow> own_ip (ip_addr_add (tap_name i) (subnet_tap_ip i))"
  "i \<in> pool_range \<Longrightarrow> own_ip (ip_link_up (tap_name i))" "i \<in> pool_range \<Longrightarrow> own_ip (ip_link_del (tap_name i))"
  by (auto simp: own_ip_def)

lemma own_nft_simps:
  "i \<in> pool_range \<Longrightarrow> own_nft jc [''-ae'', nft_post_rule (subnet_guest_ip i) (jc_host_interface jc)]"
  "i \<in> pool_range \<Longrightarrow> own_nft jc [''-ae'', nft_filter_rule (tap_name i) (jc_host_interface jc)]"
  "own_nft jc (nft_delete ''postrouting'' k)" "own_nft jc (nft_delete ''filter'' k)"
  by (auto simp: own_nft_def)

named_theorems requests \<open>footprints of what requests do to the host\<close>

lemma foot_create_tap [requests]:
  "i \<in> pool_range \<Longrightarrow> appends (request_event E jc) (create_tap E (tap_name i) (subnet_tap_ip i))"
  unfolding create_tap_def by (intro appends_bind appends_run_cmd appends_sum appends_return) (simp_all add: own_ip_simps)

lemma foot_delete_tap [requests]:
  "i \<in> pool_range \<Longrightarrow> appends (request_event E jc) (delete_tap E (tap_name i))"
  unfolding delete_tap_def by (intro appends_bind appends_run_cmd appends_return) (simp add: own_ip_simps)

lemma foot_add_rules [requests]:
  "i \<in> pool_range \<Longrightarrow>
   appends (request_event E jc) (add_nat_rules E (subnet_guest_ip i) (tap_name i) (jc_host_interface jc))"
  unfolding add_nat_rules_def
  by (intro appends_bind appends_run_cmd appends_run_cmd_output appends_sum appends_return)
    (simp_all add: own_nft_simps)

lemma foot_remove_rules [requests]: "appends (request_event E jc) (remove_nat_rules E hs)"
  unfolding remove_nat_rules_def by (intro appends_bind appends_run_cmd appends_return) (simp_all add: own_nft_simps)

lemma foot_setup_network:
  assumes "alloc_ok a"
  shows "appends (request_event E jc) (setup_network E (sub_tap_name a) (tap_ip a) (guest_ip a) (jc_host_interface jc))"
  using assms unfolding setup_network_def alloc_ok_def
  by (auto intro!: appends_bind appends_sum appends_return requests)

lemma foot_teardown [requests]:
  assumes "res_ok r"
  shows "appends (request_event E jc) (teardown_network E r)"
proof -
  obtain i where "i \<in> pool_range" "vr_tap_name r = Some (tap_name i)" using assms by (auto simp: res_ok_def)
  then show ?thesis unfolding teardown_network_def
    by (auto intro!: appends_bind appends_return requests split: option.split)
qed

lemma foot_copy:
  "appends (request_event E jc)
     (copy_rootfs E (jc_copy_strategy jc) (jc_rootfs_path jc) (vm_rootfs_path E jc u) JAILER_UID JAILER_GID)"
  unfolding copy_rootfs_def
  by (intro appends_bind appends_calls appends_sum appends_if appends_return) auto

lemma foot_cleanup [requests]:
  "own_copy E jc p \<Longrightarrow> appends (request_event E jc) (cleanup_rootfs_copy E p)"
  unfolding cleanup_rootfs_copy_def by (intro appends_bind appends_calls appends_return) simp

lemma foot_drop [requests]: "appends (request_event E jc) (drop_instance inst)"
  unfolding drop_instance_def by (intro footprint) simp

lemma foot_stop [requests]: "appends (request_event E jc) (stop_and_drop E inst)"
  unfolding stop_and_drop_def sdk_request_def drop_instance_def by (intro footprint) simp_all

lemma foot_describe [requests]: "appends (request_event E jc) (sdk_describe E inst)"
  unfolding sdk_describe_def by (intro footprint) simp

lemma foot_gateway [requests]:
  "appends (request_event E jc) (gw_register_vm E c u v m)" "appends (request_event E jc) (gw_deregister_vm E c u)"
  unfolding gw_register_vm_def gw_deregister_vm_def send_checked_def http_send_def by (intro footprint; simp)+

lemma foot_sequence: "appends (request_event E jc) (sdk_sequence E inst cs)"
proof (induction cs)
  case Nil
  then show ?case by (simp add: appends_return)
next
  case (Cons p cs)
  then show ?case by (cases p) (simp add: sdk_request_def, intro footprint, simp)
qed

lemma foot_setup: "appends (request_event E jc) (setup_firecracker_instance E jc u v m a)"
  unfolding setup_firecracker_instance_def sdk_build_def sdk_describe_def drop_instance_def
  by (intro footprint foot_sequence) auto


section \<open>The events of a step\<close>

definition grows :: "env \<Rightarrow> jailer_config \<Rightarrow> history \<Rightarrow> history \<Rightarrow> bool" where
  "grows E jc h h' \<longleftrightarrow> (\<exists>es. h' = h @ es \<and> (\<forall>e \<in> set es. request_event E jc e))"

lemma grows_refl [simp]: "grows E jc h h"
  by (simp add: grows_def)

lemma grows_trans: "grows E jc h h1 \<Longrightarrow> grows E jc h1 h2 \<Longrightarrow> grows E jc h h2"
  unfolding grows_def by (metis UnE append.assoc set_append)

lemma grows_io: "appends (request_event E jc) m \<Longrightarrow> grows E jc h (snd (run_state m h))"
  unfolding grows_def appends_def by blast

lemma grows_handler: "emits (request_event E jc) m \<Longrightarrow> grows E jc (hist w) (hist (snd (run_state m w)))"
  unfolding grows_def by (rule emitsD)

lemma grows_run: "emits (request_event E jc) m \<Longrightarrow> run_state m w = (r, w') \<Longrightarrow> grows E jc (hist w) (hist w')"
  using grows_handler [of E jc m w] by simp

lemma grows_copy:
  assumes "run_state (create_copy_rootfs E u) w = (r, w')"
  shows "grows E (st_jailer (app w)) (hist w) (hist w')"
proof -
  let ?jc = "st_jailer (app w)"
  let ?m = "spawn_blocking E (copy_rootfs E (jc_copy_strategy ?jc) (jc_rootfs_path ?jc) (vm_rootfs_path E ?jc u) JAILER_UID JAILER_GID)"
  have "appends (request_event E ?jc) ?m" by (intro appends_spawn_blocking foot_copy) simp
  moreover have "hist w' = snd (run_state ?m (hist w))"
    using assms by (auto simp: create_copy_rootfs_def prims split: option.splits sum.splits)
  ultimately show ?thesis using grows_io by metis
qed

lemma grows_network:
  assumes "alloc_ok a" and "run_state (create_network E a) w = (r, w')"
  shows "grows E (st_jailer (app w)) (hist w) (hist w')"
proof -
  let ?jc = "st_jailer (app w)"
  let ?m = "spawn_blocking E (setup_network E (sub_tap_name a) (tap_ip a) (guest_ip a) (jc_host_interface ?jc))"
  have "appends (request_event E ?jc) ?m" by (intro appends_spawn_blocking foot_setup_network assms(1)) simp
  moreover have "hist w' = snd (run_state ?m (hist w))"
    using assms(2) by (auto simp: create_network_def prims)
  ultimately show ?thesis using grows_io by metis
qed

lemma grows_setup:
  assumes "run_state (create_setup E u v m a) w = (r, w')"
  shows "grows E (st_jailer (app w)) (hist w) (hist w')"
  using assms grows_io [OF foot_setup] by (auto simp: create_setup_def prims)

lemma emits_handlers [emitting]:
  "emits (request_event E jc) create_alloc" "emits (request_event E jc) (create_unwind a e)"
  "emits (request_event E jc) (get_vm E u)" "emits (request_event E jc) (report_vm E u v m)"
  "emits (request_event E jc) (deregister_vm E u)"
  unfolding create_alloc_def create_unwind_def get_vm_def report_vm_def deregister_vm_def
  by (intro emitting requests)+

lemma emits_list_entries: "emits (request_event E jc) (list_entries E m)"
proof (induction m)
  case Nil
  then show ?case by (simp add: emits_prims)
next
  case (Cons p m)
  have "emits (request_event E jc) (list_entry E (fst p) (snd p))"
    unfolding list_entry_def Let_def by (intro emitting requests)
  with Cons show ?case by (cases p) (simp, intro emitting)
qed

lemma emits_list [emitting]: "emits (request_event E jc) (list_vms E)"
  unfolding list_vms_def by (intro emitting emits_list_entries)

lemma emits_finish [emitting]: "emits (request_event E jc) (create_finish E u v m a inst desc b)"
  unfolding create_finish_def by (intro emitting requests)

lemma emits_rollback:
  assumes "alloc_ok a"
  shows "emits (request_event E jc) (rollback_network E a hs)"
proof -
  have "i \<in> pool_range \<Longrightarrow> emits (request_event E jc) (lift_io (delete_tap E (tap_name i)))" for i
    by (intro emitting requests)
  with assms show ?thesis unfolding rollback_network_def alloc_ok_def by (auto intro!: emitting requests)
qed

lemma emits_release:
  assumes "wired E jc u r"
  shows "emits (request_event E jc) (release_resources E r)"
  using assms unfolding release_resources_def wired_def
  by (intro emitting requests) (auto simp: own_copy_def)

lemma emits_delete_finish: "wired E jc u r \<Longrightarrow> emits (request_event E jc) (delete_finish E u r)"
  unfolding delete_finish_def by (intro emitting emits_release)

lemma emits_delete_stop: "res_ok r \<Longrightarrow> emits (request_event E jc) (delete_stop E inst r)"
  unfolding delete_stop_def by (intro emitting requests)

lemma own_file [requests]: "own_copy E jc p \<Longrightarrow> appends (request_event E jc) (fs_remove_file E p)"
  by (intro appends_calls) simp

lemma advance_grows:
  assumes inv: "inv False s" and t: "tasks s t = Some pc" and adv: "advance E pc (sys_world s) = (pc', w')"
    and wired: "all_wired E s"
  shows "grows E (jailer s) (hist (sys_world s)) (hist w')"
proof -
  let ?w = "sys_world s"
  have ok: "pc_ok pc" "pool_ok (st_pool (app ?w))" using inv_facts(2,6) [OF inv t] by (simp_all add: sys_pool_def)
  have wd: "pc_wired E (jailer s) pc" using wired t by (simp add: all_wired_def)
  note fold = jailer_def [symmetric]
  show ?thesis
  proof (cases pc)
    case (Copying j)
    obtain r w1 where r: "run_state (create_copy_rootfs E (j_id j)) ?w = (r, w1)" by fastforce
    from grows_copy [OF r] adv r Copying show ?thesis by (cases r) (auto simp: jailer_def)
  next
    case (Allocating j)
    obtain r w1 where r: "run_state create_alloc ?w = (r, w1)" by fastforce
    from grows_run [OF emits_handlers(1) r] adv r Allocating show ?thesis by (cases r) auto
  next
    case (Networking j a)
    obtain r w1 where r: "run_state (create_network E a) ?w = (r, w1)" by fastforce
    from grows_network [OF _ r] ok adv r Networking show ?thesis by (cases r; cases "the r") (auto simp: jailer_def)
  next
    case (Unwinding j a e)
    obtain r w1 where r: "run_state (create_unwind a e) ?w = (r, w1)" by fastforce
    from grows_run [OF emits_handlers(2) r] adv r Unwinding show ?thesis by (cases r) auto
  next
    case (Reserving j a hs)
    from advance_Reserving [OF inv t [unfolded Reserving] adv [unfolded Reserving]]
      grows_handler [OF emits_rollback, of a E "jailer s" ?w hs] ok Reserving
    show ?thesis by (elim disjE exE conjE) simp_all
  next
    case (SettingUp j a)
    obtain r w1 where r: "run_state (create_setup E (j_id j) (j_vcpus j) (j_memory_mb j) a) ?w = (r, w1)" by fastforce
    from grows_setup [OF r] adv r SettingUp show ?thesis by (cases r) (auto simp: jailer_def)
  next
    case (Failing j)
    from advance_Failing [OF inv t [unfolded Failing] adv [unfolded Failing]] grows_io [OF foot_teardown]
    show ?thesis by auto
  next
    case (FailReleasing j r)
    obtain q w1 where q: "run_state (release_resources E r) ?w = (q, w1)" by fastforce
    from release_finishes [of r ?w E] ok q FailReleasing have "q = Finished ()" by simp
    with grows_run [OF emits_release q] wd adv q FailReleasing show ?thesis by auto
  next
    case (Upgrading j a inst desc)
    from advance_Upgrading [OF inv t [unfolded Upgrading] adv [unfolded Upgrading]] show ?thesis by auto
  next
    case (Reporting j a inst desc b)
    with adv grows_handler [OF emits_finish] show ?thesis by auto
  next
    case (Deleting u)
    from advance_Deleting [OF adv [unfolded Deleting]] show ?thesis by auto
  next
    case (Stopping u inst r)
    with adv ok grows_handler [OF emits_delete_stop] show ?thesis by auto
  next
    case (DeleteReleasing u r)
    with adv wd grows_handler [OF emits_delete_finish, of E "jailer s" u r ?w] show ?thesis
      by (auto split: prod.splits outcome.splits)
  next
    case (DetachedCopy j)
    obtain r w1 where r: "run_state (create_copy_rootfs E (j_id j)) ?w = (r, w1)" by fastforce
    from grows_copy [OF r] adv r DetachedCopy show ?thesis by (simp add: jailer_def)
  next
    case (DetachedNetwork a)
    obtain r w1 where r: "run_state (create_network E a) ?w = (r, w1)" by fastforce
    from grows_network [OF _ r] ok adv r DetachedNetwork show ?thesis by (simp add: jailer_def)
  qed (use adv in auto)
qed

lemma drop_grows:
  assumes inv: "inv False s" and wired: "all_wired E s"
  shows "grows E (jailer s) (hist (sys_world s)) (hist (drop_task E vms_free pool_free pc (sys_world s)))"
proof -
  let ?P = "request_event E (jailer s)"
  have entry: "res_ok r \<and> own_copy E (jailer s) p"
    if "hm_get (sys_vms s) u = Some (Creating r)" "vr_rootfs_copy r = Some p" for u r p
    using entry_facts [OF inv wired that(1)] that(2) by (auto simp: wired_def own_copy_def)
  have res: "res_ok r" if "hm_get (sys_vms s) u = Some (Creating r)" for u r
    using entry_facts(1) [OF inv wired that] by simp
  define w1 where "w1 = snd (run_state (case local_instance pc of None \<Rightarrow> ret ()
    | Some inst \<Rightarrow> lift_io (drop_instance inst)) (sys_world s))"
  have w1: "app w1 = app (sys_world s)" by (auto simp: w1_def prims split: option.split)
  have g1: "grows E (jailer s) (hist (sys_world s)) (hist w1)"
    unfolding w1_def by (intro grows_handler emitting requests)
  have "grows E (jailer s) (hist w1) (hist (snd (run_state (create_guard_drop E vms_free pool_free u) w1)))" for u
  proof (cases "vms_free \<and> (\<exists>r. hm_get (sys_vms s) u = Some (Creating r))")
    case False
    then show ?thesis using w1 grows_io [OF foot_drop]
      by (auto simp: create_guard_drop_def prims sys_vms_def split: option.split vm_entry.split)
  next
    case True
    then obtain r where r: "hm_get (sys_vms s) u = Some (Creating r)" by blast
    have f: "grows E (jailer s) (hist w1) (snd (run_state (teardown_network E r) (hist w1)))"
      by (intro grows_io requests res [OF r])
    moreover have "grows E (jailer s) h (snd (run_state (fs_remove_file E p) h))" if "vr_rootfs_copy r = Some p" for p h
      using entry [OF r that] by (intro grows_io requests) simp
    ultimately show ?thesis using True w1 r
      by (auto simp: create_guard_drop_def prims sys_vms_def hmap split: option.split intro: grows_trans)
  qed
  with grows_trans [OF g1] g1 show ?thesis
    by (auto simp: drop_task_def w1_def split: option.split prod.split)
qed


text \<open>The steps of the server itself, as opposed to what others do in the meantime.\<close>

definition own_step :: "label \<Rightarrow> bool" where
  "own_step l = (case l of Other es \<Rightarrow> es = [] | _ \<Rightarrow> True)"

lemma step_grows:
  assumes "sys_step E s l s'" and "own_step l" and "inv False s" and "all_wired E s"
  shows "grows E (jailer s) (hist (sys_world s)) (hist (sys_world s'))"
  using assms(1)
proof (cases rule: sys_step.cases)
  case (work t pc pc' w')
  with advance_grows [OF assms(3) _ _ assms(4)] show ?thesis by auto
next
  case (abandon t pc vms_free pool_free)
  with drop_grows [OF assms(3,4)] show ?thesis by auto
next
  case list_query
  with grows_handler [OF emits_list] show ?thesis by auto
next
  case (get_query u)
  with grows_handler [OF emits_handlers(3)] show ?thesis by auto
next
  case (elapse es)
  with assms(2) show ?thesis by (simp add: own_step_def)
qed auto

text \<open>C15: Serving touches nothing but its own: in every step of every run, whatever is answered,
  fails or is abandoned, the commands run concern only devices, addresses and rules of the
  pool's subnets, the files copied and removed are only the root file systems named after a VM
  in the configured directory, and the instances built are jailed ones with the configured
  binaries.\<close>

theorem serving_touches_only_its_own:
  assumes "reachable E allowed s" and "sys_step E s l s'" and "own_step l"
  shows "\<exists>es. hist (sys_world s') = hist (sys_world s) @ es \<and> list_all (request_event E (jailer s)) es"
  using step_grows [OF assms(2,3) reachable_inv [OF assms(1)] reachable_wired [OF assms(1)]]
  by (simp add: grows_def list_all_iff)

theorem serving_touches_only_its_own_witness:
  "\<exists>s s' e es. reachable calm_env (\<lambda>_. True) s \<and> sys_step calm_env s (Work 0) s'
    \<and> hist (sys_world s') = hist (sys_world s) @ e # es \<and> list_all (request_event calm_env calm_jailer) (e # es)"
proof -
  let ?s = "calm_start\<lparr>tasks := (tasks calm_start)(0 \<mapsto> Copying (calm_job 5)), drawn := insert 5 (drawn calm_start)\<rparr>"
  have "sys_step calm_env calm_start (Request 0) ?s"
    using create_request [OF calm_validate, of calm_start 0 5] by (simp add: calm_job_def calm_start_def initial_def)
  moreover have "reachable calm_env (\<lambda>_. True) calm_start" unfolding calm_start_def by (rule start) simp
  ultimately have r: "reachable calm_env (\<lambda>_. True) ?s" by (blast intro: step)
  obtain pc' w' where adv: "advance calm_env (Copying (calm_job 5)) (sys_world ?s) = (pc', w')" by fastforce
  obtain s' where s': "sys_step calm_env ?s (Work 0) s'" "sys_world s' = w'"
    using work [of ?s 0 "Copying (calm_job 5)" calm_env pc' w'] adv by fastforce
  have "own_step (Work 0)" by (simp add: own_step_def)
  from serving_touches_only_its_own [OF r s'(1) this] obtain es where
    es: "hist w' = hist (sys_world ?s) @ es" "list_all (request_event calm_env calm_jailer) es"
    unfolding s'(2) by (auto simp: jailer_def calm_start_def initial_def create_app_def)
  have "hist w' \<noteq> hist (sys_world ?s)"
    using adv by (auto simp: create_copy_rootfs_def prims spawn_blocking_def copy_rootfs_def command_output_def
      calm_exec_def calm_job_def)
  with es obtain e es' where "es = e # es'" by (cases es) auto
  with es r s' show ?thesis by blast
qed

end
