(* ===== verification/Abandonment.thy ===== *)
theory Abandonment
  imports Host_Disks Main_Program
begin

text \<open>
  What an abandoned request leaves behind, in every later state: a subnet it held is lost until
  the program restarts; and as it stays marked as used, a device left on the host with it is
  never met by another VM.
\<close>

section \<open>Lost subnets\<close>

definition held :: "system \<Rightarrow> u16 set" where
  "held s = {i. \<exists>h. holder_index (sys_vms s) (tasks s) h = Some i}"

definition lost :: "system \<Rightarrow> u16 set" where
  "lost s = pool_used (sys_pool s) - held s"

lemma held_simps:
  "hm_get (sys_vms s) u = Some e \<Longrightarrow> vr_subnet_index (entry_resources e) = Some i \<Longrightarrow> i \<in> held s"
  "tasks s t = Some pc \<Longrightarrow> pc_subnet pc = Some i \<Longrightarrow> i \<in> held s"
proof -
  assume "hm_get (sys_vms s) u = Some e" "vr_subnet_index (entry_resources e) = Some i"
  then have "holder_index (sys_vms s) (tasks s) (InMap u) = Some i" by simp
  then show "i \<in> held s" unfolding held_def by blast
next
  assume "tasks s t = Some pc" "pc_subnet pc = Some i"
  then have "holder_index (sys_vms s) (tasks s) (InTask t) = Some i" by simp
  then show "i \<in> held s" unfolding held_def by blast
qed

lemma heldE:
  assumes "i \<in> held s"
  obtains u e where "hm_get (sys_vms s) u = Some e" "vr_subnet_index (entry_resources e) = Some i"
    | t pc where "tasks s t = Some pc" "pc_subnet pc = Some i"
proof -
  from assms obtain h where h: "holder_index (sys_vms s) (tasks s) h = Some i" unfolding held_def by blast
  show thesis
  proof (cases h)
    case (InMap u)
    with h that(1) show thesis by (auto split: option.splits)
  next
    case (InTask t)
    with h that(2) show thesis by (auto split: option.splits)
  qed
qed

text \<open>A step frees at most what its task holds, and takes at most what was free.\<close>

definition frees :: "system \<Rightarrow> system \<Rightarrow> u16 option \<Rightarrow> bool" where
  "frees s s' x \<longleftrightarrow> pool_used (sys_pool s) - set_option x \<subseteq> pool_used (sys_pool s')
     \<and> held s' \<subseteq> held s \<union> - pool_used (sys_pool s)"

lemma frees_lost:
  assumes "frees s s' x" and "set_option x \<subseteq> held s"
  shows "lost s \<subseteq> lost s'"
  using assms unfolding frees_def lost_def by blast

lemma pool_release_used:
  "pool_ok p \<Longrightarrow> i \<in> pool_range \<Longrightarrow> pool_release i p = Some p' \<Longrightarrow> pool_used p' = pool_used p - {i}"
  using subnets.release_ok by fastforce

lemma alloc_ok_range: "alloc_ok a \<Longrightarrow> sub_index a \<in> pool_range"
  by (simp add: alloc_ok_def)

lemma held_moved:
  assumes t: "tasks s t = Some pc" and ts: "tasks s' = (tasks s)(t \<mapsto> pc')"
    and vms: "\<And>u e. hm_get (sys_vms s') u = Some e \<Longrightarrow> entry_index (Some e) = None
      \<or> the (entry_index (Some e)) \<in> held s"
    and pc: "\<And>i. pc_subnet pc' = Some i \<Longrightarrow> i \<in> held s \<or> i \<notin> pool_used (sys_pool s)"
  shows "held s' \<subseteq> held s \<union> - pool_used (sys_pool s)"
proof
  fix i
  assume "i \<in> held s'"
  then show "i \<in> held s \<union> - pool_used (sys_pool s)"
  proof (cases rule: heldE)
    case (1 u e)
    with vms [of u e] show ?thesis by simp
  next
    case (2 t' pc2)
    show ?thesis
    proof (cases "t' = t")
      case True
      with 2 ts pc [of i] show ?thesis by simp
    next
      case False
      with 2 ts held_simps(2) [of s t' pc2 i] show ?thesis by simp
    qed
  qed
qed

lemma advance_subnet:
  assumes "\<not> map_segment pc" and adv: "advance E pc w = (pc', w')" and "pc_subnet pc' = Some i"
    and ok: "pool_ok (st_pool (app w))"
  shows "pc_subnet pc = Some i \<or> i \<notin> pool_used (st_pool (app w))"
proof (cases pc)
  case (Allocating j)
  then show ?thesis using adv assms(3) subnets.alloc_fresh [OF ok]
    by (auto simp: run_create_alloc split: option.splits)
qed (use assms in \<open>auto split: prod.splits sum.splits option.splits outcome.splits\<close>)

text \<open>The pool changes where the segment releases or allocates, and nowhere else.\<close>

lemma pool_same: "app w' = app w \<or> app w' = (app w)\<lparr>st_vms := m\<rparr> \<Longrightarrow> st_pool (app w') = st_pool (app w)"
  by auto

lemma advance_pool:
  assumes inv: "inv False s" and t: "tasks s t = Some pc" and adv: "advance E pc (sys_world s) = (pc', w')"
  shows "st_pool (app w') = sys_pool s
    \<or> (\<exists>j a p. pc = Allocating j \<and> pool_allocate (sys_pool s) = Some (a, p) \<and> st_pool (app w') = p)
    \<or> (\<exists>i. pc_subnet pc = Some i \<and> pc_subnet pc' = None \<and> pool_release i (sys_pool s) = Some (st_pool (app w')))"
proof (cases pc)
  case (Copying j)
  obtain r w1 where r: "run_state (create_copy_rootfs E (j_id j)) (sys_world s) = (r, w1)" by fastforce
  from spawn_blocking_kept(1) [of E "j_id j" "sys_world s", unfolded r] adv r Copying show ?thesis
    by (cases r) (auto simp: sys_pool_def)
next
  case (Allocating j)
  with adv show ?thesis by (auto simp: run_create_alloc sys_pool_def split: option.splits)
next
  case (Networking j a)
  obtain r w1 where r: "run_state (create_network E a) (sys_world s) = (r, w1)" by fastforce
  from spawn_blocking_kept(2) [of E a "sys_world s", unfolded r] adv r Networking show ?thesis
    by (cases r; cases "the r") (auto simp: sys_pool_def)
next
  case (Unwinding j a e)
  with adv show ?thesis by (auto simp: run_create_unwind sys_pool_def split: option.splits)
next
  case (Reserving j a hs)
  from advance_Reserving [OF inv t [unfolded Reserving] adv [unfolded Reserving]] Reserving show ?thesis
    by (elim disjE exE conjE) (simp_all add: sys_pool_def)
next
  case (SettingUp j a)
  obtain r w1 where r: "run_state (create_setup E (j_id j) (j_vcpus j) (j_memory_mb j) a) (sys_world s) = (r, w1)"
    by fastforce
  from spawn_blocking_kept(3) [of E "j_id j" "j_vcpus j" "j_memory_mb j" a "sys_world s", unfolded r] adv r SettingUp
  show ?thesis by (cases r) (auto simp: sys_pool_def)
next
  case (Failing j)
  from advance_Failing [OF inv t [unfolded Failing] adv [unfolded Failing]] show ?thesis
    by (elim exE conjE) (simp add: sys_pool_def)
next
  case (FailReleasing j r)
  have ok: "res_ok r" "pool_ok (st_pool (app (sys_world s)))"
    using inv_facts(2,6) [OF inv t] FailReleasing by (simp_all add: sys_pool_def)
  obtain q w1 where q: "run_state (release_resources E r) (sys_world s) = (q, w1)" by fastforce
  from release_resources_app [OF q] release_finishes [OF ok, of E] adv q FailReleasing show ?thesis
    by (auto simp: sys_pool_def split: option.splits)
next
  case (Upgrading j a inst desc)
  from advance_Upgrading [OF inv t [unfolded Upgrading] adv [unfolded Upgrading]] show ?thesis
    by (elim exE conjE) (simp add: sys_pool_def)
next
  case (Reporting j a inst desc b)
  with adv spawn_blocking_kept(4) [of E "j_id j" "j_vcpus j" "j_memory_mb j" a inst desc b "sys_world s"]
  show ?thesis by (auto simp: sys_pool_def)
next
  case (Deleting u)
  obtain q w1 where q: "run_state (delete_take u) (sys_world s) = (q, w1)" by (cases "run_state (delete_take u) (sys_world s)")
  from delete_take_app [OF q] adv q Deleting show ?thesis
    by (auto simp: sys_pool_def split: option.splits vm_entry.splits)
next
  case (Stopping u inst r)
  with adv spawn_blocking_kept(5) [of E inst r "sys_world s"] show ?thesis by (auto simp: sys_pool_def)
next
  case (DeleteReleasing u r)
  obtain q w1 where q: "run_state (delete_finish E u r) (sys_world s) = (q, w1)" by fastforce
  from delete_finish_app [OF q] adv q DeleteReleasing show ?thesis
    by (auto simp: sys_pool_def split: option.splits outcome.splits)
next
  case (DetachedCopy j)
  with adv spawn_blocking_kept(1) [of E "j_id j" "sys_world s"] show ?thesis by (auto simp: sys_pool_def)
next
  case (DetachedNetwork a)
  with adv spawn_blocking_kept(2) [of E a "sys_world s"] show ?thesis by (auto simp: sys_pool_def)
qed (use adv in \<open>auto simp: sys_pool_def\<close>)

lemma subnet_in_range:
  assumes "inv False s" and "i \<in> held s"
  shows "i \<in> pool_range" "i \<in> pool_used (sys_pool s)"
proof -
  from assms(1) have f: "pool_ok (sys_pool s)" "own_ok False (holder_index (sys_vms s) (tasks s)) (pool_used (sys_pool s))"
    by (simp_all add: inv_def store_ok_def)
  from assms(2) own_okD(1) [OF f(2)] show "i \<in> pool_used (sys_pool s)" by (auto simp: held_def)
  with subnets.used_range [OF f(1)] show "i \<in> pool_range" by blast
qed

lemma advance_used:
  assumes inv: "inv False s" and t: "tasks s t = Some pc" and adv: "advance E pc (sys_world s) = (pc', w')"
  shows "pool_used (sys_pool s) \<subseteq> pool_used (st_pool (app w'))
    \<or> (\<exists>i. pc_subnet pc = Some i \<and> pc_subnet pc' = None \<and> pool_used (st_pool (app w')) = pool_used (sys_pool s) - {i})"
  using advance_pool [OF inv t adv]
proof (elim disjE exE conjE)
  fix i
  assume i: "pc_subnet pc = Some i" "pc_subnet pc' = None" "pool_release i (sys_pool s) = Some (st_pool (app w'))"
  from pool_release_used [OF inv_facts(2) [OF inv t] subnet_in_range(1) [OF inv held_simps(2) [OF t i(1)]] i(3)] i(1,2)
  show ?thesis by blast
next
  fix j a p
  assume "pool_allocate (sys_pool s) = Some (a, p)" "st_pool (app w') = p"
  with subnets.alloc_fresh [OF inv_facts(2) [OF inv t]] show ?thesis by blast
qed simp

lemma entry_held:
  assumes "inv False s" and "hm_get (sys_vms s) u = Some e"
  shows "the (vr_subnet_index (entry_resources e)) \<in> held s"
proof -
  from assms have "res_ok (entry_resources e)" by (auto simp: inv_def entries_ok_def)
  with assms(2) held_simps(1) show ?thesis by (fastforce simp: res_ok_def)
qed

lemma advance_held:
  assumes inv: "inv False s" and t: "tasks s t = Some pc" and adv: "advance E pc (sys_world s) = (pc', w')"
  shows "held (s\<lparr>sys_world := w', tasks := (tasks s)(t \<mapsto> pc'), vms_owner := x\<rparr>) \<subseteq> held s \<union> - pool_used (sys_pool s)"
proof (cases "map_segment pc")
  case False
  have ok: "pool_ok (st_pool (app (sys_world s)))" using inv_facts(2) [OF inv t] by (simp add: sys_pool_def)
  have "st_vms (app w') = sys_vms s"
    using advance_kept [OF False inv_facts(6) [OF inv t] ok adv] by (simp add: map_kept_def sys_vms_def)
  with entry_held [OF inv] advance_subnet [OF False adv _ ok] held_simps(2) [OF t] show ?thesis
    by (intro held_moved [OF t]) (auto simp: sys_vms_def sys_pool_def)
next
  case True
  then consider (Reserving) j a hs where "pc = Reserving j a hs" | (Failing) j where "pc = Failing j"
    | (Upgrading) j a inst desc where "pc = Upgrading j a inst desc" | (Deleting) u where "pc = Deleting u"
    by (cases pc) auto
  then show ?thesis
  proof cases
    case (Reserving j a hs)
    then have "sub_index a \<in> held s" using held_simps(2) [OF t] by simp
    with advance_Reserving [OF inv t [unfolded Reserving] adv [unfolded Reserving]] entry_held [OF inv] show ?thesis
      by (intro held_moved [OF t]) (auto simp: sys_vms_def hmap new_resources_def split: if_splits)
  next
    case (Failing j)
    from advance_Failing [OF inv t [unfolded Failing] adv [unfolded Failing]] entry_held [OF inv] show ?thesis
      by (intro held_moved [OF t]) (auto simp: sys_vms_def hmap split: if_splits dest: held_simps(1) [unfolded sys_vms_def])
  next
    case (Upgrading j a inst desc)
    from advance_Upgrading [OF inv t [unfolded Upgrading] adv [unfolded Upgrading]] obtain r where
      r: "hm_get (sys_vms s) (j_id j) = Some (Creating r)" "pc' = Reporting j a inst desc True"
      "app w' = (app (sys_world s))\<lparr>st_vms := hm_insert (j_id j) (Running inst r) (hm_remove (j_id j) (sys_vms s))\<rparr>"
      by blast
    from entry_held [OF inv r(1)] have "the (vr_subnet_index r) \<in> held s" by simp
    with r(2,3) entry_held [OF inv] show ?thesis
      by (intro held_moved [OF t]) (auto simp: sys_vms_def hmap split: if_splits)
  next
    case (Deleting u)
    from advance_Deleting [OF adv [unfolded Deleting]] entry_held [OF inv] show ?thesis
      by (intro held_moved [OF t]) (auto simp: sys_vms_def hmap split: if_splits dest: held_simps(1) [unfolded sys_vms_def])
  qed
qed

lemma lost_work:
  assumes inv: "inv False s" and t: "tasks s t = Some pc" and adv: "advance E pc (sys_world s) = (pc', w')"
  shows "lost s \<subseteq> lost (s\<lparr>sys_world := w', tasks := (tasks s)(t \<mapsto> pc'), vms_owner := x\<rparr>)" (is "_ \<subseteq> lost ?s'")
proof -
  have "pool_used (sys_pool s) - held s \<subseteq> pool_used (sys_pool ?s')"
    using advance_used [OF inv t adv] held_simps(2) [OF t] by (auto simp: sys_pool_def)
  with advance_held [OF inv t adv, of x] show ?thesis unfolding lost_def by blast
qed

text \<open>Dropping a task: at most the guard gives a subnet back, that of the placeholder.\<close>

lemma drop_task_pool:
  assumes inv: "inv False s" and t: "tasks s t = Some pc" and w: "w' = drop_task E vms_free pool_free pc (sys_world s)"
  shows "st_pool (app w') = sys_pool s
    \<or> (\<exists>u r i. guarded pc = Some u \<and> vms_free \<and> hm_get (sys_vms s) u = Some (Creating r) \<and> vr_subnet_index r = Some i
        \<and> st_vms (app w') = hm_remove u (sys_vms s) \<and> pool_used (st_pool (app w')) = pool_used (sys_pool s) - {i})"
proof (cases "guarded pc")
  case None
  with w show ?thesis by (simp add: drop_task_app sys_pool_def)
next
  case (Some u)
  let ?w = "(sys_world s)\<lparr>hist := hist (drop_task E False pool_free pc (sys_world s))\<rparr>"
  obtain q w1 where g: "run_state (create_guard_drop E vms_free pool_free u) ?w = (q, w1)" by fastforce
  have a: "app w' = app w1" using Some g w by (simp add: drop_task_app)
  have vms: "st_vms (app ?w) = sys_vms s" "st_pool (app ?w) = sys_pool s" by (simp_all add: sys_vms_def sys_pool_def)
  note eff = create_guard_drop_app [OF g, unfolded vms]
  show ?thesis
  proof (cases "vms_free \<and> (\<exists>r. hm_get (sys_vms s) u = Some (Creating r))")
    case False
    with eff a vms show ?thesis
      by (auto simp: Let_def sys_pool_def split: if_split_asm option.split_asm vm_entry.split_asm)
  next
    case True
    then obtain r where r: "hm_get (sys_vms s) u = Some (Creating r)" by blast
    with inv have "res_ok r" by (fastforce simp: inv_def entries_ok_def)
    then obtain i where i: "vr_subnet_index r = Some i" "i \<in> pool_range" by (auto simp: res_ok_def)
    show ?thesis
    proof (cases pool_free)
      case False
      with eff a True r i show ?thesis by (simp add: Let_def sys_pool_def)
    next
      case pf: True
      from subnets.release_ok [OF inv_facts(2) [OF inv t] i(2)] obtain p where
        "pool_release i (sys_pool s) = Some p" "pool_used p = pool_used (sys_pool s) - {i}" by blast
      with eff a True pf r i Some show ?thesis by (simp add: Let_def)
    qed
  qed
qed

lemma lost_abandon:
  assumes inv: "inv False s" and t: "tasks s t = Some pc"
  shows "lost s \<subseteq> lost (s\<lparr>sys_world := drop_task E vms_free pool_free pc (sys_world s), tasks := (tasks s)(t \<mapsto> Done),
    vms_owner := x\<rparr>)" (is "_ \<subseteq> lost ?s'")
proof -
  let ?w = "drop_task E vms_free pool_free pc (sys_world s)"
  have "pool_used (sys_pool s) - held s \<subseteq> pool_used (sys_pool ?s')"
    using drop_task_pool [OF inv t refl, of E vms_free pool_free] held_simps(1) [of s] by (auto simp: sys_pool_def)
  moreover have "held ?s' \<subseteq> held s \<union> - pool_used (sys_pool s)"
  proof (rule held_moved [OF t])
    show "tasks ?s' = (tasks s)(t \<mapsto> Done)" by simp
    fix u e
    assume "hm_get (sys_vms ?s') u = Some e"
    with drop_task_map [of E vms_free pool_free pc "sys_world s"] have "hm_get (sys_vms s) u = Some e"
      by (auto simp: sys_vms_def hmap split: if_splits)
    from entry_held [OF inv this] show "entry_index (Some e) = None \<or> the (entry_index (Some e)) \<in> held s" by simp
  qed simp
  ultimately show ?thesis unfolding lost_def by blast
qed

lemma lost_same:
  "app (sys_world s') = app (sys_world s) \<Longrightarrow> (\<And>t pc i. tasks s' t = Some pc \<Longrightarrow> pc_subnet pc = Some i \<Longrightarrow> i \<in> held s) \<Longrightarrow>
   lost s \<subseteq> lost s'"
  using held_simps(1) [of s] unfolding lost_def by (auto simp: sys_pool_def sys_vms_def elim!: heldE)

lemma lost_step:
  assumes "sys_step E s l s'" and "inv False s"
  shows "lost s \<subseteq> lost s'"
  using assms
proof (induction rule: sys_step.cases)
  case (create_request req v m s t u)
  with held_simps(2) [of s] show ?case by (intro lost_same) (auto split: if_splits)
next
  case (delete_request s t u)
  with held_simps(2) [of s] show ?case by (intro lost_same) (auto split: if_splits)
next
  case (work s t pc pc' w')
  with lost_work show ?case by blast
next
  case (abandon s t pc vms_free pool_free)
  with lost_abandon show ?case by blast
next
  case (detach s t pc pc')
  with held_simps(2) [of s] detached_holds_nothing [of pc pc'] show ?case by (intro lost_same) (auto split: if_splits)
next
  case (list_query s)
  with app_kept_handlers(1) [of E] held_simps(2) [of s] show ?case by (intro lost_same) (simp_all add: app_kept_def)
next
  case (get_query s u)
  with app_kept_handlers(2) [of E u] held_simps(2) [of s] show ?case by (intro lost_same) (simp_all add: app_kept_def)
next
  case (elapse s es)
  with held_simps(2) [of s] show ?case by (intro lost_same) simp_all
qed

definition can_step :: "env \<Rightarrow> system \<Rightarrow> system \<Rightarrow> bool" where
  "can_step E s s' \<longleftrightarrow> (\<exists>l. sys_step E s l s')"

lemma lost_later:
  assumes "(can_step E)\<^sup>*\<^sup>* s s'" and "inv False s"
  shows "lost s \<subseteq> lost s' \<and> inv False s'"
  using assms
proof (induction rule: rtranclp_induct)
  case (step s' s'')
  then obtain l where "sys_step E s' l s''" by (auto simp: can_step_def)
  with step lost_step [of E s' l s''] step_preserves [of E s' l s'' False] show ?case by auto
qed simp


text \<open>C32: A request abandoned while it holds a subnet loses it for good: a create between the
  allocation and its reservation, a failed create or a delete between the removal of the entry
  and the release. No guard covers these stretches; the subnet then stays marked as used and
  belongs to no VM and no request in every later state, and no allocation ever returns it.\<close>

theorem abandoned_request_loses_subnet:
  assumes "reachable E allowed s" and "tasks s t = Some pc" and "pc_subnet pc = Some i"
    and "sys_step E s (Abandon t) s'" and "(can_step E)\<^sup>*\<^sup>* s' s''"
  shows "i \<in> pool_used (sys_pool s'') \<and> (\<forall>h. holder_index (sys_vms s'') (tasks s'') h \<noteq> Some i)
    \<and> (\<forall>a p. pool_allocate (sys_pool s'') = Some (a, p) \<longrightarrow> sub_index a \<noteq> i)"
proof -
  note inv = reachable_inv [OF assms(1)]
  have "i \<in> lost s'" using abandon_loses [OF inv assms(2-4)] by (auto simp: lost_def held_def)
  moreover have "inv False s'" using step_preserves [OF assms(4) inv] by simp
  ultimately have l: "i \<in> lost s''" and i: "inv False s''" using lost_later [OF assms(5)] by auto
  have "pool_ok (sys_pool s'')" using i by (simp add: inv_def store_ok_def)
  with l show ?thesis using subnets.alloc_fresh by (fastforce simp: lost_def held_def)
qed

section \<open>Devices stay within the subnets in use\<close>

text \<open>The subnets whose device must not exist: they are held, but not equipped.\<close>

definition bare :: "pc \<Rightarrow> u16 option" where
  "bare pc = (if pc_tap pc = None then pc_subnet pc else None)"

lemma bare_simps [simp]:
  "bare (Networking j a) = Some (sub_index a)" "bare (Reserving j a hs) = None" "bare (SettingUp j a) = None"
  "bare (FailReleasing j r) = vr_subnet_index r" "bare (Reporting j a inst desc b) = None" "bare Done = None"
  "bare (Deleting u) = None" "bare (DeleteReleasing u r) = vr_subnet_index r" "bare (Copying j) = None"
  "bare (Unwinding j a e) = Some (sub_index a)" "bare (DetachedCopy j) = None" "bare (DetachedNetwork a) = None"
  by (simp_all add: bare_def)

lemma bare_Stopping [simp]: "bare (Stopping u inst r) = None"
  by (simp add: bare_def)

lemma bare_held: "tasks s t = Some pc \<Longrightarrow> bare pc = Some i \<Longrightarrow> i \<in> held s"
  using held_simps(2) by (auto simp: bare_def split: if_splits)

fun net_adds :: "pc \<Rightarrow> u16 set" where
  "net_adds (Networking _ a) = {sub_index a}"
| "net_adds (DetachedNetwork a) = {sub_index a}"
| "net_adds _ = {}"

definition confined :: "system \<Rightarrow> bool" where
  "confined s \<longleftrightarrow> live_taps (hist (sys_world s)) \<subseteq> tap_name ` pool_used (sys_pool s)
     \<and> (\<forall>t pc i. tasks s t = Some pc \<longrightarrow> bare pc = Some i \<longrightarrow> tap_name i \<notin> live_taps (hist (sys_world s)))
     \<and> (\<forall>t a. tasks s t = Some (DetachedNetwork a) \<longrightarrow> sub_index a \<in> lost s)"

lemma confinedD:
  assumes "confined s"
  shows "n \<in> live_taps (hist (sys_world s)) \<Longrightarrow> \<exists>i \<in> pool_used (sys_pool s). n = tap_name i"
    "tasks s t = Some pc \<Longrightarrow> bare pc = Some i \<Longrightarrow> tap_name i \<notin> live_taps (hist (sys_world s))"
    "tasks s t = Some (DetachedNetwork a) \<Longrightarrow> sub_index a \<in> lost s"
    "i \<notin> pool_used (sys_pool s) \<Longrightarrow> tap_name i \<notin> live_taps (hist (sys_world s))"
  using assms unfolding confined_def by (blast, blast, blast, auto dest: injD [OF tap_name_inj])

text \<open>The device a segment may add, whatever the host answers.\<close>

lemma setup_network_taps: "live_taps (snd (run_state (setup_network E n ta ga iface) h)) \<subseteq> insert n (live_taps h)"
proof -
  obtain r1 h1 where c1: "run_state (create_tap E n ta) h = (r1, h1)" by fastforce
  obtain r2 h2 where c2: "run_state (add_nat_rules E ga n iface) h1 = (r2, h2)" by fastforce
  obtain u h3 where c3: "run_state (delete_tap E n) h2 = (u, h3)" by (cases "run_state (delete_tap E n) h2")
  have "live_taps h1 \<subseteq> insert n (live_taps h)" using create_tap_effect [where E = E and n = n and ip = ta and h = h] c1 by (auto split: sum.splits)
  moreover have "live_taps h2 = live_taps h1" using add_nat_rules_keeps_taps [of E ga n iface h1] c2 by simp
  moreover have "live_taps h3 \<subseteq> live_taps h2" using live_taps_delete_tap [OF c3] by blast
  ultimately show ?thesis using c1 c2 c3 by (cases r1; cases r2) (auto simp: setup_network_def)
qed

lemma create_network_taps:
  assumes "run_state (create_network E a) w = (r, w')"
  shows "live_taps (hist w') \<subseteq> insert (sub_tap_name a) (live_taps (hist w))"
    "r = None \<Longrightarrow> live_taps (hist w') = live_taps (hist w)"
proof -
  let ?n = "run_state (setup_network E (sub_tap_name a) (tap_ip a) (guest_ip a) (jc_host_interface (st_jailer (app w))))
    (hist w @ [EvSpawnBlocking True])"
  have "live_taps (snd ?n) \<subseteq> insert (sub_tap_name a) (live_taps (hist w))"
    using setup_network_taps [where h = "hist w @ [EvSpawnBlocking True]"] by simp
  moreover have "r = None \<and> hist w' = hist w @ [EvSpawnBlocking False] \<or> r \<noteq> None \<and> hist w' = snd ?n"
    using assms by (auto simp: create_network_def prims spawn_blocking_def split: if_splits prod.splits)
  ultimately show "live_taps (hist w') \<subseteq> insert (sub_tap_name a) (live_taps (hist w))"
    "r = None \<Longrightarrow> live_taps (hist w') = live_taps (hist w)" by auto
qed

lemma teardown_taps:
  "tidy_host E \<Longrightarrow> live_taps (snd (run_state (teardown_network E r) h)) = live_taps h - set_option (vr_tap_name r)"
  using teardown_network_view [where E = E and r = r and h = h] by (simp add: host_view_def)


lemma rollback_taps:
  assumes "tidy_host E"
  shows "live_taps (hist (snd (run_state (rollback_network E a hs) w))) = live_taps (hist w) - {sub_tap_name a}"
proof -
  obtain u h1 where r: "run_state (remove_nat_rules E hs) (hist w) = (u, h1)" by (cases "run_state (remove_nat_rules E hs) (hist w)")
  have "live_taps h1 = live_taps (hist w)" using remove_nat_rules_keeps_taps [of E hs "hist w"] r by simp
  moreover have "live_taps (snd (run_state (delete_tap E (sub_tap_name a)) h1)) = live_taps h1 - {sub_tap_name a}"
    using tidy_delete_any [OF assms, of "sub_tap_name a" h1] by (simp add: host_view_def)
  ultimately show ?thesis using r by (simp add: rollback_network_def prims split: option.split)
qed

lemma res_tap: "res_ok r \<Longrightarrow> vr_subnet_index r = Some i \<Longrightarrow> vr_tap_name r = Some (tap_name i)"
  by (auto simp: res_ok_def)

text \<open>A segment adds at most its own device; afterwards no device is left of a subnet that it has
  released or holds bare.\<close>

definition tidied :: "system \<Rightarrow> pc \<Rightarrow> pc \<Rightarrow> world \<Rightarrow> bool" where
  "tidied s pc pc' w' \<longleftrightarrow>
     live_taps (hist w') \<subseteq> tap_name ` net_adds pc \<union> live_taps (hist (sys_world s))
     \<and> (\<forall>i. bare pc' = Some i \<or> pc_subnet pc = Some i \<and> i \<notin> pool_used (st_pool (app w'))
          \<longrightarrow> tap_name i \<notin> live_taps (hist w'))"

lemma tidiedI:
  assumes "live_taps (hist w') \<subseteq> tap_name ` net_adds pc \<union> live_taps (hist (sys_world s))"
    and "\<And>i. bare pc' = Some i \<Longrightarrow> tap_name i \<notin> live_taps (hist w')"
    and "\<And>i. pc_subnet pc = Some i \<Longrightarrow> i \<notin> pool_used (st_pool (app w')) \<Longrightarrow> tap_name i \<notin> live_taps (hist w')"
  shows "tidied s pc pc' w'"
  using assms unfolding tidied_def by blast

lemma kept_used:
  assumes "inv False s" and "tasks s t = Some pc" and "pc_subnet pc = Some i" and "st_pool (app w') = sys_pool s"
  shows "i \<in> pool_used (st_pool (app w'))"
  using subnet_in_range(2) [OF assms(1) held_simps(2) [OF assms(2,3)]] assms(4) by simp

lemma tidied_net:
  assumes inv: "inv False s" and t: "tasks s t = Some pc" and adv: "advance E pc (sys_world s) = (pc', w')"
    and seg: "net_segment pc" and tidy: "tidy_host E" and con: "confined s"
  shows "tidied s pc pc' w'"
proof -
  let ?w = "sys_world s"
  from seg consider (Networking) j a where "pc = Networking j a" | (Stopping) u inst r where "pc = Stopping u inst r"
    | (Detached) a where "pc = DetachedNetwork a" by (cases pc) auto
  then show ?thesis
  proof cases
    case (Networking j a)
    have tap: "sub_tap_name a = tap_name (sub_index a)" using inv_facts(6) [OF inv t] Networking by (simp add: alloc_ok_def)
    obtain r w1 where r: "run_state (create_network E a) ?w = (r, w1)" by fastforce
    have w1: "w' = w1" using adv r Networking by (cases r; cases "the r") auto
    have pool: "st_pool (app w') = sys_pool s" using spawn_blocking_kept(2) [of E a ?w] r w1 by (simp add: sys_pool_def)
    have fresh: "sub_tap_name a \<notin> live_taps (hist ?w)" using confinedD(2) [OF con t] Networking tap by simp
    show ?thesis
    proof (rule tidiedI)
      show "live_taps (hist w') \<subseteq> tap_name ` net_adds pc \<union> live_taps (hist ?w)"
        using create_network_taps(1) [OF r] tap w1 Networking by auto
      fix i
      assume b: "bare pc' = Some i"
      then obtain e where e: "r = Some (Inl e)" "i = sub_index a" using adv r Networking by (cases r; cases "the r") auto
      then have "env_spawn_blocking E (hist ?w)" using r by (auto simp: create_network_def prims spawn_blocking_def split: if_splits)
      from create_network_view [OF tidy this fresh r] e fresh tap w1 show "tap_name i \<notin> live_taps (hist w')"
        by (auto simp: host_view_def)
    next
      fix i
      assume "pc_subnet pc = Some i" "i \<notin> pool_used (st_pool (app w'))"
      with kept_used [OF inv t _ pool] show "tap_name i \<notin> live_taps (hist w')" by blast
    qed
  next
    case (Stopping u inst r)
    have w': "w' = snd (run_state (delete_stop E inst r) ?w)" "pc' = DeleteReleasing u r" using adv Stopping by auto
    have ok: "res_ok r" using inv_facts(6) [OF inv t] Stopping by simp
    have pool: "st_pool (app w') = sys_pool s" using spawn_blocking_kept(5) [of E inst r ?w] w' by (simp add: sys_pool_def)
    obtain x h1 where x: "run_state (stop_and_drop E inst) (hist ?w) = (x, h1)" by (cases "run_state (stop_and_drop E inst) (hist ?w)")
    with neutral_view [OF appends_stop_and_drop, of E inst "hist ?w"] have "live_taps h1 = live_taps (hist ?w)"
      by (simp add: host_view_def)
    with delete_stop_hist [of E inst r ?w, unfolded x] w'(1) teardown_taps [OF tidy, of r h1]
    have taps: "live_taps (hist w') = live_taps (hist ?w) - set_option (vr_tap_name r)" by simp
    show ?thesis
    proof (rule tidiedI)
      fix i
      assume "bare pc' = Some i"
      with res_tap [OF ok] w'(2) taps show "tap_name i \<notin> live_taps (hist w')" by simp
    next
      fix i
      assume "pc_subnet pc = Some i" "i \<notin> pool_used (st_pool (app w'))"
      with kept_used [OF inv t _ pool] show "tap_name i \<notin> live_taps (hist w')" by blast
    qed (use taps in blast)
  next
    case (Detached a)
    have tap: "sub_tap_name a = tap_name (sub_index a)" using inv_facts(6) [OF inv t] Detached by (simp add: alloc_ok_def)
    obtain r w1 where r: "run_state (create_network E a) ?w = (r, w1)" by fastforce
    with create_network_taps(1) [OF r] adv Detached tap show ?thesis by (intro tidiedI) auto
  qed
qed

lemma tidied_map:
  assumes inv: "inv False s" and t: "tasks s t = Some pc" and adv: "advance E pc (sys_world s) = (pc', w')"
    and seg: "map_segment pc" and tidy: "tidy_host E" and con: "confined s"
  shows "tidied s pc pc' w'"
proof -
  from seg consider (Reserving) j a hs where "pc = Reserving j a hs" | (Failing) j where "pc = Failing j"
    | (Upgrading) j a inst desc where "pc = Upgrading j a inst desc" | (Deleting) u where "pc = Deleting u"
    by (cases pc) auto
  then show ?thesis
  proof cases
    case (Reserving j a hs)
    have tap: "sub_tap_name a = tap_name (sub_index a)" using inv_facts(6) [OF inv t] Reserving by (simp add: alloc_ok_def)
    from advance_Reserving [OF inv t [unfolded Reserving] adv [unfolded Reserving]] show ?thesis
    proof (elim disjE exE conjE, goal_cases)
      case 1
      with rollback_taps [OF tidy, of a hs "sys_world s"] tap Reserving show ?case by (intro tidiedI) auto
    next
      case 2
      then have "st_pool (app w') = sys_pool s" by (simp add: sys_pool_def)
      from kept_used [OF inv t _ this] 2 show ?case by (intro tidiedI) auto
    qed
  next
    case (Failing j)
    from advance_Failing [OF inv t [unfolded Failing] adv [unfolded Failing]] teardown_taps [OF tidy] res_tap Failing
    show ?thesis by (elim exE conjE) (intro tidiedI; auto)
  next
    case (Upgrading j a inst desc)
    from advance_Upgrading [OF inv t [unfolded Upgrading] adv [unfolded Upgrading]] Upgrading
    show ?thesis by (elim exE conjE) (intro tidiedI; simp)
  next
    case (Deleting u)
    from advance_Deleting [OF adv [unfolded Deleting]] Deleting
    show ?thesis by (elim disjE exE conjE) (intro tidiedI; simp)+
  qed
qed

lemma advance_tidied:
  assumes inv: "inv False s" and t: "tasks s t = Some pc" and adv: "advance E pc (sys_world s) = (pc', w')"
    and tidy: "tidy_host E" and con: "confined s"
  shows "tidied s pc pc' w'"
proof (cases "map_segment pc")
  case True
  then show ?thesis by (rule tidied_map [OF inv t adv _ tidy con])
next
  case noMap: False
  show ?thesis
  proof (cases "net_segment pc")
    case True
    then show ?thesis by (rule tidied_net [OF inv t adv _ tidy con])
  next
    case False
    have ok: "pool_ok (st_pool (app (sys_world s)))" using inv_facts(2) [OF inv t] by (simp add: sys_pool_def)
    from advance_net_kept [OF noMap False inv_facts(6) [OF inv t] ok adv]
    have k: "live_taps (hist w') = live_taps (hist (sys_world s))" "bare pc' = pc_subnet pc'" "bare pc = pc_subnet pc"
      by (simp_all add: bare_def)
    show ?thesis
    proof (rule tidiedI)
      fix i
      assume "bare pc' = Some i"
      then have "pc_subnet pc' = Some i" using k by simp
      from advance_subnet [OF noMap adv this ok] confinedD(2) [OF con t, of i] confinedD(4) [OF con, of i] k
      show "tap_name i \<notin> live_taps (hist w')" by (auto simp: sys_pool_def)
    next
      fix i
      assume "pc_subnet pc = Some i"
      with confinedD(2) [OF con t, of i] k show "tap_name i \<notin> live_taps (hist w')" by simp
    qed (use k in blast)
  qed
qed

lemma other_holder:
  assumes inv: "inv False s" and t: "tasks s t = Some pc" "pc_subnet pc = Some i"
    and t': "tasks s t' = Some pc'" "pc_subnet pc' = Some i"
  shows "t' = t"
proof -
  have "holder_index (sys_vms s) (tasks s) (InTask t) = Some i" "holder_index (sys_vms s) (tasks s) (InTask t') = Some i"
    using t t' by simp_all
  from own_okD(2) [OF inv_facts(4) [OF inv t(1)] this] show ?thesis by simp
qed

lemma net_adds_cases:
  assumes con: "confined s" and t: "tasks s t = Some pc" and i: "i \<in> net_adds pc"
  shows "pc_subnet pc = Some i \<or> i \<in> lost s"
  using confinedD(3) [OF con] t i by (cases pc) auto

lemma confined_work:
  assumes inv: "inv False s" and t: "tasks s t = Some pc" and adv: "advance E pc (sys_world s) = (pc', w')"
    and tidy: "tidy_host E" and con: "confined s"
  shows "confined (s\<lparr>sys_world := w', tasks := (tasks s)(t \<mapsto> pc'), vms_owner := x\<rparr>)" (is "confined ?s'")
proof -
  from advance_tidied [OF inv t adv tidy con] have
    sub: "live_taps (hist w') \<subseteq> tap_name ` net_adds pc \<union> live_taps (hist (sys_world s))" and
    gone: "\<And>i. bare pc' = Some i \<or> pc_subnet pc = Some i \<and> i \<notin> pool_used (st_pool (app w')) \<Longrightarrow>
      tap_name i \<notin> live_taps (hist w')" unfolding tidied_def by blast+
  have "live_taps (hist w') \<subseteq> tap_name ` pool_used (st_pool (app w'))"
  proof
    fix n
    assume n: "n \<in> live_taps (hist w')"
    have adds: "net_adds pc \<subseteq> pool_used (sys_pool s)"
      using net_adds_cases [OF con t] subnet_in_range(2) [OF inv held_simps(2) [OF t]] by (auto simp: lost_def)
    have "\<exists>i \<in> pool_used (sys_pool s). n = tap_name i"
      using n sub confinedD(1) [OF con, of n] adds by blast
    then obtain i where i: "i \<in> pool_used (sys_pool s)" "n = tap_name i" by blast
    with advance_used [OF inv t adv] gone [of i] n show "n \<in> tap_name ` pool_used (st_pool (app w'))" by blast
  qed
  moreover have "tap_name i \<notin> live_taps (hist w')" if t2: "tasks ?s' t2 = Some pc2" and b: "bare pc2 = Some i" for t2 pc2 i
  proof (cases "t2 = t")
    case True
    with t2 b gone show ?thesis by simp
  next
    case False
    with t2 have s2: "tasks s t2 = Some pc2" by simp
    have "i \<notin> net_adds pc"
    proof
      assume "i \<in> net_adds pc"
      from net_adds_cases [OF con t this] bare_held [OF s2 b] have "pc_subnet pc = Some i" by (auto simp: lost_def)
      moreover have "pc_subnet pc2 = Some i" using b by (simp add: bare_def split: if_splits)
      ultimately show False using other_holder [OF inv t _ s2] False by blast
    qed
    then have "tap_name i \<notin> tap_name ` net_adds pc" by (simp add: tap_name_image)
    with sub confinedD(2) [OF con s2 b] show ?thesis by blast
  qed
  moreover have "sub_index a \<in> lost ?s'" if t2: "tasks ?s' t2 = Some (DetachedNetwork a)" for t2 a
  proof -
    have "tasks s t2 = Some (DetachedNetwork a)" using t2 advance_waited [OF adv] by (auto split: if_splits)
    from confinedD(3) [OF con this] lost_work [OF inv t adv, of x] show ?thesis by blast
  qed
  ultimately show ?thesis unfolding confined_def by (simp add: sys_pool_def)
qed

lemma confined_frame:
  assumes con: "confined s" and step: "lost s \<subseteq> lost s'"
    and live: "live_taps (hist (sys_world s')) \<subseteq> live_taps (hist (sys_world s))"
    and gone: "\<And>i. i \<in> pool_used (sys_pool s) \<Longrightarrow> i \<notin> pool_used (sys_pool s') \<Longrightarrow> tap_name i \<notin> live_taps (hist (sys_world s'))"
    and ts: "\<And>t pc i. tasks s' t = Some pc \<Longrightarrow> bare pc = Some i \<Longrightarrow> tasks s t = Some pc"
    and det: "\<And>t a. tasks s' t = Some (DetachedNetwork a) \<Longrightarrow> tasks s t = Some (DetachedNetwork a) \<or> sub_index a \<in> lost s'"
  shows "confined s'"
proof -
  have "n \<in> tap_name ` pool_used (sys_pool s')" if n: "n \<in> live_taps (hist (sys_world s'))" for n
    using confinedD(1) [OF con, of n] live gone n by blast
  with confinedD(2,3) [OF con] live ts det step show ?thesis unfolding confined_def by blast
qed

lemma remove_file_taps [simp]: "live_taps (h @ [EvRemoveFile p r]) = live_taps h"
  by (simp add: live_taps_def tap_step_def)

text \<open>A dropped task removes at most the device of the placeholder that its guard takes out.\<close>

lemma drop_task_taps:
  assumes inv: "inv False s" and t: "tasks s t = Some pc" and tidy: "tidy_host E"
    and w: "w' = drop_task E vms_free pool_free pc (sys_world s)"
  shows "live_taps (hist w') \<subseteq> live_taps (hist (sys_world s))
    \<and> (\<forall>u r. guarded pc = Some u \<longrightarrow> vms_free \<longrightarrow> hm_get (sys_vms s) u = Some (Creating r) \<longrightarrow>
        set_option (vr_tap_name r) \<inter> live_taps (hist w') = {})"
proof -
  define w1 where "w1 = snd (run_state (case local_instance pc of None \<Rightarrow> ret ()
    | Some inst \<Rightarrow> lift_io (drop_instance inst)) (sys_world s))"
  have w1: "app w1 = app (sys_world s)" "live_taps (hist w1) = live_taps (hist (sys_world s))"
    using neutral_view [OF appends_single(2)]
    by (auto simp: w1_def prims host_view_def split: option.split)
  have d: "w' = (case guarded pc of None \<Rightarrow> w1
      | Some u \<Rightarrow> snd (run_state (create_guard_drop E vms_free pool_free u) w1))"
    by (simp add: w drop_task_def w1_def split: option.split prod.split)
  show ?thesis
  proof (cases "guarded pc")
    case None
    with d w1 show ?thesis by simp
  next
    case (Some u)
    have v: "live_taps (hist w') = (case hm_get (sys_vms s) u of
        Some (Creating r) \<Rightarrow> live_taps (hist w1) - (if vms_free then set_option (vr_tap_name r) else {})
      | _ \<Rightarrow> live_taps (hist w1))"
      using d Some w1 neutral_view [OF appends_single(2)] teardown_taps [OF tidy]
      by (auto simp: create_guard_drop_def prims host_view_def sys_vms_def files_keep_network fs_remove_file_def
          split: option.split vm_entry.split)
    show ?thesis using w1(2) Some unfolding v by (auto split: option.split vm_entry.split)
  qed
qed


lemma confined_abandon:
  assumes inv: "inv False s" and t: "tasks s t = Some pc" and tidy: "tidy_host E" and con: "confined s"
  shows "confined (s\<lparr>sys_world := drop_task E vms_free pool_free pc (sys_world s), tasks := (tasks s)(t \<mapsto> Done),
    vms_owner := x\<rparr>)" (is "confined ?s'")
proof (rule confined_frame [OF con lost_abandon [OF inv t]])
  let ?w = "drop_task E vms_free pool_free pc (sys_world s)"
  note taps = drop_task_taps [OF inv t tidy refl, of vms_free pool_free]
  show "live_taps (hist (sys_world ?s')) \<subseteq> live_taps (hist (sys_world s))" using taps by simp
  fix i
  assume i: "i \<in> pool_used (sys_pool s)" "i \<notin> pool_used (sys_pool ?s')"
  with drop_task_pool [OF inv t refl, of E vms_free pool_free] obtain u r where
    u: "guarded pc = Some u" "vms_free" "hm_get (sys_vms s) u = Some (Creating r)" "vr_subnet_index r = Some i"
    by (auto simp: sys_pool_def)
  from inv u(3) have "res_ok r" by (fastforce simp: inv_def entries_ok_def)
  with res_tap u(4) have "vr_tap_name r = Some (tap_name i)" by blast
  with taps u(1-3) show "tap_name i \<notin> live_taps (hist (sys_world ?s'))" by auto
qed (auto split: if_splits)

lemma step_confined:
  assumes "sys_step E s l s'" and "undisturbed l" and "inv False s" and "tidy_host E" and "confined s"
  shows "confined s'"
proof -
  note lost = lost_step [OF assms(1,3)]
  show ?thesis using assms
  proof (induction rule: sys_step.cases)
    case (create_request req v m s t u)
    then show ?case using lost by (intro confined_frame [of s s']) (auto simp: sys_pool_def split: if_splits)
  next
    case (delete_request s t u)
    then show ?case using lost by (intro confined_frame [of s s']) (auto simp: sys_pool_def split: if_splits)
  next
    case (work s t pc pc' w')
    with confined_work show ?case by blast
  next
    case (abandon s t pc vms_free pool_free)
    with confined_abandon show ?case by blast
  next
    case (detach s t pc pc')
    then have "sys_step E s (Abandon t) s'" by (simp add: sys_step.detach)
    with detach abandon_loses [of False s t pc _ E s'] have l: "pc_subnet pc = Some i \<Longrightarrow> i \<in> lost s'" for i
      by (auto simp: lost_def held_def)
    have "bare pc' = None" "pc' = DetachedNetwork a \<Longrightarrow> sub_index a \<in> lost s'" for a
      using detach(5) l by (cases pc; auto)+
    with detach lost show ?case
      by (intro confined_frame [of s s']) (auto simp: sys_pool_def split: if_splits)
  next
    case (list_query s)
    have "live_taps (hist (snd (run_state (list_vms E) (sys_world s)))) = live_taps (hist (sys_world s))"
      using unmoved_world [OF unmoved_handlers(1)] by blast
    with list_query lost app_kept_handlers(1) [of E] show ?case
      by (intro confined_frame [of s s']) (auto simp: sys_pool_def app_kept_def)
  next
    case (get_query s u)
    have "live_taps (hist (snd (run_state (get_vm E u) (sys_world s)))) = live_taps (hist (sys_world s))"
      using unmoved_world [OF unmoved_handlers(2)] by blast
    with get_query lost app_kept_handlers(2) [of E u] show ?case
      by (intro confined_frame [of s s']) (auto simp: sys_pool_def app_kept_def)
  next
    case (elapse s es)
    then have "live_taps (hist (sys_world s) @ es) = live_taps (hist (sys_world s))"
      using neutral_events [of es "hist (sys_world s)"] by (simp add: undisturbed_def host_view_def)
    with elapse lost show ?case by (intro confined_frame [of s s']) (auto simp: sys_pool_def)
  qed
qed

lemma reachable_confined:
  assumes "reachable E undisturbed s" and "tidy_host E"
  shows "confined s"
  using assms(1)
proof (induction rule: reachable.induct)
  case (start h cap jc gw)
  then show ?case by (simp add: confined_def initial_def host_view_def)
next
  case (step s l s')
  show ?case by (rule step_confined [OF step(2,3) reachable_inv [OF step(1)] assms(2) step.IH])
qed


text \<open>A client that disconnects while the device of its VM is being made: the device is made and
  stays, on a host without any VM.\<close>

lemma calm_abandoned:
  "\<exists>s s1 s2 a. reachable calm_env undisturbed s \<and> tasks s 0 = Some (Networking (calm_job 5) a)
    \<and> sys_step calm_env s (Abandon 0) s1 \<and> sys_step calm_env s1 (Work 0) s2
    \<and> sys_vms s2 = [] \<and> tasks s2 = [0 \<mapsto> Done] \<and> sub_tap_name a \<in> live_taps (hist (sys_world s2))
    \<and> sub_index a = 0 \<and> pool_allocate (sys_pool s2) \<noteq> None \<and> jailer s2 = calm_jailer"
proof -
  let ?j = "calm_job 5"
  let ?b = "calm_start\<lparr>tasks := (tasks calm_start)(0 \<mapsto> Copying ?j), drawn := insert 5 (drawn calm_start)\<rparr>"
  have u: "undisturbed (Request t)" "undisturbed (Work t)" "undisturbed (Abandon t)" for t by (simp_all add: undisturbed_def)
  have "sys_step calm_env calm_start (Request 0) ?b"
    using create_request [OF calm_validate, of calm_start 0 5] by (simp add: calm_job_def calm_start_def initial_def)
  moreover have "reachable calm_env undisturbed calm_start" unfolding calm_start_def by (rule start) simp
  ultimately have r0: "reachable calm_env undisturbed ?b" using u by (blast intro: step)
  obtain h where c: "run_state (create_copy_rootfs calm_env 5) (sys_world calm_start) = (Inr (), (sys_world calm_start)\<lparr>hist := h\<rparr>)"
    using calm_copy by blast
  let ?a = "\<lparr>sub_index = 0, tap_ip = subnet_tap_ip 0, guest_ip = subnet_guest_ip 0, sub_tap_name = tap_name 0\<rparr>"
  let ?p = "pool_new\<lparr>slots := (slots pool_new)[0 := True]\<rparr>"
  let ?w2 = "(sys_world calm_start)\<lparr>hist := h, app := (app (sys_world calm_start))\<lparr>st_pool := ?p\<rparr>\<rparr>"
  have run: "run_task calm_env 2 (Copying ?j) (sys_world ?b) = (Networking ?j ?a, ?w2)"
    using run_task_step [of 2 calm_env "Copying ?j" "sys_world calm_start"] c
      run_task_step [of 1 calm_env "Allocating ?j" "(sys_world calm_start)\<lparr>hist := h\<rparr>"]
    by (simp add: run_create_alloc calm_start_def initial_def create_app_def allocate_from_new calm_job_def)
  let ?s = "?b\<lparr>sys_world := ?w2, tasks := (tasks ?b)(0 \<mapsto> Networking ?j ?a), vms_owner := None\<rparr>"
  have "vms_owner calm_start = None" by (simp add: calm_start_def initial_def)
  with reach_run [of calm_env undisturbed ?b 0 "Copying ?j" 2, OF r0 u(2) _ _ run]
  have r: "reachable calm_env undisturbed ?s" by simp
  let ?d = "?s\<lparr>tasks := (tasks ?s)(0 \<mapsto> DetachedNetwork ?a)\<rparr>"
  have s1: "sys_step calm_env ?s (Abandon 0) ?d" by (rule sys_step.detach [where pc = "Networking ?j ?a"]) simp_all
  obtain h3 hs where n: "run_state (create_network calm_env ?a) ?w2 = (Some (Inr hs), ?w2\<lparr>hist := h3\<rparr>)"
    using calm_network by blast
  let ?e = "?d\<lparr>sys_world := ?w2\<lparr>hist := h3\<rparr>, tasks := (tasks ?d)(0 \<mapsto> Done),
    vms_owner := (if holds_lock Done then Some 0 else if holds_lock (DetachedNetwork ?a) then None else vms_owner ?d)\<rparr>"
  have s2: "sys_step calm_env ?d (Work 0) ?e"
    by (rule work [where pc = "DetachedNetwork ?a"]) (simp_all add: n)
  have "confined ?s" by (rule reachable_confined [OF r tidy_calm])
  from confinedD(2) [OF this, of 0 "Networking ?j ?a" 0]
  have "sub_tap_name ?a \<notin> live_taps (hist ?w2)" by simp
  from create_network_view [OF tidy_calm join_calm this n] have "sub_tap_name ?a \<in> live_taps h3"
    by (simp add: host_view_def)
  moreover have "pool_allocate ?p \<noteq> None"
  proof
    assume none: "pool_allocate ?p = None"
    have p: "pool_ok ?p" "pool_used ?p = {0}" using pool_allocate_Some [OF pool_ok_new allocate_from_new] by (simp_all add: pool_used_new)
    from subnets.alloc_full [OF p(1)] none p(2) have "pool_range = {0}" by simp
    moreover have "(1 :: u16) \<in> pool_range" by (simp add: pool_range_def MAX_SUBNETS_def)
    ultimately have "(1 :: u16) \<in> {0}" by (simp only:)
    then show False by simp
  qed
  moreover have "sys_vms ?e = []" "tasks ?e = [0 \<mapsto> Done]"
    by (simp_all add: sys_vms_def calm_start_def initial_def create_app_def)
  moreover have "jailer ?e = calm_jailer" by (simp add: jailer_def calm_start_def initial_def create_app_def)
  ultimately show ?thesis using r s1 s2
    by (intro exI [of _ ?s] exI [of _ ?d] exI [of _ ?e] exI [of _ ?a]) (simp add: sys_pool_def)
qed

theorem abandoned_request_loses_subnet_witness:
  "\<exists>s s'. reachable calm_env undisturbed s \<and> (can_step calm_env)\<^sup>*\<^sup>* s s' \<and> sys_vms s' = [] \<and> tasks s' = [0 \<mapsto> Done]
    \<and> 0 \<in> pool_used (sys_pool s')"
proof -
  from calm_abandoned obtain s s1 s2 a where s: "reachable calm_env undisturbed s" "tasks s 0 = Some (Networking (calm_job 5) a)"
    "sys_step calm_env s (Abandon 0) s1" "sys_step calm_env s1 (Work 0) s2" "sys_vms s2 = []" "tasks s2 = [0 \<mapsto> Done]"
    "sub_index a = 0" by (elim exE conjE)
  then have "can_step calm_env s s1" "can_step calm_env s1 s2" by (auto simp: can_step_def)
  then have l: "(can_step calm_env)\<^sup>*\<^sup>* s1 s2" "(can_step calm_env)\<^sup>*\<^sup>* s s2" by auto
  from abandoned_request_loses_subnet [OF s(1,2) _ s(3) l(1), of 0] s l show ?thesis by auto
qed


end
