(* ===== verification/Restart.thy ===== *)
theory Restart
  imports Request_Footprint Abandonment Ssh_Keys
begin

text \<open>
  From one run of the program to the next: what any run leaves on the host, however it ends, is
  named so that the sweep of the next start finds it; where the host lists what it has and deletes
  what it is asked to, nothing is left when the next run starts to serve, however many runs there
  have been.
\<close>

section \<open>What a run leaves is recognisable\<close>

lemma request_event_taps:
  assumes "request_event E jc e"
  shows "tap_step s e \<subseteq> range tap_name \<union> s"
proof (cases e)
  case (EvExec p as r)
  with assms show ?thesis by (auto simp: request_event_def tap_step_def own_ip_def ip_tuntap_add_def ip_link_del_def
    ip_addr_add_def ip_link_up_def split: if_splits)
qed (auto simp: tap_step_def)

lemma request_event_copies:
  assumes "request_event E jc e"
  shows "copy_step c e \<subseteq> range (vm_rootfs_path E jc) \<union> c"
proof (cases e)
  case (EvExec p as r)
  with assms show ?thesis by (auto simp: request_event_def copy_step_def split: if_splits)
qed (auto simp: copy_step_def)

lemma grows_ours:
  assumes "grows E jc h h'"
  shows "live_taps h' \<subseteq> range tap_name \<union> live_taps h"
    "live_copies h' \<subseteq> range (vm_rootfs_path E jc) \<union> live_copies h"
proof -
  from assms obtain es where h': "h' = h @ es" and es: "\<forall>e \<in> set es. request_event E jc e" by (auto simp: grows_def)
  have "ledger tap_step s es \<subseteq> range tap_name \<union> s" for s
    using es
  proof (induction es arbitrary: s)
    case (Cons e es)
    have "ledger tap_step s (e # es) \<subseteq> range tap_name \<union> tap_step s e" using Cons.IH [of "tap_step s e"] Cons.prems by simp
    with request_event_taps [of E jc e s] Cons.prems show ?case by auto
  qed simp
  moreover have "ledger copy_step c es \<subseteq> range (vm_rootfs_path E jc) \<union> c" for c
    using es
  proof (induction es arbitrary: c)
    case (Cons e es)
    have "ledger copy_step c (e # es) \<subseteq> range (vm_rootfs_path E jc) \<union> copy_step c e"
      using Cons.IH [of "copy_step c e"] Cons.prems by simp
    with request_event_copies [of E jc e c] Cons.prems show ?case by auto
  qed simp
  ultimately show "live_taps h' \<subseteq> range tap_name \<union> live_taps h"
    "live_copies h' \<subseteq> range (vm_rootfs_path E jc) \<union> live_copies h"
    by (simp_all add: h' live_taps_def live_copies_def)
qed

text \<open>So in every state of a run that nobody else disturbs, whatever the host has answered.\<close>

definition ours :: "env \<Rightarrow> system \<Rightarrow> bool" where
  "ours E s \<longleftrightarrow> live_taps (hist (sys_world s)) \<subseteq> range tap_name
     \<and> live_copies (hist (sys_world s)) \<subseteq> range (vm_rootfs_path E (jailer s))"

lemma ours_grows:
  assumes "ours E s" and "grows E (jailer s) (hist (sys_world s)) (hist (sys_world s'))" and "jailer s' = jailer s"
  shows "ours E s'"
proof -
  from assms(1) have o: "live_taps (hist (sys_world s)) \<subseteq> range tap_name"
    "live_copies (hist (sys_world s)) \<subseteq> range (vm_rootfs_path E (jailer s))" by (simp_all add: ours_def)
  from grows_ours [OF assms(2), unfolded Un_absorb2 [OF o(1)] Un_absorb2 [OF o(2)]]
  show ?thesis unfolding ours_def assms(3) by (rule conjI)
qed

lemma reachable_ours:
  assumes "reachable E undisturbed s"
  shows "ours E s"
  using assms
proof (induction rule: reachable.induct)
  case (start h cap jc gw)
  then show ?case by (simp add: ours_def initial_def host_view_def)
next
  case (step s l s')
  note inv = reachable_inv [OF step(1)] and wired = reachable_wired [OF step(1)]
  show ?case
  proof (cases "\<exists>es. l = Other es \<and> s' = s\<lparr>sys_world := (sys_world s)\<lparr>hist := hist (sys_world s) @ es\<rparr>\<rparr>")
    case True
    then obtain es where s': "l = Other es" "s' = s\<lparr>sys_world := (sys_world s)\<lparr>hist := hist (sys_world s) @ es\<rparr>\<rparr>" by blast
    with step(3) neutral_events [of es "hist (sys_world s)"] step.IH show ?thesis
      by (simp add: ours_def jailer_def undisturbed_def host_view_def)
  next
    case False
    with step(2) have "own_step l" by (cases rule: sys_step.cases) (auto simp: own_step_def)
    from ours_grows [OF step.IH step_grows [OF step(2) this inv wired] step_jailer [OF step(2) inv wired]]
    show ?thesis .
  qed
qed

section \<open>A host that lists what it has\<close>

text \<open>The listings name at least what is there, and what exists can be deleted.\<close>

definition listed_link :: "nat \<times> string \<times> string \<Rightarrow> bool" where
  "listed_link l = (case l of (idx, name, rest) \<Rightarrow>
     plain_name name \<and> newline \<notin> set rest \<and> rest \<noteq> [] \<and> last rest \<noteq> carriage_return)"

definition lists_devices :: "env \<Rightarrow> bool" where
  "lists_devices E \<longleftrightarrow> (\<forall>h. \<exists>out ls. env_exec E h ''ip'' [''-o'', ''link'', ''show''] = Inr out
     \<and> stdout out = concat (map link_line ls) \<and> list_all listed_link ls
     \<and> {n \<in> live_taps h. is_fc_name n} \<subseteq> (\<lambda>(_, name, _). name) ` set ls)"

definition lists_images :: "env \<Rightarrow> string \<Rightarrow> bool" where
  "lists_images E dir \<longleftrightarrow> (\<forall>h. \<exists>es. env_read_dir E h dir = Inr es
     \<and> (\<forall>name. CHR ''/'' \<notin> set name \<longrightarrow> path_join dir name \<in> live_copies h \<longrightarrow> Inr name \<in> set es))"

definition lists_rules :: "env \<Rightarrow> bool" where
  "lists_rules E \<longleftrightarrow> (\<forall>h. live_rules h \<noteq> 0 \<longrightarrow> (\<exists>out. env_exec E h ''nft'' [''list'', ''table'', ''firecracker''] = Inr out
     \<and> status_success out \<and> has_nftables_rules (stdout out)))"

definition deletes_all :: "env \<Rightarrow> bool" where
  "deletes_all E \<longleftrightarrow> (\<forall>h n. n \<in> live_taps h \<longrightarrow> succeeded (env_exec E h ''ip'' (ip_link_del n)))
     \<and> (\<forall>h p. p \<in> live_copies h \<longrightarrow> env_remove_file E h p = Inr ())
     \<and> (\<forall>h. succeeded (env_exec E h ''nft'' [''flush'', ''table'', ''firecracker'']))"

definition truthful_host :: "env \<Rightarrow> string \<Rightarrow> bool" where
  "truthful_host E dir \<longleftrightarrow> lists_devices E \<and> lists_images E dir \<and> lists_rules E \<and> deletes_all E"

section \<open>The sweep of a truthful host\<close>

lemma remove_loop_view:
  assumes "\<And>h p. p \<in> live_copies h \<Longrightarrow> env_remove_file E h p = Inr ()"
  shows "host_view (snd (run_state (remove_loop E sel dir es n) h)) =
    (live_taps h, live_rules h, live_copies h - path_join dir ` {name. Inr name \<in> set es \<and> sel name})"
proof (induction es arbitrary: n h)
  case (Cons e es)
  show ?case
  proof (cases "\<exists>name. e = Inr name \<and> sel name")
    case False
    then have "{name. Inr name \<in> set (e # es) \<and> sel name} = {name. Inr name \<in> set es \<and> sel name}" by auto
    moreover have "run_state (remove_loop E sel dir (e # es) n) h = run_state (remove_loop E sel dir es n) h"
      using False by (cases e) auto
    ultimately show ?thesis using Cons [of n h] by (simp only:)
  next
    case True
    then obtain name where e: "e = Inr name" "sel name" by blast
    let ?p = "path_join dir name"
    let ?r = "env_remove_file E h ?p"
    let ?h = "h @ [EvRemoveFile ?p ?r]"
    have v: "live_taps ?h = live_taps h" "live_rules ?h = live_rules h" "live_copies ?h = live_copies h - {?p}"
      using assms [of ?p h] by (auto simp: live_taps_def live_rules_def tap_step_def rule_step_def)
    have "\<exists>m. run_state (remove_loop E sel dir (e # es) n) h = run_state (remove_loop E sel dir es m) ?h"
      using e by (auto simp: fs_remove_file_def split: sum.split)
    then obtain m where "run_state (remove_loop E sel dir (e # es) n) h = run_state (remove_loop E sel dir es m) ?h" ..
    moreover have "path_join dir ` {name. Inr name \<in> set (e # es) \<and> sel name} =
        insert ?p (path_join dir ` {name. Inr name \<in> set es \<and> sel name})" using e by auto
    moreover have "live_copies h - {?p} - path_join dir ` {name. Inr name \<in> set es \<and> sel name} =
        live_copies h - insert ?p (path_join dir ` {name. Inr name \<in> set es \<and> sel name})" by blast
    ultimately show ?thesis using Cons [of m ?h] v by (simp only:)
  qed
qed (simp add: host_view_def)

lemma tap_loop_view:
  assumes "\<And>h n. n \<in> live_taps h \<Longrightarrow> succeeded (env_exec E h ''ip'' (ip_link_del n))"
  shows "host_view (snd (run_state (tap_loop E names n) h)) = (live_taps h - set names, live_rules h, live_copies h)"
proof (induction names arbitrary: n h)
  case (Cons name names)
  let ?h = "h @ [EvExec ''ip'' (ip_link_del name) (env_exec E h ''ip'' (ip_link_del name))]"
  have v: "live_taps ?h = live_taps h - {name}" "live_rules ?h = live_rules h" "live_copies ?h = live_copies h"
    using assms [of name h] by (auto simp: live_rules_def live_copies_def rule_step_def copy_step_def)
  have "\<exists>m. run_state (tap_loop E (name # names) n) h = run_state (tap_loop E names m) ?h"
    by (auto simp: command_output_def split: sum.split)
  then obtain m where "run_state (tap_loop E (name # names) n) h = run_state (tap_loop E names m) ?h" ..
  with Cons [of m ?h] v show ?case by auto
qed (simp add: host_view_def)


lemma kill_neutral: "appends ledger_neutral (kill_orphaned_processes E)"
  unfolding kill_orphaned_processes_def Let_def
  by (intro footprint) (simp_all add: ledger_neutral_def tap_step_def rule_step_def copy_step_def)

lemma workspaces_neutral: "appends ledger_neutral (remove_stale_jailer_workspaces E)"
proof -
  have n: "ledger_neutral (EvReadDir p r)" "ledger_neutral (EvRemoveDirAll p r')" for p r r'
    by (simp_all add: ledger_neutral_def tap_step_def rule_step_def copy_step_def)
  have "appends ledger_neutral (workspace_loop E jailer_workspace_dir es cnt)" for es cnt
  proof (induction es arbitrary: cnt)
    case (Cons e es)
    then show ?case by (cases e) (simp_all, intro footprint n Cons.IH, simp)
  qed (simp add: appends_return)
  then show ?thesis unfolding remove_stale_jailer_workspaces_def by (intro footprint n)
qed

lemma own_name:
  assumes "env_uuid_to_string E u \<noteq> []" and "CHR ''/'' \<notin> set (env_uuid_to_string E u)"
  shows "CHR ''/'' \<notin> set (env_uuid_to_string E u @ ''.ext4'')" "is_ext4 (env_uuid_to_string E u @ ''.ext4'')"
  using assms file_extension_append [of "''ext4''" "env_uuid_to_string E u"] by (simp_all add: is_ext4_def)

lemma images_swept:
  assumes truth: "truthful_host E dir"
    and names: "\<And>u. env_uuid_to_string E0 u \<noteq> [] \<and> CHR ''/'' \<notin> set (env_uuid_to_string E0 u)"
    and ours: "live_copies h \<subseteq> range (vm_rootfs_path E0 jc)" and dir: "jc_vm_images_dir jc = dir"
  shows "host_view (snd (run_state (remove_stale_rootfs_copies E dir) h)) = (live_taps h, live_rules h, {})"
proof -
  from truth obtain es where es: "env_read_dir E h dir = Inr es"
    "\<And>name. CHR ''/'' \<notin> set name \<Longrightarrow> path_join dir name \<in> live_copies h \<Longrightarrow> Inr name \<in> set es"
    unfolding truthful_host_def lists_images_def by blast
  have rm: "p \<in> live_copies h \<Longrightarrow> env_remove_file E h p = Inr ()" for h p
    using truth by (simp add: truthful_host_def deletes_all_def)
  let ?h = "h @ [EvReadDir dir (Inr es)]"
  have v: "live_taps ?h = live_taps h" "live_rules ?h = live_rules h" "live_copies ?h = live_copies h"
    by (simp_all add: live_taps_def live_rules_def live_copies_def tap_step_def rule_step_def copy_step_def)
  have all: "live_copies h \<subseteq> path_join dir ` {name. Inr name \<in> set es \<and> is_ext4 name}"
  proof
    fix p
    assume p: "p \<in> live_copies h"
    with ours obtain u where "p = vm_rootfs_path E0 jc u" by blast
    then have u: "p = path_join dir (env_uuid_to_string E0 u @ ''.ext4'')" by (simp add: vm_rootfs_path_def dir)
    have n: "CHR ''/'' \<notin> set (env_uuid_to_string E0 u @ ''.ext4'')" "is_ext4 (env_uuid_to_string E0 u @ ''.ext4'')"
      using own_name [of E0 u] names [of u] by blast+
    from es(2) [OF n(1)] p n(2) show "p \<in> path_join dir ` {name. Inr name \<in> set es \<and> is_ext4 name}"
      unfolding u by blast
  qed
  obtain m h2 where m: "run_state (remove_loop E is_ext4 dir es 0) ?h = (m, h2)" by fastforce
  with remove_loop_view [OF rm, of is_ext4 dir es 0 ?h] v all have "host_view h2 = (live_taps h, live_rules h, {})" by auto
  with m es(1) show ?thesis by (simp add: remove_stale_rootfs_copies_def fs_read_dir_def)
qed

lemma listed_names:
  assumes "list_all listed_link ls"
  shows "parse_fc_tap_devices (concat (map link_line ls)) = filter is_fc_name (map (\<lambda>(_, name, _). name) ls)"
  using parse_fc_tap_devices_exact [of ls] assms by (fastforce simp: listed_link_def list_all_iff)

lemma devices_swept:
  assumes truth: "truthful_host E dir" and ours: "live_taps h \<subseteq> range tap_name"
  shows "host_view (snd (run_state (remove_stale_tap_devices E) h)) = ({}, live_rules h, live_copies h)"
proof -
  from truth obtain out ls where l: "env_exec E h ''ip'' [''-o'', ''link'', ''show''] = Inr out"
    "stdout out = concat (map link_line ls)" "list_all listed_link ls" "{n \<in> live_taps h. is_fc_name n} \<subseteq> (\<lambda>(_, name, _). name) ` set ls"
    unfolding truthful_host_def lists_devices_def by blast
  have del: "n \<in> live_taps h \<Longrightarrow> succeeded (env_exec E h ''ip'' (ip_link_del n))" for h n
    using truth by (simp add: truthful_host_def deletes_all_def)
  let ?names = "filter is_fc_name (map (\<lambda>(_, name, _). name) ls)"
  let ?h = "h @ [EvExec ''ip'' [''-o'', ''link'', ''show''] (Inr out)]"
  have v: "live_taps ?h = live_taps h" "live_rules ?h = live_rules h" "live_copies ?h = live_copies h"
    by (simp_all add: live_taps_def live_rules_def live_copies_def tap_step_def rule_step_def copy_step_def
      ip_tuntap_add_def ip_link_del_def)
  have fc: "is_fc_name (tap_name i)" for i
    using show_nat_digits by (auto simp: is_fc_name_def tap_name_def list_all_iff)
  have all: "live_taps h \<subseteq> set ?names"
  proof
    fix n
    assume n: "n \<in> live_taps h"
    with ours fc have "is_fc_name n" by blast
    with n l(4) show "n \<in> set ?names" by auto
  qed
  show ?thesis
  proof (cases "?names = []")
    case True
    with all have "live_taps h = {}" by simp
    with l listed_names [OF l(3)] True v show ?thesis
      by (simp add: remove_stale_tap_devices_def command_output_def host_view_def)
  next
    case False
    obtain m h2 where m: "run_state (tap_loop E ?names 0) ?h = (m, h2)" by fastforce
    with tap_loop_view [OF del, of ?names 0 ?h] v all have "host_view h2 = ({}, live_rules h, live_copies h)" by auto
    with m l listed_names [OF l(3)] False show ?thesis
      by (simp add: remove_stale_tap_devices_def command_output_def)
  qed
qed


lemma rules_swept:
  assumes truth: "truthful_host E dir"
  shows "host_view (snd (run_state (flush_nftables_rules E) h)) = (live_taps h, 0, live_copies h)"
proof -
  let ?l = "env_exec E h ''nft'' [''list'', ''table'', ''firecracker'']"
  let ?h = "h @ [EvExec ''nft'' [''list'', ''table'', ''firecracker''] ?l]"
  let ?f = "env_exec E ?h ''nft'' [''flush'', ''table'', ''firecracker'']"
  let ?g = "?h @ [EvExec ''nft'' [''flush'', ''table'', ''firecracker''] ?f]"
  have v: "live_taps ?h = live_taps h" "live_rules ?h = live_rules h" "live_copies ?h = live_copies h"
    by (simp_all add: live_taps_def live_rules_def live_copies_def tap_step_def rule_step_def copy_step_def)
  have f: "succeeded ?f" using truth by (simp add: truthful_host_def deletes_all_def)
  then have g: "live_taps ?g = live_taps ?h" "live_rules ?g = 0" "live_copies ?g = live_copies ?h"
    using live_rules_snoc(3) [of ?h ?f] by (simp_all add: live_taps_def live_copies_def tap_step_def copy_step_def)
  have "snd (run_state (flush_nftables_rules E) h) = ?g
    \<or> snd (run_state (flush_nftables_rules E) h) = ?h \<and> live_rules h = 0"
  proof (cases "live_rules h = 0")
    case True
    then show ?thesis by (auto simp: flush_nftables_rules_def command_output_def split: sum.splits)
  next
    case False
    with truth obtain out where "?l = Inr out" "status_success out" "has_nftables_rules (stdout out)"
      unfolding truthful_host_def lists_rules_def by blast
    then show ?thesis by (auto simp: flush_nftables_rules_def command_output_def split: sum.splits)
  qed
  then show ?thesis
  proof (elim disjE conjE)
    assume "snd (run_state (flush_nftables_rules E) h) = ?g"
    with g v show ?thesis by (simp only: host_view_def)
  next
    assume "snd (run_state (flush_nftables_rules E) h) = ?h" "live_rules h = 0"
    with v show ?thesis by (simp only: host_view_def)
  qed
qed

lemma logs_swept:
  assumes truth: "truthful_host E dir" and "live_copies h = {}"
  shows "host_view (snd (run_state (remove_stale_jailer_logs E) h)) = host_view h"
proof -
  have rm: "p \<in> live_copies h \<Longrightarrow> env_remove_file E h p = Inr ()" for h p
    using truth by (simp add: truthful_host_def deletes_all_def)
  let ?r = "env_read_dir E h ''/tmp''"
  let ?h = "h @ [EvReadDir ''/tmp'' ?r]"
  have v: "live_taps ?h = live_taps h" "live_rules ?h = live_rules h" "live_copies ?h = {}"
    using assms(2) by (simp_all add: live_taps_def live_rules_def live_copies_def tap_step_def rule_step_def copy_step_def)
  show ?thesis
  proof (cases ?r)
    case (Inl e)
    with v assms(2) show ?thesis by (simp add: remove_stale_jailer_logs_def fs_read_dir_def host_view_def)
  next
    case (Inr es)
    obtain m h2 where m: "run_state (remove_loop E is_jailer_log ''/tmp'' es 0) ?h = (m, h2)" by fastforce
    with remove_loop_view [OF rm, of is_jailer_log "''/tmp''" es 0 ?h] v have "host_view h2 = (live_taps h, live_rules h, {})"
      by simp
    with m Inr assms(2) show ?thesis by (simp add: remove_stale_jailer_logs_def fs_read_dir_def host_view_def)
  qed
qed

lemma sweep_clears:
  assumes truth: "truthful_host E dir"
    and names: "\<And>u. env_uuid_to_string E0 u \<noteq> [] \<and> CHR ''/'' \<notin> set (env_uuid_to_string E0 u)"
    and ours: "live_taps h \<subseteq> range tap_name" "live_copies h \<subseteq> range (vm_rootfs_path E0 jc)"
    and dir: "jc_vm_images_dir jc = dir"
  shows "host_view (snd (run_state (cleanup_orphans E dir) h)) = ({}, 0, {})"
proof -
  obtain a h1 where a: "run_state (kill_orphaned_processes E) h = (a, h1)" by (cases "run_state (kill_orphaned_processes E) h")
  obtain b h2 where b: "run_state (remove_stale_jailer_workspaces E) h1 = (b, h2)"
    by (cases "run_state (remove_stale_jailer_workspaces E) h1")
  obtain c h3 where c: "run_state (remove_stale_rootfs_copies E dir) h2 = (c, h3)"
    by (cases "run_state (remove_stale_rootfs_copies E dir) h2")
  obtain d h4 where d: "run_state (remove_stale_tap_devices E) h3 = (d, h4)" by (cases "run_state (remove_stale_tap_devices E) h3")
  obtain e h5 where e: "run_state (flush_nftables_rules E) h4 = (e, h5)" by (cases "run_state (flush_nftables_rules E) h4")
  obtain f h6 where f: "run_state (remove_stale_jailer_logs E) h5 = (f, h6)" by (cases "run_state (remove_stale_jailer_logs E) h5")
  have v2: "live_taps h2 = live_taps h" "live_copies h2 = live_copies h"
    using neutral_view [OF kill_neutral, of E h] neutral_view [OF workspaces_neutral, of E h1] a b by (simp_all add: host_view_def)
  have v3: "live_taps h3 = live_taps h" "live_copies h3 = {}"
    using images_swept [OF truth names _ dir, of h2] v2 ours(2) c by (simp_all add: host_view_def)
  have v4: "live_taps h4 = {}" "live_copies h4 = {}"
    using devices_swept [OF truth, of h3] v3 ours(1) d by (simp_all add: host_view_def)
  have v5: "host_view h5 = ({}, 0, {})" using rules_swept [OF truth, of h4] v4 e by (simp add: host_view_def)
  then have "host_view h6 = ({}, 0, {})" using logs_swept [OF truth, of h5] f by (simp add: host_view_def)
  moreover have "snd (run_state (cleanup_orphans E dir) h) = h6" using a b c d e f by (simp add: cleanup_orphans_def)
  ultimately show ?thesis by simp
qed

section \<open>The preflight check makes no copy that stays\<close>

definition frugal :: "'a io \<Rightarrow> bool" where
  "frugal m \<longleftrightarrow> (\<forall>h. live_copies (snd (run_state m h)) \<subseteq> live_copies h)"

named_theorems frugality \<open>introduction rules for operations that leave no new copy\<close>

lemma frugal_return [frugality]: "frugal (ret x)"
  by (simp add: frugal_def)

lemma frugal_bind [frugality]:
  assumes "frugal m" and "\<And>x. frugal (f x)"
  shows "frugal (State_Monad.bind m f)"
  unfolding frugal_def
proof
  fix h
  obtain x h1 where r: "run_state m h = (x, h1)" by (cases "run_state m h")
  with assms have "live_copies h1 \<subseteq> live_copies h" "live_copies (snd (run_state (f x) h1)) \<subseteq> live_copies h1"
    unfolding frugal_def by (metis snd_conv)+
  with r show "live_copies (snd (run_state (State_Monad.bind m f) h)) \<subseteq> live_copies h" by auto
qed

lemma frugal_cases [frugality]:
  "(\<And>x. frugal (f x)) \<Longrightarrow> (\<And>y. frugal (g y)) \<Longrightarrow> frugal (case r of Inl x \<Rightarrow> f x | Inr y \<Rightarrow> g y)"
  "frugal n \<Longrightarrow> (\<And>y. frugal (g y)) \<Longrightarrow> frugal (case q of Panicked \<Rightarrow> n | Finished y \<Rightarrow> g y)"
  "(\<And>x y. frugal (k x y)) \<Longrightarrow> frugal (case p of (x, y) \<Rightarrow> k x y)"
  "frugal m \<Longrightarrow> frugal n \<Longrightarrow> frugal (if b then m else n)"
  by (simp_all split: sum.split outcome.split prod.split)

lemma frugal_try [frugality]: "frugal m \<Longrightarrow> (\<And>a. frugal (f a)) \<Longrightarrow> frugal (try_then m f)"
  unfolding try_then_def by (intro frugality)

lemma frugal_inspecting:
  assumes "appends inspecting m"
  shows "frugal m"
  unfolding frugal_def
proof
  fix h
  have "copy_step c e = c" if "inspecting e" for c e
    using that by (auto simp: inspecting_def copy_step_def split: event.splits)
  from appends_ledger_kept [OF assms this] show "live_copies (snd (run_state m h)) \<subseteq> live_copies h"
    by (simp add: live_copies_def)
qed

lemma frugal_probe:
  assumes "deletes_all E"
  shows "frugal (detect_copy_strategy E)"
  unfolding frugal_def
proof
  fix h
  have rm: "live_copies (h @ [EvRemoveFile p (env_remove_file E h p)]) = live_copies h - {p}" for h p
    using assms by (auto simp: deletes_all_def)
  have w: "live_copies (h @ [EvWriteFile p c r]) = live_copies h" for h p c r
    by (simp add: live_copies_def copy_step_def)
  have neq: "probe_src \<noteq> probe_dst" by code_simp
  show "live_copies (snd (run_state (detect_copy_strategy E) h)) \<subseteq> live_copies h"
  proof -
    let ?h1 = "h @ [EvRemoveFile probe_src (env_remove_file E h probe_src)]"
    let ?h2 = "?h1 @ [EvRemoveFile probe_dst (env_remove_file E ?h1 probe_dst)]"
    let ?h3 = "?h2 @ [EvWriteFile probe_src ''probe'' (env_write E ?h2 probe_src ''probe'')]"
    let ?as = "[''--reflink=always'', probe_src, probe_dst]"
    let ?h4 = "?h3 @ [EvExec ''cp'' ?as (env_exec E ?h3 ''cp'' ?as)]"
    let ?h5 = "?h4 @ [EvRemoveFile probe_src (env_remove_file E ?h4 probe_src)]"
    let ?h6 = "?h5 @ [EvRemoveFile probe_dst (env_remove_file E ?h5 probe_dst)]"
    have l3: "live_copies ?h3 \<subseteq> live_copies h" using w [of ?h2] rm [of ?h1] rm [of h] by auto
    have "live_copies ?h4 \<subseteq> insert probe_dst (live_copies ?h3)" by (simp only: live_copies_snoc) auto
    then have "live_copies ?h6 \<subseteq> live_copies h" using rm [of ?h5] rm [of ?h4] l3 by auto
    moreover have "snd (run_state (detect_copy_strategy E) h) = ?h3 \<or> snd (run_state (detect_copy_strategy E) h) = ?h6"
      by (auto simp: detect_copy_strategy_def fs_remove_file_def fs_write_def command_output_def split: sum.splits)
    ultimately show ?thesis using l3 by (elim disjE) (simp_all only:)
  qed
qed

lemma frugal_preflight:
  assumes "deletes_all E"
  shows "frugal (preflight_check sv E)"
  unfolding preflight_check_def preflight_host_def preflight_detect_def preflight_interface_def
  by (intro frugality frugal_probe [OF assms] checks [THEN frugal_inspecting])


section \<open>Recovery\<close>

lemma gateway_neutral: "appends ledger_neutral (init_gateway E)"
  by (rule appends_mono [OF appends_init_gateway])
    (auto simp: gateway_event_def ledger_neutral_def tap_step_def rule_step_def copy_step_def split: event.splits)

text \<open>What a run may leave, seen from the host, and a start after it.\<close>

definition left_over :: "env \<Rightarrow> string \<Rightarrow> history \<Rightarrow> bool" where
  "left_over E dir h \<longleftrightarrow> live_taps h \<subseteq> range tap_name
     \<and> live_copies h \<subseteq> range (\<lambda>u. path_join dir (env_uuid_to_string E u @ ''.ext4''))"

lemma ours_left: "ours E s \<Longrightarrow> left_over E (jc_vm_images_dir (jailer s)) (hist (sys_world s))"
  by (simp add: ours_def left_over_def vm_rootfs_path_def)

lemma left_over_shrinks:
  "left_over E dir h \<Longrightarrow> live_taps h' \<subseteq> live_taps h \<Longrightarrow> live_copies h' \<subseteq> live_copies h \<Longrightarrow> left_over E dir h'"
  unfolding left_over_def by blast

lemma preflight_left:
  assumes "deletes_all E" and "left_over E dir h" and "run_state (preflight_check sv E) h = (p, h')"
  shows "left_over E dir h'"
proof -
  have "live_copies h' \<subseteq> live_copies h"
    using frugal_preflight [OF assms(1), of sv] assms(3) unfolding frugal_def by (metis snd_conv)
  moreover have "live_taps h' = live_taps h"
    using appends_ledger_kept [OF probing_preflight, where step = tap_step, OF probing_keeps(1), of "{}" sv E h] assms(3)
    by (simp add: live_taps_def)
  ultimately show ?thesis using left_over_shrinks [OF assms(2)] by simp
qed

lemma startup_recovers:
  assumes truth: "truthful_host E dir" and left: "left_over E dir h"
    and names: "\<And>u. env_uuid_to_string E u \<noteq> [] \<and> CHR ''/'' \<notin> set (env_uuid_to_string E u)"
    and run: "run_state (startup sv E bytes par) h = (Finished (Inr st), h')" and dir: "jc_vm_images_dir (st_jailer st) = dir"
  shows "host_view h' = ({}, 0, {}) \<and> (\<exists>cap cfg gw. st = create_app cap cfg gw)"
proof -
  obtain p h1 where p: "run_state (preflight_check sv E) h = (p, h1)" by fastforce
  with run obtain cfg where cfg: "p = Finished (Inr cfg)"
    by (auto simp: startup_def split: outcome.splits sum.splits)
  obtain b h2 where b: "run_state (cleanup_orphans E (jc_vm_images_dir cfg)) h1 = (b, h2)" by fastforce
  obtain gw h3 where g: "run_state (init_gateway E) h2 = (gw, h3)" by fastforce
  have st: "st = create_app (available_capacity bytes par) cfg gw" "h' = h3"
    using run p cfg b g by (simp_all add: startup_def)
  then have d: "jc_vm_images_dir cfg = dir" using dir by (simp add: create_app_def)
  have "deletes_all E" using truth by (simp add: truthful_host_def)
  from preflight_left [OF this left p] have l: "live_taps h1 \<subseteq> range tap_name" "live_copies h1 \<subseteq> range (vm_rootfs_path E cfg)"
    by (simp_all add: left_over_def vm_rootfs_path_def d)
  have "host_view h2 = ({}, 0, {})" using sweep_clears [OF truth names l d] b d by simp
  then have "host_view h' = ({}, 0, {})" using neutral_view [OF gateway_neutral, of E h2] g st(2) by simp
  with st(1) show ?thesis by blast
qed

text \<open>A graceful shutdown removes what it finds and makes nothing new.\<close>

definition removing :: "event \<Rightarrow> bool" where
  "removing e \<longleftrightarrow> (\<forall>s. tap_step s e \<subseteq> s) \<and> (\<forall>c. copy_step c e \<subseteq> c)"

lemma removing_events:
  "ledger_neutral e \<Longrightarrow> removing e" "removing (EvExec ''ip'' (ip_link_del n) r)" "removing (EvExec ''nft'' as r)"
  "removing (EvRemoveFile p r2)"
  by (auto simp: removing_def ledger_neutral_def tap_step_def copy_step_def ip_link_del_def ip_tuntap_add_def)

lemma removing_ledgers:
  assumes "\<forall>e \<in> set es. removing e"
  shows "live_taps (h @ es) \<subseteq> live_taps h" "live_copies (h @ es) \<subseteq> live_copies h"
proof -
  have "ledger tap_step s es \<subseteq> s \<and> ledger copy_step c es \<subseteq> c" for s c
    using assms
  proof (induction es arbitrary: s c)
    case (Cons e es)
    then have "tap_step s e \<subseteq> s" "copy_step c e \<subseteq> c" by (simp_all add: removing_def)
    with Cons.IH [of "tap_step s e" "copy_step c e"] Cons.prems show ?case by auto
  qed simp
  then show "live_taps (h @ es) \<subseteq> live_taps h" "live_copies (h @ es) \<subseteq> live_copies h"
    by (simp_all add: live_taps_def live_copies_def)
qed

lemma neutral_removing: "appends ledger_neutral m \<Longrightarrow> appends removing m"
  by (erule appends_mono) (rule removing_events)

lemma emits_shutdown_entry: "emits removing (shutdown_entry E e)"
proof -
  have sdk: "appends removing (sdk_request E inst c)" "appends removing (drop_instance inst)" for inst c
    unfolding sdk_request_def drop_instance_def by (intro footprint removing_events ledger_neutral_events)+
  have net: "appends removing (delete_tap E n)" "appends removing (remove_nat_rules E hs)" for n hs
    unfolding delete_tap_def remove_nat_rules_def by (intro footprint removing_events)+
  have rm: "appends removing (fs_remove_file E p)" for p
    unfolding fs_remove_file_def by (intro footprint removing_events)
  show ?thesis unfolding shutdown_entry_def by (intro emitting sdk net rm)
qed

lemma emits_shutdown: "emits removing (shutdown E)"
proof -
  have es: "emits removing (shutdown_entries E es)" for es
    by (induction es) (simp_all add: emits_prims, intro emitting emits_shutdown_entry)
  have gw: "appends removing (deregister_all E client us)" for client us
    by (induction us) (simp_all add: appends_return, intro footprint neutral_removing [OF appends_gw_neutral(2)])
  have "emits removing (put_vms vms)" for vms by (simp add: emits_def prims)
  then show ?thesis unfolding shutdown_def by (intro emitting es gw)
qed

section \<open>From life to life\<close>

text \<open>
  The host over time: the program is down or up. It may be started at any time, with the images in
  the same directory, and may refuse; while it is up it serves; it may be killed in any state, or
  be shut down. While it is down others may act, but not on what it owns.
\<close>

datatype phase = Down history | Up system

inductive lives :: "'v semver \<Rightarrow> env \<Rightarrow> string \<Rightarrow> phase \<Rightarrow> bool" for sv E dir where
  fresh: "host_view h = ({}, 0, {}) \<Longrightarrow> lives sv E dir (Down h)"
| boot: "lives sv E dir (Down h) \<Longrightarrow> run_state (startup sv E bytes par) h = (Finished (Inr st), h') \<Longrightarrow>
     jc_vm_images_dir (st_jailer st) = dir \<Longrightarrow>
     lives sv E dir (Up \<lparr>sys_world = \<lparr>hist = h', app = st\<rparr>, tasks = (\<lambda>_. None), vms_owner = None, drawn = {}\<rparr>)"
| refuse: "lives sv E dir (Down h) \<Longrightarrow> run_state (startup sv E bytes par) h = (r, h') \<Longrightarrow> \<nexists>st. r = Finished (Inr st) \<Longrightarrow>
     lives sv E dir (Down h')"
| serve: "lives sv E dir (Up s) \<Longrightarrow> sys_step E s l s' \<Longrightarrow> undisturbed l \<Longrightarrow> lives sv E dir (Up s')"
| kill: "lives sv E dir (Up s) \<Longrightarrow> lives sv E dir (Down (hist (sys_world s)))"
| stop: "lives sv E dir (Up s) \<Longrightarrow> run_state (shutdown E) (sys_world s) = (r, w) \<Longrightarrow> lives sv E dir (Down (hist w))"
| wait: "lives sv E dir (Down h) \<Longrightarrow> list_all ledger_neutral es \<Longrightarrow> lives sv E dir (Down (h @ es))"

lemma startup_refuses:
  assumes "run_state (startup sv E bytes par) h = (r, h')" and "\<nexists>st. r = Finished (Inr st)"
  shows "\<exists>p. run_state (preflight_check sv E) h = (p, h')"
proof -
  obtain p h1 where p: "run_state (preflight_check sv E) h = (p, h1)" by fastforce
  with assms show ?thesis by (auto simp: startup_def split: outcome.splits sum.splits prod.splits)
qed

fun sound :: "env \<Rightarrow> string \<Rightarrow> phase \<Rightarrow> bool" where
  "sound E dir (Down h) = left_over E dir h"
| "sound E dir (Up s) = (reachable E undisturbed s \<and> jc_vm_images_dir (jailer s) = dir)"

lemma sound_up: "sound E dir (Up s) \<Longrightarrow> left_over E dir (hist (sys_world s))"
  using ours_left [OF reachable_ours] by auto

lemma lives_sound:
  assumes truth: "truthful_host E dir"
    and names: "\<And>u. env_uuid_to_string E u \<noteq> [] \<and> CHR ''/'' \<notin> set (env_uuid_to_string E u)"
    and "lives sv E dir p"
  shows "sound E dir p"
  using assms(3)
proof (induction rule: lives.induct)
  case (fresh h)
  then show ?case by (simp add: left_over_def host_view_def)
next
  case (boot h bytes par st h')
  from startup_recovers [OF truth _ names boot(2,3)] boot.IH obtain cap cfg gw where
    v: "host_view h' = ({}, 0, {})" and st: "st = create_app cap cfg gw" by auto
  from start [OF v, of E undisturbed cap cfg gw] st boot(3) show ?case
    by (simp add: initial_def jailer_def)
next
  case (refuse h bytes par r h')
  have "deletes_all E" using truth by (simp add: truthful_host_def)
  moreover obtain p where "run_state (preflight_check sv E) h = (p, h')" using startup_refuses [OF refuse(2,3)] ..
  ultimately show ?case using preflight_left refuse.IH by fastforce
next
  case (serve s l s')
  then have r: "reachable E undisturbed s" by simp
  from step_jailer [OF serve(2) reachable_inv [OF r] reachable_wired [OF r]] serve step [OF r serve(2,3)] show ?case by simp
next
  case (kill s)
  from sound_up [OF kill.IH] show ?case by simp
next
  case (stop s r w)
  from emitsD [OF emits_shutdown, of E "sys_world s"] stop(2) obtain es where
    "hist w = hist (sys_world s) @ es" "\<forall>e \<in> set es. removing e" by auto
  with left_over_shrinks [OF sound_up [OF stop.IH]] removing_ledgers [of es "hist (sys_world s)"] show ?case by simp
next
  case (wait h es)
  then have "\<forall>e \<in> set es. removing e" using removing_events(1) by (auto simp: list_all_iff)
  with left_over_shrinks [of E dir h "h @ es"] removing_ledgers [of es h] wait.IH show ?case by simp
qed


text \<open>A host whose listings repeat every word of every command so far, and whose table always shows a rule.\<close>

definition words_of :: "history \<Rightarrow> string list" where
  "words_of h = concat (map (\<lambda>e. case e of EvExec p as r \<Rightarrow> as | _ \<Rightarrow> []) h)"

lemma words_cover: "live_taps h \<subseteq> set (words_of h)" "live_copies h \<subseteq> set (words_of h)"
proof -
  have "ledger tap_step s h \<subseteq> s \<union> set (words_of h)" for s
  proof (induction h arbitrary: s)
    case (Cons e h)
    have "tap_step s e \<subseteq> s \<union> set (words_of [e])" by (auto simp: tap_step_def words_of_def split: event.split)
    with Cons [of "tap_step s e"] show ?case by (auto simp: words_of_def)
  qed simp
  from this [of "{}"] show "live_taps h \<subseteq> set (words_of h)" by (simp add: live_taps_def)
  have "ledger copy_step s h \<subseteq> s \<union> set (words_of h)" for s
  proof (induction h arbitrary: s)
    case (Cons e h)
    have "copy_step s e \<subseteq> s \<union> set (words_of [e])" by (auto simp: copy_step_def words_of_def split: event.split)
    with Cons [of "copy_step s e"] show ?case by (auto simp: words_of_def)
  qed simp
  from this [of "{}"] show "live_copies h \<subseteq> set (words_of h)" by (simp add: live_copies_def)
qed

lemma file_name_join:
  assumes "CHR ''/'' \<notin> set name"
  shows "file_name (path_join dir name) = name"
proof -
  have r: "takeWhile (\<lambda>c. c \<noteq> CHR ''/'') (rev name @ xs) = rev name @ takeWhile (\<lambda>c. c \<noteq> CHR ''/'') xs" for xs
    by (rule takeWhile_append2) (use assms in auto)
  have n: "takeWhile (\<lambda>c. c \<noteq> CHR ''/'') (rev name) = rev name" using r [of "[]"] by simp
  have j: "file_name (d @ CHR ''/'' # name) = name" for d using r [of "CHR ''/'' # rev d"] by (simp add: file_name_def)
  have a: "\<not> is_absolute name" using assms by (cases name) (auto simp: is_absolute_def)
  show ?thesis
  proof (cases dir rule: rev_cases)
    case Nil
    then show ?thesis by (simp only: path_join_def file_name_def n rev_rev_ident simp_thms if_True)
  next
    case (snoc d c)
    have "path_join dir name = (if c = CHR ''/'' then d else dir) @ CHR ''/'' # name"
      using a by (simp add: path_join_def snoc)
    then show ?thesis using j by (simp only:)
  qed
qed

definition echo_exec :: "history \<Rightarrow> string \<Rightarrow> string list \<Rightarrow> io_error + proc_output" where
  "echo_exec h p as = (if p = ''ip'' \<and> as = [''-o'', ''link'', ''show''] then
      Inr \<lparr>status_success = True, stdout = concat (map link_line (map (\<lambda>n. (1, n, ''<UP>'')) (filter is_fc_name (words_of h)))),
        stderr = []\<rparr>
    else env_exec provisioned_env h p as)"

definition echo_dir :: "history \<Rightarrow> string \<Rightarrow> io_error + (io_error + string) list" where
  "echo_dir h d = Inr (map (\<lambda>w. Inr (file_name w)) (words_of h))"

definition echo_env :: env where
  "echo_env = provisioned_env\<lparr>env_exec := echo_exec, env_read_dir := echo_dir\<rparr>"

lemma fc_name_plain:
  assumes "is_fc_name n"
  shows "plain_name n"
proof -
  from assms obtain d where n: "n = ''fc'' @ d" and d: "list_all is_ascii_digit d"
    by (auto simp: is_fc_name_def starts_with_iff)
  have "\<not> is_ws c \<and> c \<noteq> CHR '':''" if "is_ascii_digit c" for c
    using that by (auto simp: is_ascii_digit_def digit_val_def is_ws_def Let_def split: if_splits)
  with d show ?thesis unfolding n by (auto simp: plain_name_def list_all_iff is_ws_def)
qed

lemma echo_truthful: "truthful_host echo_env dir"
proof -
  have "lists_devices echo_env"
    unfolding lists_devices_def
  proof (intro allI exI conjI)
    fix h
    let ?ls = "map (\<lambda>n. (1, n, ''<UP>'')) (filter is_fc_name (words_of h))"
    show "env_exec echo_env h ''ip'' [''-o'', ''link'', ''show''] =
      Inr \<lparr>status_success = True, stdout = concat (map link_line ?ls), stderr = []\<rparr>"
      by (simp add: echo_env_def echo_exec_def)
    show "list_all listed_link ?ls"
      by (auto simp: list_all_iff listed_link_def fc_name_plain newline_def carriage_return_def)
    show "{n \<in> live_taps h. is_fc_name n} \<subseteq> (\<lambda>(_, name, _). name) ` set ?ls"
      using words_cover(1) [of h] by force
  qed simp
  moreover have "lists_images echo_env dir"
    unfolding lists_images_def
  proof (intro allI exI conjI impI)
    fix h name
    show "env_read_dir echo_env h dir = Inr (map (\<lambda>w. Inr (file_name w)) (words_of h))"
      by (simp add: echo_env_def echo_dir_def)
    assume n: "CHR ''/'' \<notin> set name" "path_join dir name \<in> live_copies h"
    with words_cover(2) [of h] have "path_join dir name \<in> set (words_of h)" by blast
    then have "Inr (file_name (path_join dir name)) \<in> set (map (\<lambda>w. Inr (file_name w)) (words_of h))"
      unfolding set_map by (rule imageI)
    then show "Inr name \<in> set (map (\<lambda>w. Inr (file_name w)) (words_of h))" unfolding file_name_join [OF n(1)] .
  qed
  moreover have "has_nftables_rules busy_table" by code_simp
  then have "lists_rules echo_env" by (simp add: lists_rules_def echo_env_def echo_exec_def provisioned_env_def)
  moreover have "deletes_all echo_env"
    by (simp add: deletes_all_def echo_env_def echo_exec_def provisioned_env_def succeeded_def ip_link_del_def)
  ultimately show ?thesis by (simp add: truthful_host_def)
qed

lemma echo_starts:
  "\<exists>st h'. run_state (startup list_semver echo_env bytes par) h = (Finished (Inr st), h')
    \<and> jc_vm_images_dir (st_jailer st) = VM_IMAGES_DIR"
proof -
  have "checked_command as \<Longrightarrow> echo_exec h p as = env_exec provisioned_env [] p as" for h p as
    by (auto simp: checked_command_def echo_exec_def provisioned_env_def)
  from provisioned_ready [OF this echo_env_def]
  have "yields_outcome (preflight_check list_semver echo_env) (host_ready list_semver echo_env)"
    "host_ready list_semver echo_env provisioned_config" using preflight_yields by blast+
  then have "fst (run_state (preflight_check list_semver echo_env) h) = Finished (Inr provisioned_config)"
    by (simp add: yields_outcome_def)
  then obtain h1 where p: "run_state (preflight_check list_semver echo_env) h = (Finished (Inr provisioned_config), h1)"
    by (cases "run_state (preflight_check list_semver echo_env) h") simp
  obtain b h2 where b: "run_state (cleanup_orphans echo_env VM_IMAGES_DIR) h1 = (b, h2)" by fastforce
  obtain gw h3 where g: "run_state (init_gateway echo_env) h2 = (gw, h3)" by fastforce
  show ?thesis using p b g by (simp add: startup_def provisioned_config_def create_app_def)
qed

text \<open>A program killed just after it has copied the disk of a VM, and the start after that.\<close>

lemma echo_copies:
  assumes "advance echo_env (Copying j) w = (pc', w')"
  shows "vm_rootfs_path echo_env (st_jailer (app w)) (j_id j) \<in> live_copies (hist w')"
proof -
  have x: "\<exists>out. env_exec echo_env h p as = Inr out \<and> status_success out" "env_spawn_blocking echo_env h" for h p as
    by (simp_all add: echo_env_def echo_exec_def provisioned_env_def calm_env_def)
  let ?c = "''cp''" and ?as = "[copy_flag (jc_copy_strategy (st_jailer (app w))), jc_rootfs_path (st_jailer (app w)),
    vm_rootfs_path echo_env (st_jailer (app w)) (j_id j)]"
  obtain o1 where o1: "env_exec echo_env (hist w @ [EvSpawnBlocking True]) ?c ?as = Inr o1" "status_success o1" using x(1) by blast
  let ?h = "hist w @ [EvSpawnBlocking True, EvExec ?c ?as (Inr o1)]"
  obtain o2 where o2: "env_exec echo_env ?h ''chown'' [show_nat JAILER_UID @ '':'' @ show_nat JAILER_GID, ?as ! 2] = Inr o2"
    "status_success o2" using x(1) by blast
  have "hist w' = ?h @ [EvExec ''chown'' [show_nat JAILER_UID @ '':'' @ show_nat JAILER_GID, ?as ! 2] (Inr o2)]"
    using assms o1 o2 x(2)
    by (auto simp: create_copy_rootfs_def spawn_blocking_def copy_rootfs_def command_output_def prims)
  then have "hist w' = (hist w @ [EvSpawnBlocking True]) @ [EvExec ?c ?as (Inr o1),
    EvExec ''chown'' [show_nat JAILER_UID @ '':'' @ show_nat JAILER_GID, ?as ! 2] (Inr o2)]" by simp
  with o1(2) show ?thesis by (simp only: live_copies_snoc) (simp add: succeeded_def)
qed


end
