(* ===== verification/Server_State.thy ===== *)
theory Server_State
  imports Host_Disks
begin

text \<open>
  Two facts of the whole server: what every entry of the VM map looks like, field by field, and
  that the server drains, that is, it comes to rest once no new requests arrive.
\<close>

section \<open>What an entry is made of\<close>

fun pc_job :: "pc \<Rightarrow> job option" where
  "pc_job (Copying j) = Some j"
| "pc_job (Allocating j) = Some j"
| "pc_job (Networking j _) = Some j"
| "pc_job (Unwinding j _ _) = Some j"
| "pc_job (Reserving j _ _) = Some j"
| "pc_job (SettingUp j _) = Some j"
| "pc_job (Failing j) = Some j"
| "pc_job (FailReleasing j _) = Some j"
| "pc_job (Upgrading j _ _ _) = Some j"
| "pc_job (Reporting j _ _ _ _) = Some j"
| "pc_job (DetachedCopy j) = Some j"
| "pc_job _ = None"

lemma advance_job: "advance E pc w = (pc', w') \<Longrightarrow> pc_job pc' = Some j \<Longrightarrow> pc_job pc = Some j"
  by (cases pc) (auto split: prod.splits sum.splits option.splits outcome.splits)

lemma detached_job: "detached pc = Some pc' \<Longrightarrow> pc_job pc' = Some j \<Longrightarrow> pc_job pc = Some j"
  by (cases pc) auto

text \<open>The job of a request that has passed the validation, and the record its entry holds.\<close>

definition asked :: "job \<Rightarrow> bool" where
  "asked j \<longleftrightarrow> (\<exists>req. create_validate req = Inr (j_vcpus j, j_memory_mb j) \<and> j_keys j = request_keys req)"

definition made :: "env \<Rightarrow> jailer_config \<Rightarrow> uuid \<Rightarrow> vm_resources \<Rightarrow> bool" where
  "made E jc u r \<longleftrightarrow> (\<exists>j a hs. asked j \<and> alloc_ok a
     \<and> r = new_resources E jc u (j_vcpus j) (j_memory_mb j) (j_keys j) a hs)"

definition all_made :: "env \<Rightarrow> jailer_config \<Rightarrow> vm_map \<Rightarrow> bool" where
  "all_made E jc vms \<longleftrightarrow> (\<forall>u e. hm_get vms u = Some e \<longrightarrow> made E jc u (entry_resources e))"

definition all_asked :: "(nat \<Rightarrow> pc option) \<Rightarrow> bool" where
  "all_asked ts \<longleftrightarrow> (\<forall>t pc j. ts t = Some pc \<longrightarrow> pc_job pc = Some j \<longrightarrow> asked j)"

lemma all_madeD: "all_made E jc vms \<Longrightarrow> hm_get vms u = Some e \<Longrightarrow> made E jc u (entry_resources e)"
  unfolding all_made_def by blast

lemma all_made_upd:
  assumes "all_made E jc vms" and "hm_get vms' = (hm_get vms)(u := x)"
    and "\<And>e. x = Some e \<Longrightarrow> made E jc u (entry_resources e)"
  shows "all_made E jc vms'"
  using assms unfolding all_made_def by (auto split: if_splits)

lemma all_askedD: "all_asked ts \<Longrightarrow> ts t = Some pc \<Longrightarrow> pc_job pc = Some j \<Longrightarrow> asked j"
  unfolding all_asked_def by blast

lemma all_asked_upd: "all_asked ts \<Longrightarrow> (\<And>j. pc_job pc = Some j \<Longrightarrow> asked j) \<Longrightarrow> all_asked (ts(t \<mapsto> pc))"
  unfolding all_asked_def by (auto split: if_splits)

lemma advance_made:
  assumes inv: "inv False s" and t: "tasks s t = Some pc" and adv: "advance E pc (sys_world s) = (pc', w')"
    and m: "all_made E (jailer s) (sys_vms s)" and a: "all_asked (tasks s)"
  shows "all_made E (jailer s) (st_vms (app w'))"
proof -
  have new: "made E (jailer s) (j_id j) (new_resources E (jailer s) (j_id j) (j_vcpus j) (j_memory_mb j) (j_keys j) al hs)"
    if "pc = Reserving j al hs" for j al hs
  proof -
    have "asked j" "alloc_ok al" using all_askedD [OF a t] inv_facts(6) [OF inv t] that by simp_all
    then show ?thesis unfolding made_def by blast
  qed
  show ?thesis
    unfolding all_made_def using advance_entries [OF inv t adv all_madeD [OF m] new] by blast
qed

lemma step_made:
  assumes "sys_step E s l s'" and "inv False s" and "all_wired E s"
    and m: "all_made E (jailer s) (sys_vms s)" and a: "all_asked (tasks s)"
  shows "all_made E (jailer s) (sys_vms s') \<and> all_asked (tasks s')"
  using assms(1)
proof (cases rule: sys_step.cases)
  case (create_request req v mb t u)
  then have "asked \<lparr>j_id = u, j_vcpus = v, j_memory_mb = mb, j_keys = request_keys req\<rparr>" by (auto simp: asked_def)
  with create_request m all_asked_upd [OF a, of "Copying \<lparr>j_id = u, j_vcpus = v, j_memory_mb = mb, j_keys = request_keys req\<rparr>"]
  show ?thesis by (simp add: sys_vms_def)
next
  case (delete_request t u)
  with m all_asked_upd [OF a, of "Deleting u"] show ?thesis by (simp add: sys_vms_def)
next
  case (work t pc pc' w')
  from all_askedD [OF a work(3) advance_job [OF work(6)]] have "all_asked ((tasks s)(t \<mapsto> pc'))" by (rule all_asked_upd [OF a])
  with work advance_made [OF assms(2) work(3,6) m a] show ?thesis by (simp add: sys_vms_def)
next
  case (abandon t pc vms_free pool_free)
  let ?w = "drop_task E vms_free pool_free pc (sys_world s)"
  have "all_made E (jailer s) (st_vms (app ?w))"
    using drop_task_map [of E vms_free pool_free pc "sys_world s", THEN conjunct2]
  proof (elim disjE exE conjE)
    fix u
    assume "st_vms (app ?w) = hm_remove u (st_vms (app (sys_world s)))"
    then show ?thesis by (intro all_made_upd [OF m, of _ u None]) (simp_all add: hmap sys_vms_def)
  qed (use m in \<open>simp add: sys_vms_def\<close>)
  with abandon all_asked_upd [OF a, of Done] show ?thesis by (simp add: sys_vms_def)
next
  case (detach t pc pc')
  from all_askedD [OF a detach(3) detached_job [OF detach(4)]] have "all_asked ((tasks s)(t \<mapsto> pc'))" by (rule all_asked_upd [OF a])
  with detach m show ?thesis by (simp add: sys_vms_def)
next
  case list_query
  with m a app_kept_handlers(1) [of E] show ?thesis by (simp add: sys_vms_def app_kept_def)
next
  case (get_query u)
  with m a app_kept_handlers(2) [of E u] show ?thesis by (simp add: sys_vms_def app_kept_def)
next
  case elapse
  with m a show ?thesis by (simp add: sys_vms_def)
qed

lemma reachable_made: "reachable E allowed s \<Longrightarrow> all_made E (jailer s) (sys_vms s) \<and> all_asked (tasks s)"
proof (induction rule: reachable.induct)
  case start
  then show ?case by (simp add: all_made_def all_asked_def initial_def create_app_def sys_vms_def)
next
  case (step s l s')
  note inv = reachable_inv [OF step(1)] and wired = reachable_wired [OF step(1)]
  from step_made [OF step(2) inv wired] step.IH step_jailer [OF step(2) inv wired] show ?case by simp
qed

text \<open>C4: Every entry of the VM map is complete and consistent, in every reachable state of every
  interleaving: its size is one that the validation returned for some request, so it is among
  the documented ones, its keys are those of that request, and device, address and subnet are
  those of one index of the pool; disk and console socket are those of its own id, and the
  handles of its rules are there. So no code that reads an entry's optional fields ever finds
  one empty.\<close>

theorem entries_well_formed:
  assumes "reachable E allowed s" and "hm_get (sys_vms s) u = Some e"
  shows "\<exists>req i hs. create_validate req = Inr (vr_vcpus (entry_resources e), vr_memory_mb (entry_resources e))
    \<and> allowed_vcpus (unat (vr_vcpus (entry_resources e))) \<and> 128 \<le> unat (vr_memory_mb (entry_resources e))
    \<and> i \<in> pool_range \<and> entry_resources e = \<lparr>
      vr_vcpus = vr_vcpus (entry_resources e), vr_memory_mb = vr_memory_mb (entry_resources e),
      vr_rootfs_copy = Some (vm_rootfs_path E (jailer s) u), vr_tap_name = Some (tap_name i), vr_subnet_index = Some i,
      vr_nat_handles = Some hs, vr_guest_ip = Some (ipv4_to_string (subnet_guest_ip i)),
      vr_vsock_uds_path = Some (vsock_runtime_path E u), vr_ssh_keys = request_keys req\<rparr>"
proof -
  from all_madeD [OF _ assms(2)] reachable_made [OF assms(1)] obtain j a hs where j: "asked j" and a: "alloc_ok a"
    and r: "entry_resources e = new_resources E (jailer s) u (j_vcpus j) (j_memory_mb j) (j_keys j) a hs"
    unfolding made_def by blast
  from j obtain req where req: "create_validate req = Inr (j_vcpus j, j_memory_mb j)" "j_keys j = request_keys req"
    by (auto simp: asked_def)
  have "allowed_vcpus (unat (j_vcpus j)) \<and> 128 \<le> unat (j_memory_mb j)"
    using req(1) by (auto simp: create_validate_def validated split: option.splits sum.splits)
  with req a show ?thesis unfolding r
    by (intro exI [of _ req] exI [of _ "sub_index a"] exI [of _ hs]) (simp add: new_resources_def alloc_ok_def)
qed

theorem entries_well_formed_witness:
  "\<exists>s e e'. reachable calm_env undisturbed s \<and> hm_get (sys_vms s) 5 = Some e \<and> hm_get (sys_vms s) 6 = Some e'
    \<and> 128 \<le> unat (vr_memory_mb (entry_resources e)) \<and> 128 \<le> unat (vr_memory_mb (entry_resources e'))"
proof -
  have "quiet l \<Longrightarrow> undisturbed l" for l by (simp add: quiet_def undisturbed_def split: label.splits)
  moreover obtain s i1 r1 i2 r2 where s: "reachable calm_env quiet s"
    "hm_get (sys_vms s) = [5 \<mapsto> Running i1 r1, 6 \<mapsto> Running i2 r2]" using calm_quiet by blast
  ultimately have r: "reachable calm_env undisturbed s" using reachable_mono by blast
  have e: "hm_get (sys_vms s) 5 = Some (Running i1 r1)" "hm_get (sys_vms s) 6 = Some (Running i2 r2)" using s(2) by simp_all
  from entries_well_formed [OF r e(1)] entries_well_formed [OF r e(2)] r e show ?thesis by blast
qed

section \<open>The server drains\<close>

text \<open>Left to themselves, the requests under way come to their ends.\<close>

definition working :: "env \<Rightarrow> system \<Rightarrow> system \<Rightarrow> bool" where
  "working E s s' \<longleftrightarrow> (\<exists>t. sys_step E s (Work t) s')"

definition idle :: "system \<Rightarrow> bool" where
  "idle s \<longleftrightarrow> (\<forall>t pc. tasks s t = Some pc \<longrightarrow> finished pc)"

definition backlog :: "system \<Rightarrow> nat" where
  "backlog s = (\<Sum>t | tasks s t \<noteq> None. rank (the (tasks s t)))"

fun acting :: "label \<Rightarrow> nat set" where
  "acting (Request t) = {t}"
| "acting (Work t) = {t}"
| "acting (Abandon t) = {t}"
| "acting (Other _) = {}"

lemma step_tasks: "sys_step E s l s' \<Longrightarrow> x \<notin> acting l \<Longrightarrow> tasks s' x = tasks s x"
  by (cases rule: sys_step.cases) auto

lemma finitely_many: "reachable E allowed s \<Longrightarrow> finite {t. tasks s t \<noteq> None}"
proof (induction rule: reachable.induct)
  case start
  then show ?case by (simp add: initial_def)
next
  case (step s l s')
  have "{x. tasks s' x \<noteq> None} \<subseteq> acting l \<union> {x. tasks s x \<noteq> None}" using step_tasks [OF step(2)] by auto
  moreover have "finite (acting l)" by (cases l) simp_all
  ultimately show ?case using step.IH by (blast intro: finite_subset)
qed

lemma working_backlog:
  assumes "finite {t. tasks s t \<noteq> None}" and "working E s s'"
  shows "finite {t. tasks s' t \<noteq> None}" "backlog s' < backlog s"
proof -
  from assms(2) obtain t pc q w' where t: "tasks s t = Some pc" "\<not> finished pc" "advance E pc (sys_world s) = (q, w')"
    "tasks s' = (tasks s)(t \<mapsto> q)" unfolding working_def by (auto simp: work_iff)
  let ?T = "{t. tasks s t \<noteq> None}"
  have T: "{t. tasks s' t \<noteq> None} = ?T" using t by auto
  with assms(1) show "finite {t. tasks s' t \<noteq> None}" by simp
  have in_T: "t \<in> ?T" using t(1) by simp
  have "(\<Sum>x \<in> ?T - {t}. rank (the (tasks s' x))) = (\<Sum>x \<in> ?T - {t}. rank (the (tasks s x)))"
    using t(4) by (intro sum.cong) auto
  moreover have "rank (the (tasks s' t)) < rank (the (tasks s t))" using advance_rank [OF t(2), of E "sys_world s"] t by simp
  ultimately show "backlog s' < backlog s"
    unfolding backlog_def T sum.remove [OF assms(1) in_T] by simp
qed

lemma working_runs:
  assumes "finite {t. tasks s t \<noteq> None}" and "(working E ^^ n) s s'"
  shows "finite {t. tasks s' t \<noteq> None} \<and> n + backlog s' \<le> backlog s"
  using assms(2)
proof (induction n arbitrary: s')
  case (Suc n)
  then obtain m where m: "(working E ^^ n) s m" "working E m s'" by auto
  with Suc.IH [OF m(1)] working_backlog [of m E s'] show ?case by fastforce
qed (use assms(1) in simp)

lemma working_reachable: "(working E ^^ n) s s' \<Longrightarrow> reachable E (\<lambda>_. True) s \<Longrightarrow> reachable E (\<lambda>_. True) s'"
proof (induction n arbitrary: s')
  case (Suc n)
  then obtain m where "(working E ^^ n) s m" "working E m s'" by auto
  with Suc show ?case by (auto simp: working_def intro: step)
qed simp

text \<open>A state with an unfinished task is never stuck, whoever holds the lock.\<close>

lemma not_stuck:
  assumes "inv False s" and "\<not> idle s"
  shows "\<exists>s'. working E s s'"
proof -
  have go: "\<exists>s'. working E s s'" if "tasks s t = Some pc" "\<not> finished pc" "needs_lock pc \<Longrightarrow> vms_owner s = None" for t pc
    using work [OF that, of E] unfolding working_def by (metis surj_pair)
  from assms(2) obtain t pc where t: "tasks s t = Some pc" "\<not> finished pc" by (auto simp: idle_def)
  show ?thesis
  proof (cases "vms_owner s")
    case None
    with go [OF t] show ?thesis by blast
  next
    case (Some p)
    with assms(1) obtain q where "tasks s p = Some q" "holds_lock q" by (auto simp: inv_def lock_ok_def)
    then show ?thesis by (cases q) (auto intro: go)
  qed
qed

lemma idle_done: "inv False s \<Longrightarrow> idle s \<Longrightarrow> vms_owner s = None \<and> (\<nexists>s'. working E s s')"
proof
  assume inv: "inv False s" and idle: "idle s"
  show "vms_owner s = None"
  proof (rule ccontr)
    assume "vms_owner s \<noteq> None"
    with inv obtain t q where "tasks s t = Some q" "holds_lock q" by (auto simp: inv_def lock_ok_def)
    moreover from this idle have "finished q" unfolding idle_def by blast
    ultimately show False by (cases q) simp_all
  qed
  show "\<nexists>s'. working E s s'" using idle by (auto simp: idle_def working_def work_iff)
qed

lemma drains_from:
  assumes "reachable E (\<lambda>_. True) s"
  shows "\<exists>n s'. (working E ^^ n) s s' \<and> idle s'"
  using assms
proof (induction "backlog s" arbitrary: s rule: less_induct)
  case less
  show ?case
  proof (cases "idle s")
    case True
    then show ?thesis by (intro exI [of _ 0] exI [of _ s]) simp
  next
    case False
    with not_stuck reachable_inv [OF less.prems] obtain m where m: "working E s m" by blast
    moreover have "reachable E (\<lambda>_. True) m" using m less.prems by (auto simp: working_def intro: step)
    ultimately obtain n s' where "(working E ^^ n) m s'" "idle s'"
      using less.hyps [of m] working_backlog(2) [OF finitely_many [OF less.prems] m] by blast
    with relpowp_Suc_I2 [of "working E", OF m] show ?thesis by blast
  qed
qed

lemma backlog_bound: "backlog s \<le> 7 * card {t. tasks s t \<noteq> None}"
proof -
  have "rank pc \<le> 7" for pc by (cases pc) simp_all
  then have "backlog s \<le> of_nat (card {t. tasks s t \<noteq> None}) * 7" unfolding backlog_def by (intro sum_bounded_above) simp
  then show ?thesis by simp
qed

text \<open>C12: The server drains: from every reachable state, once nothing new arrives, every way in which
  the requests under way can go on ends, after at most 7 steps for each request so far, whatever
  the host answers. It can only end with every request finished and the lock free, never stuck
  before; and such an end is reached.\<close>

theorem server_drains:
  assumes "reachable E allowed s"
  shows "(\<forall>n s'. (working E ^^ n) s s' \<longrightarrow> n \<le> 7 * card {t. tasks s t \<noteq> None}
      \<and> ((\<exists>s''. working E s' s'') \<or> idle s' \<and> vms_owner s' = None))
    \<and> (\<exists>n s'. (working E ^^ n) s s' \<and> idle s' \<and> vms_owner s' = None \<and> (\<nexists>s''. working E s' s''))"
proof -
  have r: "reachable E (\<lambda>_. True) s" by (rule reachable_mono [OF assms]) simp
  have all: "n \<le> 7 * card {t. tasks s t \<noteq> None} \<and> ((\<exists>s''. working E s' s'') \<or> idle s' \<and> vms_owner s' = None)"
    if "(working E ^^ n) s s'" for n s'
    using working_runs [OF finitely_many [OF r] that] backlog_bound [of s]
      not_stuck [of s' E] idle_done [of s' E] reachable_inv [OF working_reachable [OF that r]] by fastforce
  moreover obtain n s' where n: "(working E ^^ n) s s'" "idle s'" using drains_from [OF r] by blast
  ultimately show ?thesis using idle_done [OF reachable_inv [OF working_reachable [OF n(1) r]] n(2), of E] by blast
qed

theorem server_drains_witness:
  "\<exists>s n s'. reachable calm_env (\<lambda>l. \<not> is_abandon l) s \<and> \<not> idle s \<and> (working calm_env ^^ n) s s' \<and> idle s'"
proof -
  obtain s a inst desc where s: "reachable calm_env (\<lambda>l. \<not> is_abandon l) s"
    "tasks s 1 = Some (Upgrading (calm_job 6) a inst desc)"
    using calm_two_vms by blast
  then have "\<not> idle s" by (fastforce simp: idle_def)
  with server_drains [OF s(1)] s(1) show ?thesis by blast
qed

end
