(* ===== verification/Other_Systems.thy ===== *)
theory Other_Systems
  imports Preflight
begin

text \<open>
  The stubs that stand for \<open>firecracker/network.rs\<close>, \<open>orphan.rs\<close> and \<open>preflight.rs\<close> when the program
  is built for a system other than Linux. All other theories model the Linux build; here is what
  the stubs make of the functions that call them.
\<close>

section \<open>Networking\<close>

definition other_create_tap :: "string \<Rightarrow> ipv4 \<Rightarrow> (anyhow + unit) io" where
  "other_create_tap name ip = ret (Inr ())"

definition other_delete_tap :: "string \<Rightarrow> unit io" where
  "other_delete_tap name = ret ()"

definition other_add_nat_rules :: "ipv4 \<Rightarrow> string \<Rightarrow> string \<Rightarrow> (anyhow + nat_handles) io" where
  "other_add_nat_rules ip tap iface = ret (Inr \<lparr>postrouting = 0, filter_handle = 0\<rparr>)"

definition other_remove_nat_rules :: "nat_handles \<Rightarrow> unit io" where
  "other_remove_nat_rules handles = ret ()"

definition other_detect_host_interface :: "(anyhow + string) io" where
  "other_detect_host_interface = ret (Inr ''eth0'')"

section \<open>The sweep\<close>

definition other_kill_orphaned_processes :: "bool io" where
  "other_kill_orphaned_processes = ret False"

definition other_remove_stale_jailer_workspaces :: "bool io" where
  "other_remove_stale_jailer_workspaces = ret False"

definition other_remove_stale_rootfs_copies :: "string \<Rightarrow> bool io" where
  "other_remove_stale_rootfs_copies dir = ret False"

definition other_remove_stale_tap_devices :: "bool io" where
  "other_remove_stale_tap_devices = ret False"

definition other_flush_nftables_rules :: "bool io" where
  "other_flush_nftables_rules = ret False"

definition other_remove_stale_jailer_logs :: "bool io" where
  "other_remove_stale_jailer_logs = ret False"

definition other_cleanup_orphans :: "string \<Rightarrow> bool io" where
  "other_cleanup_orphans vm_images_dir = do {
     a \<leftarrow> other_kill_orphaned_processes;
     b \<leftarrow> other_remove_stale_jailer_workspaces;
     c \<leftarrow> other_remove_stale_rootfs_copies vm_images_dir;
     d \<leftarrow> other_remove_stale_tap_devices;
     e \<leftarrow> other_flush_nftables_rules;
     f \<leftarrow> other_remove_stale_jailer_logs;
     ret (a \<or> b \<or> c \<or> d \<or> e \<or> f)
   }"

lemmas other_stubs = other_create_tap_def other_delete_tap_def other_add_nat_rules_def
  other_remove_nat_rules_def other_detect_host_interface_def other_kill_orphaned_processes_def
  other_remove_stale_jailer_workspaces_def other_remove_stale_rootfs_copies_def
  other_remove_stale_tap_devices_def other_flush_nftables_rules_def other_remove_stale_jailer_logs_def

text \<open>Nothing is done to the host: the network calls succeed, the sweep finds nothing.\<close>

lemma other_network_silent:
  "run_state (other_create_tap name ip) h = (Inr (), h)" "run_state (other_delete_tap name) h = ((), h)"
  "run_state (other_remove_nat_rules handles) h = ((), h)"
  "\<exists>hs. run_state (other_add_nat_rules ip name iface) h = (Inr hs, h)"
  by (simp_all add: other_stubs)

lemma other_sweep_silent: "run_state (other_cleanup_orphans dir) h = (False, h)"
  by (simp add: other_cleanup_orphans_def other_stubs)

section \<open>The preflight check\<close>

definition other_check_kvm_available :: "(anyhow + unit) io" where
  "other_check_kvm_available = ret (Inr ())"

definition other_check_jailer_user :: "(anyhow + unit) io" where
  "other_check_jailer_user = ret (Inr ())"

definition other_check_jailer_filesystem :: "(anyhow + unit) io" where
  "other_check_jailer_filesystem = ret (Inr ())"

definition other_check_vm_images_dir :: "(anyhow + unit) io" where
  "other_check_vm_images_dir = ret (Inr ())"

definition other_check_vsock_dir :: "(anyhow + unit) io" where
  "other_check_vsock_dir = ret (Inr ())"

definition other_check_networking_prerequisites :: "(anyhow + unit) io" where
  "other_check_networking_prerequisites = ret (Inr ())"

definition other_detect_copy_strategy :: "copy_strategy io" where
  "other_detect_copy_strategy = ret Sparse"

definition other_detect_cgroup_version :: "nat io" where
  "other_detect_cgroup_version = ret 2"

definition other_host_interface :: "env \<Rightarrow> string outcome io" where
  "other_host_interface E = do {
     v \<leftarrow> env_lookup E ''WARLOCK_HOST_IFACE'';
     case v of
       Some name \<Rightarrow> ret (Finished name)
     | None \<Rightarrow> do {
         r \<leftarrow> other_detect_host_interface;
         ret (case r of Inl _ \<Rightarrow> Panicked | Inr name \<Rightarrow> Finished name)
       }
   }"

definition other_preflight_host :: "env \<Rightarrow> string \<Rightarrow> (anyhow + jailer_config) outcome io" where
  "other_preflight_host E firecracker_path =
     try_then (check_jailer_binary E) (\<lambda>jailer_path.
     try_then other_check_kvm_available (\<lambda>_.
     try_then other_check_jailer_user (\<lambda>_.
     try_then other_check_jailer_filesystem (\<lambda>_.
     try_then other_check_vm_images_dir (\<lambda>_.
     try_then other_check_vsock_dir (\<lambda>_. do {
       cgroup \<leftarrow> other_detect_cgroup_version;
       strategy \<leftarrow> other_detect_copy_strategy;
       try_then other_check_networking_prerequisites (\<lambda>_. do {
         iface \<leftarrow> other_host_interface E;
         case iface of
           Panicked \<Rightarrow> ret Panicked
         | Finished iface \<Rightarrow> do {
             r \<leftarrow> resolve_assets E cgroup strategy firecracker_path jailer_path iface;
             ret (Finished r)
           }
       })
     }))))))"

definition other_preflight_check :: "'v semver \<Rightarrow> env \<Rightarrow> (anyhow + jailer_config) outcome io" where
  "other_preflight_check sv E = do {
     dev \<leftarrow> is_dev_mode E;
     if dev then ret (Finished (Inr dev_config))
     else
       try_then (check_firecracker_binary E) (\<lambda>(version_output, firecracker_path).
       case parse_and_validate_version sv version_output of
         Panicked \<Rightarrow> ret Panicked
       | Finished (Inl e) \<Rightarrow> ret (Finished (Inl e))
       | Finished (Inr version) \<Rightarrow> other_preflight_host E firecracker_path)
   }"

lemmas other_checks = other_check_kvm_available_def other_check_jailer_user_def
  other_check_jailer_filesystem_def other_check_vm_images_dir_def other_check_vsock_dir_def
  other_check_networking_prerequisites_def other_detect_copy_strategy_def other_detect_cgroup_version_def

lemma run_try_return: "run_state (try_then (ret (Inr ())) f) h = run_state (f ()) h"
  by (simp add: try_then_def)

text \<open>What is left of the check: the two binaries and the two images, nothing of the system.\<close>

definition other_ready :: "'v semver \<Rightarrow> env \<Rightarrow> jailer_config \<Rightarrow> bool" where
  "other_ready sv E cfg \<longleftrightarrow>
     binary_at E ''FIRECRACKER_BIN'' ''firecracker'' (jc_firecracker_path cfg)
     \<and> (\<exists>raw v. runs E (jc_firecracker_path cfg) [''--version''] raw \<and> trim raw \<noteq> []
          \<and> parse_and_validate_version sv (trim raw) = Finished (Inr v))
     \<and> binary_at E ''JAILER_BIN'' ''jailer'' (jc_jailer_path cfg)
     \<and> (\<exists>out. runs E (jc_jailer_path cfg) [''--version''] out)
     \<and> env_canonicalize E [] ''/opt/firecracker/vmlinux'' = Inr (jc_kernel_path cfg)
     \<and> env_canonicalize E [] ''/opt/firecracker/rootfs.ext4'' = Inr (jc_rootfs_path cfg)
     \<and> jc_cgroup_version cfg = 2 \<and> jc_vm_images_dir cfg = VM_IMAGES_DIR \<and> jc_copy_strategy cfg = Sparse
     \<and> jc_host_interface cfg = unwrap_or (env_var E [] ''WARLOCK_HOST_IFACE'') ''eth0''"

lemma answers_other_interface:
  assumes "unchanging E"
  shows "answers (other_host_interface E) (Finished (unwrap_or (env_var E [] ''WARLOCK_HOST_IFACE'') ''eth0''))"
  using assms by (auto simp: answers_def other_host_interface_def other_stubs env_lookup_def unwrap_or_def
    unchangingD split: option.split)

lemma yields_finished: "yields m P \<Longrightarrow> yields_outcome (do { r \<leftarrow> m; ret (Finished r) }) P"
  by (auto simp: yields_def yields_outcome_def split: prod.split) (metis fst_conv)+

lemma yields_other_host:
  assumes "unchanging E"
  shows "yields_outcome (other_preflight_host E fp) (\<lambda>cfg. binary_at E ''JAILER_BIN'' ''jailer'' (jc_jailer_path cfg)
     \<and> (\<exists>out. runs E (jc_jailer_path cfg) [''--version''] out) \<and> jc_firecracker_path cfg = fp
     \<and> env_canonicalize E [] ''/opt/firecracker/vmlinux'' = Inr (jc_kernel_path cfg)
     \<and> env_canonicalize E [] ''/opt/firecracker/rootfs.ext4'' = Inr (jc_rootfs_path cfg)
     \<and> jc_cgroup_version cfg = 2 \<and> jc_vm_images_dir cfg = VM_IMAGES_DIR \<and> jc_copy_strategy cfg = Sparse
     \<and> jc_host_interface cfg = unwrap_or (env_var E [] ''WARLOCK_HOST_IFACE'') ''eth0'')"
proof -
  let ?name = "unwrap_or (env_var E [] ''WARLOCK_HOST_IFACE'') ''eth0''"
  have "yields_outcome (do {
       iface \<leftarrow> other_host_interface E;
       case iface of
         Panicked \<Rightarrow> ret Panicked
       | Finished iface \<Rightarrow> do { r \<leftarrow> resolve_assets E 2 Sparse fp jp iface; ret (Finished r) }
     }) (\<lambda>cfg. env_canonicalize E [] ''/opt/firecracker/vmlinux'' = Inr (jc_kernel_path cfg)
     \<and> env_canonicalize E [] ''/opt/firecracker/rootfs.ext4'' = Inr (jc_rootfs_path cfg)
     \<and> jc_cgroup_version cfg = 2 \<and> jc_firecracker_path cfg = fp \<and> jc_jailer_path cfg = jp
     \<and> jc_vm_images_dir cfg = VM_IMAGES_DIR \<and> jc_copy_strategy cfg = Sparse \<and> jc_host_interface cfg = ?name)" for jp
    by (rule yields_outcome_bind [OF answers_other_interface [OF assms]])
      (simp add: yields_finished [OF yields_assets [OF assms]])
  from yields_try_then [OF yields_jailer [OF assms] this] show ?thesis
    unfolding other_preflight_host_def other_checks yields_outcome_def run_try_return
    by (simp add: try_then_def) (auto simp: try_then_def)
qed

text \<open>On another system the check demands only that, and it never panics for want of a route.\<close>

lemma other_preflight_accepts_iff:
  assumes "unchanging E"
  shows "fst (run_state (other_preflight_check sv E) h) = Finished (Inr cfg) \<longleftrightarrow>
    (if dev_mode E then cfg = dev_config else other_ready sv E cfg)"
proof -
  have version: "yields_outcome (case a of (out, fp) \<Rightarrow>
       case parse_and_validate_version sv out of
         Panicked \<Rightarrow> ret Panicked
       | Finished (Inl e) \<Rightarrow> ret (Finished (Inl e))
       | Finished (Inr version) \<Rightarrow> other_preflight_host E fp)
     (\<lambda>cfg. (\<exists>v. parse_and_validate_version sv (fst a) = Finished (Inr v)) \<and>
       binary_at E ''JAILER_BIN'' ''jailer'' (jc_jailer_path cfg)
       \<and> (\<exists>out. runs E (jc_jailer_path cfg) [''--version''] out) \<and> jc_firecracker_path cfg = snd a
       \<and> env_canonicalize E [] ''/opt/firecracker/vmlinux'' = Inr (jc_kernel_path cfg)
       \<and> env_canonicalize E [] ''/opt/firecracker/rootfs.ext4'' = Inr (jc_rootfs_path cfg)
       \<and> jc_cgroup_version cfg = 2 \<and> jc_vm_images_dir cfg = VM_IMAGES_DIR \<and> jc_copy_strategy cfg = Sparse
       \<and> jc_host_interface cfg = unwrap_or (env_var E [] ''WARLOCK_HOST_IFACE'') ''eth0'')" for a
    by (cases a) (simp add: yields_version [OF yields_other_host [OF assms]])
  have "yields_outcome (if dev_mode E then ret (Finished (Inr dev_config)) else
    try_then (check_firecracker_binary E) (\<lambda>(out, fp).
       case parse_and_validate_version sv out of
         Panicked \<Rightarrow> ret Panicked
       | Finished (Inl e) \<Rightarrow> ret (Finished (Inl e))
       | Finished (Inr version) \<Rightarrow> other_preflight_host E fp))
    (\<lambda>cfg. if dev_mode E then cfg = dev_config else other_ready sv E cfg)"
  proof (cases "dev_mode E")
    case True
    then show ?thesis by (auto simp: yields_outcome_def)
  next
    case False
    show ?thesis
      unfolding if_not_P [OF False]
      by (rule yields_eq [OF yields_try_then [OF yields_firecracker [OF assms] version]]) (auto simp: other_ready_def)
  qed
  with answers_dev [OF assms] have "yields_outcome (other_preflight_check sv E)
    (\<lambda>cfg. if dev_mode E then cfg = dev_config else other_ready sv E cfg)"
    unfolding other_preflight_check_def by (rule yields_outcome_bind)
  then show ?thesis by (simp add: yields_outcome_def)
qed

end
