(* ===== verification/Unit_Tests.thy ===== *)
theory Unit_Tests
  imports Orphan Fc_Version App_State
begin

text \<open>
  The unit tests that stand beside the code, in the \<open>tests\<close> modules of \<open>vm/config.rs\<close>,
  \<open>vm/network.rs\<close>, \<open>capacity.rs\<close>, \<open>error.rs\<close>, \<open>firecracker/version.rs\<close>,
  \<open>firecracker/network.rs\<close> and \<open>firecracker/orphan.rs\<close>: each test function is a definition of its
  name, true when all its assertions hold and no \<open>unwrap\<close> panics, and the lemmas say that the
  model passes them. They tie the model to the authors' own expectations of the code.
\<close>

text \<open>Decimal digits, and texts given by their lines.\<close>

lemma digit_chars: "digit_char 0 = CHR ''0''" "digit_char (Suc 0) = CHR ''1''" "digit_char 2 = CHR ''2''"
  "digit_char 3 = CHR ''3''" "digit_char 4 = CHR ''4''" "digit_char 5 = CHR ''5''" "digit_char 6 = CHR ''6''"
  "digit_char 7 = CHR ''7''" "digit_char 8 = CHR ''8''" "digit_char 9 = CHR ''9''"
  by code_simp+

lemmas decimal = show_nat.simps digit_chars

definition lines_text :: "string list \<Rightarrow> string" where
  "lines_text ls = concat (map (\<lambda>l. l @ [newline]) ls)"

section \<open>Sizes and limits\<close>

text \<open>\<open>unwrap\<close> of a result is written as the comparison with the value expected.\<close>

definition defaults_when_no_values :: bool where
  "defaults_when_no_values \<longleftrightarrow> validate_vm_config None None = Inr (1, 128)"

definition accepts_1_vcpu :: bool where
  "accepts_1_vcpu \<longleftrightarrow> map_sum id fst (validate_vm_config (Some 1) None) = Inr 1"

definition accepts_even_vcpus :: bool where
  "accepts_even_vcpus \<longleftrightarrow>
     list_all (\<lambda>n. map_sum id fst (validate_vm_config (Some n) None) = Inr n) [2, 4, 8, 16, 32]"

fun invalid_vcpus :: "config_error + 'a \<Rightarrow> bool" where
  "invalid_vcpus (Inl (InvalidVcpus _)) = True"
| "invalid_vcpus _ = False"

fun invalid_memory :: "config_error + 'a \<Rightarrow> bool" where
  "invalid_memory (Inl (InvalidMemory _)) = True"
| "invalid_memory _ = False"

definition rejects_0_vcpus :: bool where
  "rejects_0_vcpus \<longleftrightarrow> invalid_vcpus (validate_vm_config (Some 0) None)"

definition rejects_odd_vcpus_greater_than_1 :: bool where
  "rejects_odd_vcpus_greater_than_1 \<longleftrightarrow>
     list_all (\<lambda>n. invalid_vcpus (validate_vm_config (Some n) None)) [3, 5, 7, 15, 31]"

definition rejects_vcpus_over_32 :: bool where
  "rejects_vcpus_over_32 \<longleftrightarrow> invalid_vcpus (validate_vm_config (Some 34) None)"

definition accepts_minimum_memory :: bool where
  "accepts_minimum_memory \<longleftrightarrow> map_sum id snd (validate_vm_config None (Some 128)) = Inr 128"

definition accepts_large_memory :: bool where
  "accepts_large_memory \<longleftrightarrow> map_sum id snd (validate_vm_config None (Some 4096)) = Inr 4096"

definition rejects_memory_below_minimum :: bool where
  "rejects_memory_below_minimum \<longleftrightarrow> invalid_memory (validate_vm_config None (Some 64))"

lemma config_tests:
  defaults_when_no_values accepts_1_vcpu accepts_even_vcpus rejects_0_vcpus
  rejects_odd_vcpus_greater_than_1 rejects_vcpus_over_32 accepts_minimum_memory accepts_large_memory
  rejects_memory_below_minimum
  by code_simp+

definition bytes_of_mb :: "u64 \<Rightarrow> string" where
  "bytes_of_mb mb = show_nat (unat ((mb + 50) * 1024 * 1024))"

definition cgroup_v2_config :: bool where
  "cgroup_v2_config \<longleftrightarrow> build_cgroup_config 2 1 128 =
     [(''cpu.max'', ''100000 100000''), (''memory.max'', bytes_of_mb 128)]"

definition cgroup_v2_config_multi_vcpu :: bool where
  "cgroup_v2_config_multi_vcpu \<longleftrightarrow> (let cgroups = build_cgroup_config 2 4 256 in
     cgroups ! 0 = (''cpu.max'', ''400000 100000'') \<and> cgroups ! 1 = (''memory.max'', bytes_of_mb 256))"

definition cgroup_v1_config :: bool where
  "cgroup_v1_config \<longleftrightarrow> build_cgroup_config 1 2 256 =
     [(''cpu.cfs_quota_us'', ''200000''), (''cpu.cfs_period_us'', ''100000''),
      (''memory.limit_in_bytes'', bytes_of_mb 256)]"

definition cgroup_v1_single_vcpu :: bool where
  "cgroup_v1_single_vcpu \<longleftrightarrow> build_cgroup_config 1 1 128 =
     [(''cpu.cfs_quota_us'', ''100000''), (''cpu.cfs_period_us'', ''100000''),
      (''memory.limit_in_bytes'', bytes_of_mb 128)]"

definition cgroup_v2_max_vcpus :: bool where
  "cgroup_v2_max_vcpus \<longleftrightarrow> (let cgroups = build_cgroup_config 2 32 4096 in
     cgroups ! 0 = (''cpu.max'', ''3200000 100000'') \<and> cgroups ! 1 = (''memory.max'', bytes_of_mb 4096))"

lemma cgroup_tests:
  cgroup_v2_config cgroup_v2_config_multi_vcpu cgroup_v1_config cgroup_v1_single_vcpu cgroup_v2_max_vcpus
  by (simp_all add: cgroup_v2_config_def cgroup_v2_config_multi_vcpu_def cgroup_v1_config_def
    cgroup_v1_single_vcpu_def cgroup_v2_max_vcpus_def build_cgroup_config_def bytes_of_mb_def decimal)

section \<open>Capacity\<close>

definition allocatable_memory_subtracts_reservation :: bool where
  "allocatable_memory_subtracts_reservation \<longleftrightarrow>
     allocatable_memory_mb \<lparr>cap_memory_mb = 1024, cap_vcpus = 1\<rparr> = 1024 - 256"

definition allocatable_memory_saturates_at_zero :: bool where
  "allocatable_memory_saturates_at_zero \<longleftrightarrow> allocatable_memory_mb \<lparr>cap_memory_mb = 128, cap_vcpus = 1\<rparr> = 0"

definition allocatable_memory_exact_reservation :: bool where
  "allocatable_memory_exact_reservation \<longleftrightarrow> allocatable_memory_mb \<lparr>cap_memory_mb = 256, cap_vcpus = 1\<rparr> = 0"

definition allocatable_memory_just_above_reservation :: bool where
  "allocatable_memory_just_above_reservation \<longleftrightarrow> allocatable_memory_mb \<lparr>cap_memory_mb = 257, cap_vcpus = 1\<rparr> = 1"

lemma capacity_tests:
  allocatable_memory_subtracts_reservation allocatable_memory_saturates_at_zero
  allocatable_memory_exact_reservation allocatable_memory_just_above_reservation
  by code_simp+

section \<open>Addresses and the pool\<close>

definition first_subnet_ips :: bool where
  "first_subnet_ips \<longleftrightarrow> subnet_tap_ip 0 = Ipv4 172 16 0 1 \<and> subnet_guest_ip 0 = Ipv4 172 16 0 2"

definition second_subnet_ips :: bool where
  "second_subnet_ips \<longleftrightarrow> subnet_tap_ip 1 = Ipv4 172 16 0 5 \<and> subnet_guest_ip 1 = Ipv4 172 16 0 6"

definition subnet_wraps_third_octet :: bool where
  "subnet_wraps_third_octet \<longleftrightarrow> subnet_tap_ip 64 = Ipv4 172 16 1 1 \<and> subnet_guest_ip 64 = Ipv4 172 16 1 2"

definition thousandth_subnet_matches_firecracker_docs :: bool where
  "thousandth_subnet_matches_firecracker_docs \<longleftrightarrow>
     subnet_tap_ip 999 = Ipv4 172 16 15 157 \<and> subnet_guest_ip 999 = Ipv4 172 16 15 158"

definition last_subnet_ips :: bool where
  "last_subnet_ips \<longleftrightarrow>
     subnet_tap_ip 16383 = Ipv4 172 16 255 253 \<and> subnet_guest_ip 16383 = Ipv4 172 16 255 254"

definition tap_name_format :: bool where
  "tap_name_format \<longleftrightarrow> tap_name 0 = ''fc0'' \<and> tap_name 42 = ''fc42'' \<and> tap_name 16383 = ''fc16383''"

definition tap_name_within_linux_limit :: bool where
  "tap_name_within_linux_limit \<longleftrightarrow> length (tap_name 16383) \<le> 15"

definition boot_args_format :: bool where
  "boot_args_format \<longleftrightarrow> build_network_boot_args (Ipv4 172 16 0 2) (Ipv4 172 16 0 1) =
     ''ip=172.16.0.2::172.16.0.1:255.255.255.252::eth0:off''"

lemma address_tests:
  first_subnet_ips second_subnet_ips subnet_wraps_third_octet thousandth_subnet_matches_firecracker_docs
  last_subnet_ips tap_name_format tap_name_within_linux_limit boot_args_format
  by (simp_all add: first_subnet_ips_def second_subnet_ips_def subnet_wraps_third_octet_def
    thousandth_subnet_matches_firecracker_docs_def last_subnet_ips_def tap_name_format_def
    tap_name_within_linux_limit_def boot_args_format_def subnet_tap_ip_def subnet_guest_ip_def tap_name_def
    build_network_boot_args_def decimal)

text \<open>In the tests of the pool an \<open>unwrap\<close> that panics is the result \<open>None\<close>.\<close>

definition allocate_first_subnet :: bool where
  "allocate_first_subnet \<longleftrightarrow> map_option fst (pool_allocate pool_new) =
     Some \<lparr>sub_index = 0, tap_ip = Ipv4 172 16 0 1, guest_ip = Ipv4 172 16 0 2, sub_tap_name = ''fc0''\<rparr>"

definition sequential_allocation :: bool where
  "sequential_allocation \<longleftrightarrow> do {
     (a, p) \<leftarrow> pool_allocate pool_new;
     (b, p) \<leftarrow> pool_allocate p;
     (c, p) \<leftarrow> pool_allocate p;
     Some [sub_index a, sub_index b, sub_index c]
   } = Some [0, 1, 2]"

definition release_and_reuse :: bool where
  "release_and_reuse \<longleftrightarrow> do {
     (a, p) \<leftarrow> pool_allocate pool_new;
     (b, p) \<leftarrow> pool_allocate p;
     p \<leftarrow> pool_release 0 p;
     (c, p) \<leftarrow> pool_allocate p;
     Some [sub_index a, sub_index b, sub_index c]
   } = Some [0, 1, 0]"

fun allocate_times :: "nat \<Rightarrow> subnet_pool \<Rightarrow> subnet_pool option" where
  "allocate_times 0 p = Some p"
| "allocate_times (Suc n) p = (case pool_allocate p of None \<Rightarrow> None | Some (_, p) \<Rightarrow> allocate_times n p)"

definition pool_exhaustion :: bool where
  "pool_exhaustion \<longleftrightarrow>
     (case allocate_times MAX_SUBNETS pool_new of
        None \<Rightarrow> False
      | Some p \<Rightarrow> pool_allocate p = None
          \<and> (case pool_release 100 p of
               None \<Rightarrow> False
             | Some p \<Rightarrow> map_option (\<lambda>(a, _). sub_index a) (pool_allocate p) = Some 100))"

lemma first_free_at: "first_free (replicate n True @ False # us) = Some n"
  by (induction n) simp_all

lemma fill_next: "(replicate n True @ False # us)[n := True] = replicate (Suc n) True @ us"
  by (induction n) simp_all

lemma allocate_times_fills:
  "allocate_times n \<lparr>slots = replicate k True @ replicate (n + m) False\<rparr> =
     Some \<lparr>slots = replicate (n + k) True @ replicate m False\<rparr>"
proof (induction n arbitrary: k)
  case (Suc n)
  have "pool_allocate \<lparr>slots = replicate k True @ replicate (Suc n + m) False\<rparr> \<noteq> None
    \<and> snd (the (pool_allocate \<lparr>slots = replicate k True @ replicate (Suc n + m) False\<rparr>)) =
      \<lparr>slots = replicate (Suc k) True @ replicate (n + m) False\<rparr>"
    using first_free_at [of k "replicate (n + m) False"] fill_next [of k "replicate (n + m) False"]
    by (simp add: pool_allocate_def Let_def)
  with Suc.IH [of "Suc k"] show ?case by (auto split: option.split)
qed simp

lemma pool_tests:
  allocate_first_subnet sequential_allocation release_and_reuse pool_exhaustion
proof -
  have new: "pool_new = \<lparr>slots = False # False # False # replicate 16381 False\<rparr>"
  proof -
    have "(16384 :: nat) = Suc (Suc (Suc 16381))" by simp
    then show ?thesis unfolding pool_new_def MAX_SUBNETS_def by (simp only: replicate.simps)
  qed
  have a: "subnet_tap_ip 0 = Ipv4 172 16 0 1" "subnet_guest_ip 0 = Ipv4 172 16 0 2" "tap_name 0 = ''fc0''" by code_simp+
  show allocate_first_subnet by (simp add: allocate_first_subnet_def new pool_allocate_def a)
  show sequential_allocation by (simp add: sequential_allocation_def new pool_allocate_def)
  show release_and_reuse by (simp add: release_and_reuse_def new pool_allocate_def pool_release_def)
  let ?full = "replicate 16384 True"
  have full: "allocate_times MAX_SUBNETS pool_new = Some \<lparr>slots = ?full\<rparr>"
    using allocate_times_fills [of MAX_SUBNETS 0 0] by (simp add: pool_new_def MAX_SUBNETS_def)
  have "first_free ?full = None" unfolding first_free_None by simp
  then have none: "pool_allocate \<lparr>slots = ?full\<rparr> = None" by (simp add: pool_allocate_def)
  have "?full = replicate 100 True @ True # replicate 16283 True"
    using replicate_add [of 100 16284 True] replicate_Suc [of 16283 True] by simp
  then have "?full[100 := False] = replicate 100 True @ False # replicate 16283 True"
    by (simp only: list_update_append length_replicate) simp
  then have "pool_release 100 \<lparr>slots = ?full\<rparr> = Some \<lparr>slots = replicate 100 True @ False # replicate 16283 True\<rparr>"
    by (simp add: pool_release_def)
  with full none show pool_exhaustion by (simp add: pool_exhaustion_def pool_allocate_def first_free_at)
qed

section \<open>Errors\<close>

definition response_parts :: "api_error \<Rightarrow> nat \<times> json" where
  "response_parts e = (let response = into_response e in (resp_status response, resp_body response))"

fun json_field :: "json \<Rightarrow> string \<Rightarrow> json" where
  "json_field (JObj members) name = (case map_of members name of None \<Rightarrow> JNull | Some v \<Rightarrow> v)"
| "json_field _ _ = JNull"

definition into_response_returns_json_error_body :: bool where
  "into_response_returns_json_error_body \<longleftrightarrow> (let (status, json) = response_parts (api_not_found ''VM not found'')
     in status = 404 \<and> json_field json ''error'' = JStr ''VM not found'')"

definition into_response_internal_error :: bool where
  "into_response_internal_error \<longleftrightarrow> (let (status, json) = response_parts (api_internal ''something broke'')
     in status = 500 \<and> json_field json ''error'' = JStr ''something broke'')"

definition into_response_conflict :: bool where
  "into_response_conflict \<longleftrightarrow> (let (status, json) = response_parts (api_conflict ''resource busy'')
     in status = 409 \<and> json_field json ''error'' = JStr ''resource busy'')"

definition into_response_unprocessable :: bool where
  "into_response_unprocessable \<longleftrightarrow> (let (status, json) = response_parts (api_unprocessable ''bad input'')
     in status = 422 \<and> json_field json ''error'' = JStr ''bad input'')"

definition from_anyhow_obfuscates_error_message :: bool where
  "from_anyhow_obfuscates_error_message \<longleftrightarrow>
     (let (status, json) = response_parts (api_from_anyhow [''secret database connection string leaked''])
      in status = 500 \<and> json_field json ''error'' = JStr ''Internal server error'')"

lemma error_tests:
  into_response_returns_json_error_body into_response_internal_error into_response_conflict
  into_response_unprocessable from_anyhow_obfuscates_error_message
  by code_simp+

section \<open>Versions\<close>

text \<open>\<open>semver\<close> is taken as \<open>list_semver\<close> here.\<close>

abbreviation parse_version :: "string \<Rightarrow> (anyhow + nat list) outcome" where
  "parse_version \<equiv> parse_and_validate_version list_semver"

definition test_parse_version_with_v_prefix :: bool where
  "test_parse_version_with_v_prefix \<longleftrightarrow> parse_version ''v1.14.1'' = Finished (Inr [1, 14, 1])"

definition test_parse_version_without_v_prefix :: bool where
  "test_parse_version_without_v_prefix \<longleftrightarrow> parse_version ''1.14.1'' = Finished (Inr [1, 14, 1])"

definition test_parse_version_with_whitespace :: bool where
  "test_parse_version_with_whitespace \<longleftrightarrow> parse_version (''  v1.14.1'' @ [newline]) = Finished (Inr [1, 14, 1])"

fun is_ok :: "('e + 'a) outcome \<Rightarrow> bool" where
  "is_ok (Finished (Inr _)) = True"
| "is_ok _ = False"

definition test_version_meets_minimum :: bool where
  "test_version_meets_minimum \<longleftrightarrow> is_ok (parse_version ''v1.14.1'')"

definition test_version_exceeds_minimum :: bool where
  "test_version_exceeds_minimum \<longleftrightarrow> is_ok (parse_version ''v1.15.0'')"

definition test_version_below_minimum :: bool where
  "test_version_below_minimum \<longleftrightarrow>
     (case parse_version ''v1.10.0'' of Finished (Inl (e # _)) \<Rightarrow> contains e ''too old'' | _ \<Rightarrow> False)"

definition test_version_exact_minimum :: bool where
  "test_version_exact_minimum \<longleftrightarrow> is_ok (parse_version ''v1.14.1'')"

definition test_invalid_version_format :: bool where
  "test_invalid_version_format \<longleftrightarrow> (case parse_version ''invalid'' of Finished (Inl _) \<Rightarrow> True | _ \<Rightarrow> False)"

definition test_parse_version_with_multiline_output :: bool where
  "test_parse_version_with_multiline_output \<longleftrightarrow> parse_version (lines_text [''Firecracker v1.14.1'', [],
     ''2026-02-23T21:05:34.876998360 [anonymous-instance:main] Firecracker exiting successfully. exit_code=0''])
     = Finished (Inr [1, 14, 1])"

definition test_parse_version_with_extra_lines :: bool where
  "test_parse_version_with_extra_lines \<longleftrightarrow>
     parse_version (''v1.15.0'' @ [newline] @ ''Some other output'' @ [newline] @ ''More lines here'')
     = Finished (Inr [1, 15, 0])"

definition test_parse_version_single_line_still_works :: bool where
  "test_parse_version_single_line_still_works \<longleftrightarrow> parse_version ''v1.14.1'' = Finished (Inr [1, 14, 1])"

lemma version_tests:
  test_parse_version_with_v_prefix test_parse_version_without_v_prefix test_parse_version_with_whitespace
  test_version_meets_minimum test_version_exceeds_minimum test_version_below_minimum test_version_exact_minimum
  test_invalid_version_format test_parse_version_with_multiline_output test_parse_version_with_extra_lines
  test_parse_version_single_line_still_works
  by code_simp+

section \<open>Rule handles\<close>

definition parse_nft_handle_from_output :: bool where
  "parse_nft_handle_from_output \<longleftrightarrow> parse_nft_handle (lines_text
     [''add rule firecracker postrouting ip saddr 172.16.0.2 oifname eth0 counter masquerade # handle 42'']) = Inr 42"

definition parse_nft_handle_multiline :: bool where
  "parse_nft_handle_multiline \<longleftrightarrow> parse_nft_handle (lines_text
     [''table firecracker {'', ''  chain postrouting {'', ''    # handle 7'', ''  }'', ''}'', ''add rule ... # handle 99''])
     = Inr 99"

definition parse_nft_handle_missing :: bool where
  "parse_nft_handle_missing \<longleftrightarrow> \<not> is_ok (Finished (parse_nft_handle (lines_text
     [''some random output without a handle''])))"

lemma handle_line:
  "find_sub ''# handle '' line = Some pos \<Longrightarrow> trim (drop (pos + 9) line) = s \<Longrightarrow> parse_u64 s = Some n \<Longrightarrow>
   parse_handle_lines acc (line # rest) = parse_handle_lines (Some n) rest"
  by simp

lemma no_handle_lines:
  "list_all (\<lambda>line. find_sub ''# handle '' line = None) ls \<Longrightarrow> parse_handle_lines acc (ls @ rest) = parse_handle_lines acc rest"
  by (induction ls) simp_all

lemma handle_tests:
  parse_nft_handle_from_output parse_nft_handle_multiline parse_nft_handle_missing
proof -
  have n: "parse_u64 ''42'' = Some 42" "parse_u64 ''7'' = Some 7" "parse_u64 ''99'' = Some 99"
    by (simp_all add: parse_u64_def digit_val_def)
  let ?a = "''add rule firecracker postrouting ip saddr 172.16.0.2 oifname eth0 counter masquerade # handle 42''"
  have a: "str_lines (lines_text [?a]) = [?a]" "find_sub ''# handle '' ?a = Some 85" "trim (drop (85 + 9) ?a) = ''42''"
    by code_simp+
  show parse_nft_handle_from_output
    using handle_line [OF a(2,3) n(1), of None "[]"] a(1)
    by (simp only: parse_nft_handle_from_output_def parse_nft_handle_def) simp
  let ?b = "''    # handle 7''" and ?c = "''add rule ... # handle 99''"
  let ?ls = "[''table firecracker {'', ''  chain postrouting {'']" and ?rs = "[''  }'', ''}'']"
  have b: "str_lines (lines_text (?ls @ ?b # ?rs @ [?c])) = ?ls @ ?b # ?rs @ [?c]"
    "list_all (\<lambda>line. find_sub ''# handle '' line = None) ?ls" "list_all (\<lambda>line. find_sub ''# handle '' line = None) ?rs"
    "find_sub ''# handle '' ?b = Some 4" "trim (drop (4 + 9) ?b) = ''7''"
    "find_sub ''# handle '' ?c = Some 13" "trim (drop (13 + 9) ?c) = ''99''" by code_simp+
  have "parse_handle_lines None (?ls @ ?b # ?rs @ [?c]) = Inr (Some 99)"
    unfolding no_handle_lines [OF b(2)] handle_line [OF b(4,5) n(2)] no_handle_lines [OF b(3)]
      handle_line [OF b(6,7) n(3)] by simp
  with b(1) show parse_nft_handle_multiline
    by (simp only: parse_nft_handle_multiline_def parse_nft_handle_def append.simps) simp
  let ?d = "''some random output without a handle''"
  have d: "str_lines (lines_text [?d]) = [?d]" "find_sub ''# handle '' ?d = None" by code_simp+
  then show parse_nft_handle_missing
    by (simp only: parse_nft_handle_missing_def parse_nft_handle_def parse_handle_lines.simps) simp
qed

section \<open>Listings of devices and rules\<close>

definition parse_tap_devices_from_ip_output :: bool where
  "parse_tap_devices_from_ip_output \<longleftrightarrow> parse_fc_tap_devices (lines_text [
     ''1: lo: <LOOPBACK,UP,LOWER_UP> mtu 65536 qdisc noqueue state UNKNOWN mode DEFAULT group default qlen 1000'' @ [CHR 0x5C] @ ''    link/loopback 00:00:00:00:00:00 brd 00:00:00:00:00:00'',
     ''2: eth0: <BROADCAST,MULTICAST,UP,LOWER_UP> mtu 1500 qdisc fq_codel state UP mode DEFAULT group default qlen 1000'' @ [CHR 0x5C] @ ''    link/ether 12:34:56:78:9a:bc brd ff:ff:ff:ff:ff:ff'',
     ''3: fc0: <BROADCAST,MULTICAST,UP,LOWER_UP> mtu 1500 qdisc fq_codel state UP mode DEFAULT group default qlen 1000'' @ [CHR 0x5C] @ ''    link/ether aa:bb:cc:dd:ee:ff brd ff:ff:ff:ff:ff:ff'',
     ''4: fc1: <BROADCAST,MULTICAST,UP,LOWER_UP> mtu 1500 qdisc fq_codel state UP mode DEFAULT group default qlen 1000'' @ [CHR 0x5C] @ ''    link/ether 11:22:33:44:55:66 brd ff:ff:ff:ff:ff:ff'']) = [''fc0'', ''fc1'']"

definition parse_tap_devices_no_fc_interfaces :: bool where
  "parse_tap_devices_no_fc_interfaces \<longleftrightarrow> parse_fc_tap_devices (lines_text [
     ''1: lo: <LOOPBACK,UP,LOWER_UP> mtu 65536 qdisc noqueue state UNKNOWN'',
     ''2: eth0: <BROADCAST,MULTICAST,UP,LOWER_UP> mtu 1500 qdisc fq_codel state UP'']) = []"

definition parse_tap_devices_ignores_non_fc_prefixed :: bool where
  "parse_tap_devices_ignores_non_fc_prefixed \<longleftrightarrow> parse_fc_tap_devices (lines_text [
     ''1: lo: <LOOPBACK> mtu 65536'',
     ''2: fcc0: <BROADCAST> mtu 1500'',
     ''3: fc_0: <BROADCAST> mtu 1500'',
     ''4: fc42: <BROADCAST> mtu 1500'']) = [''fc42'']"

definition parse_tap_devices_empty_output :: bool where
  "parse_tap_devices_empty_output \<longleftrightarrow> parse_fc_tap_devices [] = []"

definition parse_tap_devices_high_index :: bool where
  "parse_tap_devices_high_index \<longleftrightarrow> parse_fc_tap_devices (lines_text [
     ''5: fc16383: <BROADCAST,MULTICAST> mtu 1500 qdisc noop state DOWN'']) = [''fc16383'']"

definition nftables_empty_table_has_no_rules :: bool where
  "nftables_empty_table_has_no_rules \<longleftrightarrow> \<not> has_nftables_rules (lines_text [
     ''table ip firecracker {'',
     ''    chain postrouting {'',
     ''        type nat hook postrouting priority srcnat; policy accept;'',
     ''    }'',
     ''    chain filter {'',
     ''        type filter hook forward priority filter; policy accept;'',
     ''    }'',
     ''}''])"

definition nftables_table_with_masquerade_rule :: bool where
  "nftables_table_with_masquerade_rule \<longleftrightarrow> has_nftables_rules (lines_text [
     ''table ip firecracker {'',
     ''    chain postrouting {'',
     ''        type nat hook postrouting priority srcnat; policy accept;'',
     ''        ip saddr 172.16.0.2 oifname \"eth0\" counter packets 0 bytes 0 masquerade'',
     ''    }'',
     ''    chain filter {'',
     ''        type filter hook forward priority filter; policy accept;'',
     ''    }'',
     ''}''])"

definition nftables_table_with_filter_rule :: bool where
  "nftables_table_with_filter_rule \<longleftrightarrow> has_nftables_rules (lines_text [
     ''table ip firecracker {'',
     ''    chain postrouting {'',
     ''        type nat hook postrouting priority srcnat; policy accept;'',
     ''    }'',
     ''    chain filter {'',
     ''        type filter hook forward priority filter; policy accept;'',
     ''        iifname \"fc0\" oifname \"eth0\" accept'',
     ''    }'',
     ''}''])"

definition nftables_empty_output :: bool where
  "nftables_empty_output \<longleftrightarrow> \<not> has_nftables_rules []"


lemma orphan_tests:
  parse_tap_devices_from_ip_output parse_tap_devices_no_fc_interfaces parse_tap_devices_ignores_non_fc_prefixed
  parse_tap_devices_empty_output parse_tap_devices_high_index nftables_empty_table_has_no_rules
  nftables_table_with_masquerade_rule nftables_table_with_filter_rule nftables_empty_output
  by code_simp+

end
