(* ===== verification/Unit_Tests_Env.thy ===== *)
theory Unit_Tests_Env
  imports Ssh_Keys Preflight
begin

text \<open>
  The unit tests of \<open>ssh/auth.rs\<close>, \<open>ssh/authorized_keys.rs\<close>, \<open>ssh/host_key.rs\<close> and
  \<open>firecracker/preflight.rs\<close>, which use what is not the program's: random UUIDs and keys, files,
  environment variables. Those are arguments of the definitions, and the lemmas say what has to
  hold of them for the tests to pass.
\<close>

section \<open>User names\<close>

definition test_parse_valid_vm_username :: "env \<Rightarrow> uuid \<Rightarrow> bool" where
  "test_parse_valid_vm_username E u \<longleftrightarrow>
     parse_vm_id_from_username E (''vm-'' @ env_uuid_to_string E u) = Inr (Some u)"

definition test_parse_invalid_username :: "env \<Rightarrow> bool" where
  "test_parse_invalid_username E \<longleftrightarrow>
     list_all (\<lambda>name. parse_vm_id_from_username E name = Inr None) [''root'', ''admin'', ''vm'']"

definition test_parse_malformed_uuid :: "env \<Rightarrow> bool" where
  "test_parse_malformed_uuid E \<longleftrightarrow>
     (case parse_vm_id_from_username E ''vm-not-a-uuid'' of Inl _ \<Rightarrow> True | Inr _ \<Rightarrow> False)"

lemma username_tests:
  "env_uuid_parse E (env_uuid_to_string E u) = Some u \<Longrightarrow> test_parse_valid_vm_username E u"
  "test_parse_invalid_username E"
  "env_uuid_parse E ''not-a-uuid'' = None \<Longrightarrow> test_parse_malformed_uuid E"
  using username_roundtrip
  by (simp_all add: test_parse_valid_vm_username_def test_parse_invalid_username_def test_parse_malformed_uuid_def
    parse_vm_id_from_username_def strip_prefix_def)

section \<open>Authorized keys\<close>

text \<open>\<open>key_str\<close> is what \<open>write_public_key_base64\<close> has written of a key.\<close>

definition test_is_key_authorized_empty_list ::
  "(string \<Rightarrow> string + ('ed, 'rsa, 'hash, 'ec) public_key) \<Rightarrow> ('ed, 'rsa, 'hash, 'ec) public_key \<Rightarrow> bool" where
  "test_is_key_authorized_empty_list parse public_key \<longleftrightarrow> is_key_authorized parse public_key [] = Inr False"

definition test_is_key_authorized_matching_key ::
  "(string \<Rightarrow> string + ('ed, 'rsa, 'hash, 'ec) public_key) \<Rightarrow> ('ed, 'rsa, 'hash, 'ec) public_key \<Rightarrow> string \<Rightarrow> bool" where
  "test_is_key_authorized_matching_key parse public_key key_str \<longleftrightarrow>
     is_key_authorized parse public_key [trim key_str @ '' comment@example.com''] = Inr True"

definition test_is_key_authorized_non_matching_key ::
  "(string \<Rightarrow> string + ('ed, 'rsa, 'hash, 'ec) public_key) \<Rightarrow> ('ed, 'rsa, 'hash, 'ec) public_key \<Rightarrow> string \<Rightarrow> bool" where
  "test_is_key_authorized_non_matching_key parse public_key1 key2_str \<longleftrightarrow>
     is_key_authorized parse public_key1 [trim key2_str @ '' different@example.com''] = Inr False"

definition test_is_key_authorized_multiple_keys ::
  "(string \<Rightarrow> string + ('ed, 'rsa, 'hash, 'ec) public_key) \<Rightarrow> ('ed, 'rsa, 'hash, 'ec) public_key
   \<Rightarrow> string \<Rightarrow> string \<Rightarrow> string \<Rightarrow> bool" where
  "test_is_key_authorized_multiple_keys parse target_public key1_str target_str key2_str \<longleftrightarrow>
     is_key_authorized parse target_public
       [trim key1_str @ '' user1@example.com'', trim target_str @ '' user2@example.com'',
        trim key2_str @ '' user3@example.com''] = Inr True"

definition test_is_key_authorized_with_comments_and_empty_lines ::
  "(string \<Rightarrow> string + ('ed, 'rsa, 'hash, 'ec) public_key) \<Rightarrow> ('ed, 'rsa, 'hash, 'ec) public_key \<Rightarrow> string \<Rightarrow> bool" where
  "test_is_key_authorized_with_comments_and_empty_lines parse public_key key_str \<longleftrightarrow>
     is_key_authorized parse public_key
       [''# This is a comment'', [], trim key_str @ '' valid@example.com'', ''# Another comment''] = Inr True"

text \<open>What is relied on: the text of a key is its type and its data, which parses back to the key.\<close>

definition written :: "(string \<Rightarrow> string + ('ed, 'rsa, 'hash, 'ec) public_key) \<Rightarrow> ('ed, 'rsa, 'hash, 'ec) public_key \<Rightarrow> string \<Rightarrow> bool" where
  "written parse key text_of \<longleftrightarrow> (\<exists>kind data. trim text_of = kind @ '' '' @ data \<and> kind \<noteq> [] \<and> hd kind \<noteq> CHR ''#''
     \<and> data \<noteq> [] \<and> (\<forall>c \<in> set kind. \<not> is_ws c) \<and> (\<forall>c \<in> set data. \<not> is_ws c) \<and> parse data = Inr key)"

lemma written_grants:
  assumes "written parse k t"
  shows "grants parse key (trim t @ CHR '' '' # comment) \<longleftrightarrow> keys_equal key k"
proof -
  from assms obtain kind data where t: "trim t = kind @ '' '' @ data" "kind \<noteq> []" "hd kind \<noteq> CHR ''#''"
    "data \<noteq> []" and ws: "\<forall>c \<in> set kind. \<not> is_ws c" "\<forall>c \<in> set data. \<not> is_ws c" and p: "parse data = Inr k"
    unfolding written_def by blast
  have space: "is_ws CHR '' ''" by (simp add: is_ws_def)
  have "split_whitespace (kind @ CHR '' '' # data @ CHR '' '' # comment) = kind # data # split_whitespace comment"
    using split_whitespace_cons [OF ws(1) t(2) space] split_whitespace_cons [OF ws(2) t(4) space] by simp
  moreover obtain c w where "kind = c # w" using t(2) by (cases kind) simp_all
  ultimately show ?thesis using t(1,3) p by (simp add: grants_def)
qed

lemma authorized_keys_tests:
  "test_is_key_authorized_empty_list parse key"
  "written parse key t \<Longrightarrow> test_is_key_authorized_matching_key parse key t"
  "written parse key2 t \<Longrightarrow> \<not> keys_equal key key2 \<Longrightarrow> test_is_key_authorized_non_matching_key parse key t"
  "written parse key t \<Longrightarrow> test_is_key_authorized_multiple_keys parse key t1 t t2"
  "written parse key t \<Longrightarrow> test_is_key_authorized_with_comments_and_empty_lines parse key t"
  using written_grants [of parse key t] written_grants [of parse key2 t]
  by (simp_all add: test_is_key_authorized_empty_list_def test_is_key_authorized_matching_key_def
    test_is_key_authorized_non_matching_key_def test_is_key_authorized_multiple_keys_def
    test_is_key_authorized_with_comments_and_empty_lines_def is_key_authorized_eq)

section \<open>The host key\<close>

text \<open>The permissions a history leaves on one file.\<close>

definition mode_step :: "string \<Rightarrow> nat option \<Rightarrow> event \<Rightarrow> nat option" where
  "mode_step path mode e = (case e of EvSetMode p m r \<Rightarrow> if p = path \<and> r = Inr () then Some m else mode | _ \<Rightarrow> mode)"

definition test_generate_and_save_host_key :: "env \<Rightarrow> ('kp, 'priv) key_ops \<Rightarrow> string \<Rightarrow> bool" where
  "test_generate_and_save_host_key E K key_path \<longleftrightarrow>
     (case run_state (load_or_generate_host_key E K (Some key_path)) [] of
        (Inl _, _) \<Rightarrow> False
      | (Inr key1, h1) \<Rightarrow>
          file_content key_path h1 \<noteq> None \<and> file_content (with_extension key_path ''pub'') h1 \<noteq> None
          \<and> ledger (mode_step key_path) None h1 = Some 384
          \<and> ledger (mode_step (with_extension key_path ''pub'')) None h1 = Some 420
          \<and> (case fst (run_state (load_or_generate_host_key E K (Some key_path)) h1) of
               Inl _ \<Rightarrow> False
             | Inr key2 \<Rightarrow>
                 (case (ko_ed25519_bytes K key1, ko_ed25519_bytes K key2) of
                    (Some (_, k1), Some (_, k2)) \<Rightarrow> k1 = k2
                  | _ \<Rightarrow> False)))"

definition test_fallback_to_ephemeral_on_permission_error :: "env \<Rightarrow> ('kp, 'priv) key_ops \<Rightarrow> history \<Rightarrow> bool" where
  "test_fallback_to_ephemeral_on_permission_error E K h \<longleftrightarrow>
     (case fst (run_state (load_or_generate_host_key E K (Some ''/root/impossible/path/key'')) h) of
        Inl _ \<Rightarrow> False
      | Inr key \<Rightarrow> ko_ed25519_bytes K key \<noteq> None)"

text \<open>The files that saving a key writes, on a disk where every call succeeds.\<close>

lemma save_host_key_events:
  assumes "\<And>h p c. env_write E h p c = Inr ()" and "\<And>h p. env_create_dir_all E h p = Inr ()"
    and "\<And>h p m. env_set_mode E h p m = Inr ()" and "convert_key K key = Inr (priv, enc)" and "ko_public_openssh K priv = Inr pub"
  shows "\<exists>pre. snd (run_state (save_host_key E K key path) h) = pre @ [EvWriteFile path enc (Inr ()),
    EvSetMode path 384 (Inr ()), EvWriteFile (with_extension path ''pub'') pub (Inr ()),
    EvSetMode (with_extension path ''pub'') 420 (Inr ())]"
  using assms
  by (auto simp: save_host_key_def save_files_def save_public_def try_fs_def fs_context_def fs_write_def fs_set_mode_def
    fs_create_dir_all_def path_exists_def Let_def split: option.split)

lemma host_key_saved_test:
  assumes disk: "working_disk E K path" and modes: "\<And>h p m. env_set_mode E h p m = Inr ()"
    and path: "with_extension path ''pub'' \<noteq> path" and absent: "\<not> env_exists E [] path"
    and key: "\<And>h. ko_generate K h = Some k" "ko_ed25519_bytes K k \<noteq> None" "\<And>priv. \<exists>pub. ko_public_openssh K priv = Inr pub"
  shows "test_generate_and_save_host_key E K path"
proof -
  obtain priv enc where c: "convert_key K k = Inr (priv, enc)"
    using disk key(1) unfolding working_disk_def by (metis surj_pair)
  obtain pub where pub: "ko_public_openssh K priv = Inr pub" using key(3) by blast
  have w: "env_write E h p s = Inr ()" "env_create_dir_all E h p = Inr ()" for h p s
    using disk by (simp_all add: working_disk_def)
  let ?h0 = "[EvQuery ''exists'' path, EvQuery ''generate_ed25519'' []]"
  obtain r h1 where s: "run_state (save_host_key E K k path) ?h0 = (r, h1)" by fastforce
  with save_host_key_events [OF w modes c pub, of path ?h0] obtain pre where h1: "h1 = pre @ [EvWriteFile path enc (Inr ()),
    EvSetMode path 384 (Inr ()), EvWriteFile (with_extension path ''pub'') pub (Inr ()),
    EvSetMode (with_extension path ''pub'') 420 (Inr ())]" by auto
  have run: "run_state (load_or_generate_host_key E K (Some path)) [] = (Inr k, h1)"
    using s absent key(1) by (simp add: load_or_generate_host_key_def generate_host_key_def generate_ed25519_def path_exists_def)
  have f: "file_content path h1 = Some enc" "file_content (with_extension path ''pub'') h1 = Some pub"
    "ledger (mode_step path) None h1 = Some 384" "ledger (mode_step (with_extension path ''pub'')) None h1 = Some 420"
    using path path [symmetric] by (simp_all add: h1 file_content_def mode_step_def)
  have "file_content path (h1 @ [EvQuery ''exists'' path]) = Some enc" using f(1) by simp
  with f(1) c disk have "env_exists E h1 path" "ko_load K (h1 @ [EvQuery ''exists'' path]) path = Inr k"
    unfolding working_disk_def by blast+
  then have "fst (run_state (load_or_generate_host_key E K (Some path)) h1) = Inr k"
    by (simp add: load_or_generate_host_key_def path_exists_def load_secret_key_def)
  with run f key(2) show ?thesis by (auto simp: test_generate_and_save_host_key_def)
qed

lemma host_key_ephemeral_test:
  assumes "\<And>h. ko_generate K h = Some k" and "ko_ed25519_bytes K k \<noteq> None"
    and "\<not> env_exists E h ''/root/impossible/path/key''"
  shows "test_fallback_to_ephemeral_on_permission_error E K h"
  using assms by (simp add: test_fallback_to_ephemeral_on_permission_error_def load_or_generate_host_key_def
    generate_host_key_def generate_ed25519_def path_exists_def Let_def split: prod.split)

section \<open>Development mode\<close>

definition with_vars :: "env \<Rightarrow> (string \<times> string) list \<Rightarrow> env" where
  "with_vars E vars = E\<lparr>env_var := (\<lambda>h name.
     if name \<in> {''WARLOCK_DEV'', ''RUST_ENV''} then map_of vars name else env_var E h name)\<rparr>"

text \<open>The test ends by putting the two variables back as they were, which is left out.\<close>

definition test_dev_mode_detection :: "env \<Rightarrow> history \<Rightarrow> bool" where
  "test_dev_mode_detection E h \<longleftrightarrow>
     \<not> fst (run_state (is_dev_mode (with_vars E [])) h)
     \<and> fst (run_state (is_dev_mode (with_vars E [(''WARLOCK_DEV'', ''true'')])) h)
     \<and> \<not> fst (run_state (is_dev_mode (with_vars E [(''WARLOCK_DEV'', ''false'')])) h)
     \<and> fst (run_state (is_dev_mode (with_vars E [(''RUST_ENV'', ''development'')])) h)
     \<and> \<not> fst (run_state (is_dev_mode (with_vars E [(''RUST_ENV'', ''production'')])) h)"

lemma dev_mode_test: "test_dev_mode_detection E h"
  by (simp add: test_dev_mode_detection_def is_dev_mode_def env_lookup_def with_vars_def)

end
